(* ===== verification/JsValue.thy ===== *)
theory JsValue
  imports Prelude
begin

text \<open>
  JavaScript values as the sources exchange them (HTTP bodies, journal entries, option
  objects), with the operators they use on them: truthiness, \<open>??\<close>, \<open>||\<close>, property reads,
  object spread, \<open>delete\<close>, \<open>Number(\<dots>)\<close>, \<open>String(\<dots>)\<close>, relational comparison, and what is
  left of a value after \<open>JSON.parse(JSON.stringify(v))\<close>.

  A number is an integer, a decimal fraction \<open>JDec m e\<close> with the value \<open>m * 10 ^ (- e)\<close> (the
  shortest decimal form of a non-integral double, so \<open>0 < e\<close> and 10 does not divide \<open>m\<close>), an
  infinity or NaN. An object is the list of its own properties in insertion order.
\<close>

datatype jsval =
    JUndef
  | JNull
  | JBool bool
  | JInt int
  | JDec int nat
  | JInf bool
  | JNaN
  | JStr string
  | JArr "jsval list"
  | JObj "(string \<times> jsval) list"

section \<open>Truthiness and the logical operators\<close>

fun truthy :: "jsval \<Rightarrow> bool" where
  "truthy JUndef = False"
| "truthy JNull = False"
| "truthy (JBool b) = b"
| "truthy (JInt i) = (i \<noteq> 0)"
| "truthy (JDec m e) = (m \<noteq> 0)"
| "truthy (JInf b) = True"
| "truthy JNaN = False"
| "truthy (JStr s) = (s \<noteq> [])"
| "truthy (JArr xs) = True"
| "truthy (JObj kvs) = True"

definition nullish :: "jsval \<Rightarrow> bool" where
  "nullish v \<longleftrightarrow> v = JUndef \<or> v = JNull"

text \<open>\<open>a ?? b\<close> and \<open>a || b\<close> for operands without side effects.\<close>

definition coalesce :: "jsval \<Rightarrow> jsval \<Rightarrow> jsval" where
  "coalesce a b = (if nullish a then b else a)"

definition js_or :: "jsval \<Rightarrow> jsval \<Rightarrow> jsval" where
  "js_or a b = (if truthy a then a else b)"

text \<open>\<open>typeof\<close> tests.\<close>

fun is_string :: "jsval \<Rightarrow> bool" where
  "is_string (JStr s) = True"
| "is_string _ = False"

fun is_array :: "jsval \<Rightarrow> bool" where
  "is_array (JArr xs) = True"
| "is_array _ = False"

fun is_integer :: "jsval \<Rightarrow> bool" where
  "is_integer (JInt i) = True"
| "is_integer _ = False"

text \<open>\<open>typeof v === 'object'\<close> holds of null, arrays and objects.\<close>

fun typeof_object :: "jsval \<Rightarrow> bool" where
  "typeof_object JNull = True"
| "typeof_object (JArr xs) = True"
| "typeof_object (JObj kvs) = True"
| "typeof_object _ = False"

text \<open>\<open>Number.isFinite\<close> does not convert its argument.\<close>

fun is_finite_number :: "jsval \<Rightarrow> bool" where
  "is_finite_number (JInt i) = True"
| "is_finite_number (JDec m e) = True"
| "is_finite_number _ = False"

section \<open>Objects\<close>

text \<open>
  An own property read: \<open>undefined\<close> for a missing property. Strings and arrays have a
  \<open>length\<close>. On \<open>undefined\<close> and \<open>null\<close> the read is that of \<open>?.\<close>; where the code reads without
  \<open>?.\<close>, the model tests \<open>nullish\<close> first and makes the TypeError a result of its own.
\<close>

fun get_prop :: "jsval \<Rightarrow> string \<Rightarrow> jsval" where
  "get_prop (JObj kvs) k = (case map_of kvs k of None \<Rightarrow> JUndef | Some v \<Rightarrow> v)"
| "get_prop (JArr xs) k = (if k = ''length'' then JInt (int (length xs)) else JUndef)"
| "get_prop (JStr s) k = (if k = ''length'' then JInt (int (length s)) else JUndef)"
| "get_prop _ k = JUndef"

text \<open>
  The own enumerable properties, as spread copies them: the index properties of a string or an
  array, nothing for the other primitives.
\<close>

fun index_fields :: "nat \<Rightarrow> jsval list \<Rightarrow> (string \<times> jsval) list" where
  "index_fields i [] = []"
| "index_fields i (x # xs) = (nat_digits i, x) # index_fields (Suc i) xs"

fun obj_fields :: "jsval \<Rightarrow> (string \<times> jsval) list" where
  "obj_fields (JObj kvs) = kvs"
| "obj_fields (JArr xs) = index_fields 0 xs"
| "obj_fields (JStr s) = index_fields 0 (map (\<lambda>c. JStr [c]) s)"
| "obj_fields _ = []"

text \<open>Assignment of one property: in place when it exists, at the end otherwise.\<close>

fun fields_set :: "string \<Rightarrow> jsval \<Rightarrow> (string \<times> jsval) list \<Rightarrow> (string \<times> jsval) list" where
  "fields_set k v [] = [(k, v)]"
| "fields_set k v ((k', v') # kvs) =
     (if k = k' then (k, v) # kvs else (k', v') # fields_set k v kvs)"

definition set_prop :: "jsval \<Rightarrow> string \<Rightarrow> jsval \<Rightarrow> jsval" where
  "set_prop ob k v = JObj (fields_set k v (obj_fields ob))"

definition delete_prop :: "jsval \<Rightarrow> string \<Rightarrow> jsval" where
  "delete_prop ob k = JObj (filter (\<lambda>(k', v). k' \<noteq> k) (obj_fields ob))"

text \<open>\<open>{ ...a, ...b }\<close>.\<close>

definition spread :: "jsval \<Rightarrow> jsval \<Rightarrow> jsval" where
  "spread a b = JObj (fold (\<lambda>(k, v) kvs. fields_set k v kvs) (obj_fields b) (obj_fields a))"

section \<open>Conversions\<close>

fun zeros :: "nat \<Rightarrow> string" where
  "zeros 0 = []"
| "zeros (Suc n) = CHR ''0'' # zeros n"

text \<open>
  \<open>String(v)\<close>. The decimal form of a fraction is the plain positional one, which JavaScript
  uses from \<open>1e-6\<close> up to \<open>1e21\<close>.
\<close>

definition dec_digits :: "int \<Rightarrow> nat \<Rightarrow> string" where
  "dec_digits m e =
     (let a = nat \<bar>m\<bar>; q = a div 10 ^ e; r = nat_digits (a mod 10 ^ e)
      in (if m < 0 then ''-'' else []) @ nat_digits q @ ''.'' @ zeros (e - length r) @ r)"

fun to_str :: "jsval \<Rightarrow> string" and to_str_list :: "jsval list \<Rightarrow> string list" where
  "to_str JUndef = ''undefined''"
| "to_str JNull = ''null''"
| "to_str (JBool b) = (if b then ''true'' else ''false'')"
| "to_str (JInt i) = int_digits i"
| "to_str (JDec m e) = dec_digits m e"
| "to_str (JInf pos) = (if pos then ''Infinity'' else ''-Infinity'')"
| "to_str JNaN = ''NaN''"
| "to_str (JStr s) = s"
| "to_str (JArr xs) = join '','' (to_str_list xs)"
| "to_str (JObj kvs) = ''[object Object]''"
| "to_str_list [] = []"
| "to_str_list (x # xs) = (if nullish x then [] else to_str x) # to_str_list xs"

text \<open>
  \<open>Number(s)\<close> on a string: surrounding whitespace is dropped, the empty string is 0, and
  otherwise a sign, decimal digits and a fraction must use up the whole string. Exponent, hex,
  octal and binary literals are outside the model and read as NaN.
\<close>

fun digits_value :: "nat \<Rightarrow> string \<Rightarrow> nat" where
  "digits_value acc [] = acc"
| "digits_value acc (c # cs) = digits_value (10 * acc + (code c - 48)) cs"

fun mk_dec :: "int \<Rightarrow> nat \<Rightarrow> jsval" where
  "mk_dec m 0 = JInt m"
| "mk_dec m (Suc e) = (if m mod 10 = 0 then mk_dec (m div 10) e else JDec m (Suc e))"

definition unsigned_number :: "bool \<Rightarrow> string \<Rightarrow> jsval" where
  "unsigned_number neg s =
     (let ip = takeWhile is_digit s; rest = dropWhile is_digit s;
          sg = (\<lambda>n::nat. if neg then - int n else int n)
      in case rest of
           [] \<Rightarrow> (if ip = [] then JNaN else JInt (sg (digits_value 0 ip)))
         | c # fp \<Rightarrow>
             if c = CHR ''.'' \<and> list_all is_digit fp \<and> (ip \<noteq> [] \<or> fp \<noteq> [])
             then mk_dec (sg (digits_value 0 (ip @ fp))) (length fp)
             else JNaN)"

definition string_to_number :: "string \<Rightarrow> jsval" where
  "string_to_number s =
     (case trim s of
        [] \<Rightarrow> JInt 0
      | c # cs \<Rightarrow>
          if c # cs = ''Infinity'' \<or> c # cs = ''+Infinity'' then JInf True
          else if c # cs = ''-Infinity'' then JInf False
          else if c = CHR ''-'' then unsigned_number True cs
          else if c = CHR ''+'' then unsigned_number False cs
          else unsigned_number False (c # cs))"

text \<open>\<open>Number(v)\<close>: objects convert through their string form.\<close>

fun to_number :: "jsval \<Rightarrow> jsval" where
  "to_number JUndef = JNaN"
| "to_number JNull = JInt 0"
| "to_number (JBool b) = JInt (if b then 1 else 0)"
| "to_number (JStr s) = string_to_number s"
| "to_number (JArr xs) = string_to_number (to_str (JArr xs))"
| "to_number (JObj kvs) = JNaN"
| "to_number v = v"

section \<open>Comparison\<close>

text \<open>\<open>a < b\<close> on numbers; false when either is NaN.\<close>

fun num_less :: "jsval \<Rightarrow> jsval \<Rightarrow> bool" where
  "num_less (JInt a) (JInt b) = (a < b)"
| "num_less (JInt a) (JDec m e) = (a * 10 ^ e < m)"
| "num_less (JDec m e) (JInt b) = (m < b * 10 ^ e)"
| "num_less (JDec m e) (JDec n f) = (m * 10 ^ f < n * 10 ^ e)"
| "num_less (JInf p) (JInt b) = (\<not> p)"
| "num_less (JInf p) (JDec n f) = (\<not> p)"
| "num_less (JInf p) (JInf q) = (\<not> p \<and> q)"
| "num_less (JInt a) (JInf q) = q"
| "num_less (JDec m e) (JInf q) = q"
| "num_less _ _ = False"

text \<open>\<open>a >= b\<close> on any two values: by code units on two strings, numerically otherwise.\<close>

definition num_geq :: "jsval \<Rightarrow> jsval \<Rightarrow> bool" where
  "num_geq a b \<longleftrightarrow> a \<noteq> JNaN \<and> b \<noteq> JNaN \<and> \<not> num_less a b"

fun js_geq :: "jsval \<Rightarrow> jsval \<Rightarrow> bool" where
  "js_geq (JStr s) (JStr t) = (t \<le> s)"
| "js_geq a b = num_geq (to_number a) (to_number b)"

section \<open>JSON\<close>

text \<open>
  What \<open>JSON.parse(JSON.stringify(v))\<close> gives back: \<open>None\<close> when \<open>JSON.stringify\<close> returns
  \<open>undefined\<close> (or leaves the property out), NaN and the infinities become null.
\<close>

fun json_norm :: "jsval \<Rightarrow> jsval option"
  and json_norm_list :: "jsval list \<Rightarrow> jsval list"
  and json_norm_fields :: "(string \<times> jsval) list \<Rightarrow> (string \<times> jsval) list" where
  "json_norm JUndef = None"
| "json_norm JNull = Some JNull"
| "json_norm (JBool b) = Some (JBool b)"
| "json_norm (JInt i) = Some (JInt i)"
| "json_norm (JDec m e) = Some (JDec m e)"
| "json_norm (JInf p) = Some JNull"
| "json_norm JNaN = Some JNull"
| "json_norm (JStr s) = Some (JStr s)"
| "json_norm (JArr xs) = Some (JArr (json_norm_list xs))"
| "json_norm (JObj kvs) = Some (JObj (json_norm_fields kvs))"
| "json_norm_list [] = []"
| "json_norm_list (x # xs) =
     (case json_norm x of None \<Rightarrow> JNull | Some y \<Rightarrow> y) # json_norm_list xs"
| "json_norm_fields [] = []"
| "json_norm_fields ((k, v) # kvs) =
     (case json_norm v of None \<Rightarrow> json_norm_fields kvs | Some y \<Rightarrow> (k, y) # json_norm_fields kvs)"

text \<open>A value that JSON carries unchanged.\<close>

definition json_stable :: "jsval \<Rightarrow> bool" where
  "json_stable v \<longleftrightarrow> json_norm v = Some v"

section \<open>Lemmas\<close>

lemma nullish_simps [simp]:
  "nullish JUndef" "nullish JNull" "\<not> nullish (JBool b)" "\<not> nullish (JInt i)"
  "\<not> nullish (JDec m e)" "\<not> nullish (JInf p)" "\<not> nullish JNaN" "\<not> nullish (JStr s)"
  "\<not> nullish (JArr xs)" "\<not> nullish (JObj kvs)"
  by (auto simp: nullish_def)

lemma coalesce_simps [simp]:
  "nullish a \<Longrightarrow> coalesce a b = b" "\<not> nullish a \<Longrightarrow> coalesce a b = a"
  by (auto simp: coalesce_def)

lemma map_of_fields_set [simp]: "map_of (fields_set k v kvs) = (map_of kvs)(k \<mapsto> v)"
  by (induction kvs) auto

lemma prop_set_prop [simp]:
  "get_prop (set_prop ob k v) k' = (if k' = k then v else get_prop (JObj (obj_fields ob)) k')"
  by (simp add: set_prop_def)

lemma fields_set_same: "map_of kvs k = Some v \<Longrightarrow> fields_set k v kvs = kvs"
  by (induction kvs) (auto split: if_splits)

lemma map_of_filter_neq: "map_of (filter (\<lambda>(k', v). k' \<noteq> k) kvs) = (map_of kvs)(k := None)"
  by (induction kvs) (auto simp: fun_eq_iff)

lemma prop_delete_prop [simp]:
  "get_prop (delete_prop ob k) k' = (if k' = k then JUndef else get_prop (JObj (obj_fields ob)) k')"
  by (simp add: delete_prop_def map_of_filter_neq)

lemma prop_obj_fields: "ob = JObj kvs \<Longrightarrow> get_prop (JObj (obj_fields ob)) k = get_prop ob k"
  by simp

lemma json_norm_idem:
  "json_norm v = Some w \<Longrightarrow> json_norm w = Some w"
  "json_norm_list (json_norm_list vs) = json_norm_list vs"
  "json_norm_fields (json_norm_fields kvs) = json_norm_fields kvs"
proof (induction v and vs and kvs arbitrary: w rule: json_norm_json_norm_list_json_norm_fields.induct)
qed (auto split: option.splits)

lemma json_stable_simps [simp]:
  "\<not> json_stable JUndef" "json_stable JNull" "json_stable (JBool b)" "json_stable (JInt i)"
  "json_stable (JDec m e)" "\<not> json_stable (JInf p)" "\<not> json_stable JNaN" "json_stable (JStr s)"
  by (auto simp: json_stable_def)

end
