(* ===== verification/JsRegex.thy ===== *)
theory JsRegex
  imports Prelude
begin

text \<open>
  The backtracking matcher of JavaScript regular expressions, as far as the sources use it:
  character classes, sequence, ordered alternation, greedy and lazy repetition with bounds,
  capture groups, back references, anchors, word boundaries and lookahead. A pattern is a
  term of type \<open>re\<close>; its meaning \<open>rmatch\<close> maps a position to the list of all positions at which
  a match may end, in the order in which the backtracking engine tries them, so that the
  engine's result is the head of the list. A position keeps the characters already passed
  (reversed), the characters ahead and the captures.

  The flag \<open>i\<close> is written into the classes of a pattern (\<open>RLitI\<close>), the flag \<open>m\<close> is the pair
  \<open>RBolM\<close>/\<open>REolM\<close>.
\<close>

datatype re =
    REps
  | RCls "char \<Rightarrow> bool"
  | RSeq re re
  | RAlt re re
  | RRep bool nat "nat option" re   \<comment> \<open>greedy?, at least, at most, body\<close>
  | RGrp nat re
  | RRef nat
  | RBol
  | REol
  | RBolM
  | REolM
  | RWordB
  | RLook bool re                   \<comment> \<open>positive?, body\<close>

type_synonym caps = "(nat \<times> string) list"
type_synonym rpos = "string \<times> string \<times> caps"

section \<open>Derived patterns\<close>

definition RChr :: "char \<Rightarrow> re" where
  "RChr c = RCls (\<lambda>d. d = c)"

definition RAny :: re where
  "RAny = RCls (\<lambda>c. \<not> is_line_term c)"

definition RAll :: re where
  "RAll = RCls (\<lambda>_. True)"

definition RNot :: "string \<Rightarrow> re" where
  "RNot cs = RCls (\<lambda>c. c \<notin> set cs)"

definition ROneOf :: "string \<Rightarrow> re" where
  "ROneOf cs = RCls (\<lambda>c. c \<in> set cs)"

fun RLit :: "string \<Rightarrow> re" where
  "RLit [] = REps"
| "RLit [c] = RChr c"
| "RLit (c # d # cs) = RSeq (RChr c) (RLit (d # cs))"

text \<open>A literal under the flag \<open>i\<close>; the literal is given in lower case.\<close>

fun RLitI :: "string \<Rightarrow> re" where
  "RLitI [] = REps"
| "RLitI (c # cs) = RSeq (RCls (\<lambda>d. to_lower_char d = c)) (RLitI cs)"

fun RSeqs :: "re list \<Rightarrow> re" where
  "RSeqs [] = REps"
| "RSeqs [r] = r"
| "RSeqs (r # s # rs) = RSeq r (RSeqs (s # rs))"

fun RAlts :: "re list \<Rightarrow> re" where
  "RAlts [] = RCls (\<lambda>_. False)"
| "RAlts [r] = r"
| "RAlts (r # s # rs) = RAlt r (RAlts (s # rs))"

abbreviation RStar :: "re \<Rightarrow> re" where "RStar r \<equiv> RRep True 0 None r"
abbreviation RPlus :: "re \<Rightarrow> re" where "RPlus r \<equiv> RRep True 1 None r"
abbreviation ROpt :: "re \<Rightarrow> re" where "ROpt r \<equiv> RRep True 0 (Some 1) r"
abbreviation RLazy :: "re \<Rightarrow> re" where "RLazy r \<equiv> RRep False 0 None r"
abbreviation RSp :: re where "RSp \<equiv> RCls is_space"
abbreviation RDig :: re where "RDig \<equiv> RCls is_digit"

section \<open>The matcher\<close>

fun groups_of :: "re \<Rightarrow> nat list" where
  "groups_of (RSeq r s) = groups_of r @ groups_of s"
| "groups_of (RAlt r s) = groups_of r @ groups_of s"
| "groups_of (RRep g m n r) = groups_of r"
| "groups_of (RGrp k r) = k # groups_of r"
| "groups_of (RLook p r) = groups_of r"
| "groups_of _ = []"

definition reset_caps :: "nat list \<Rightarrow> caps \<Rightarrow> caps" where
  "reset_caps ks g = filter (\<lambda>(k, s). k \<notin> set ks) g"

definition set_cap :: "nat \<Rightarrow> string \<Rightarrow> caps \<Rightarrow> caps" where
  "set_cap k s g = (k, s) # filter (\<lambda>(k', s'). k' \<noteq> k) g"

text \<open>
  Repetition. An iteration past the minimum that consumes nothing is rejected, so no more than
  \<open>m + length rest\<close> iterations can succeed and that much fuel is enough.
\<close>

fun rrep :: "(rpos \<Rightarrow> rpos list) \<Rightarrow> bool \<Rightarrow> nat \<Rightarrow> nat \<Rightarrow> nat option \<Rightarrow> rpos \<Rightarrow> rpos list" where
  "rrep f gr 0 m n st = (if m = 0 then [st] else [])"
| "rrep f gr (Suc k) m n st =
     (if n = Some 0 then [st]
      else let more = concat (map (rrep f gr k (m - 1) (map_option (\<lambda>x. x - 1) n))
                        (filter (\<lambda>st'. 0 < m \<or> length (fst (snd st')) < length (fst (snd st)))
                          (f st)))
           in if 0 < m then more else if gr then more @ [st] else st # more)"

definition at_word_boundary :: "string \<Rightarrow> string \<Rightarrow> bool" where
  "at_word_boundary pv rest \<longleftrightarrow>
     (pv \<noteq> [] \<and> is_word (hd pv)) \<noteq> (rest \<noteq> [] \<and> is_word (hd rest))"

primrec rmatch :: "re \<Rightarrow> rpos \<Rightarrow> rpos list" where
  "rmatch REps st = [st]"
| "rmatch (RCls p) st =
     (case st of (pv, rest, g) \<Rightarrow>
        (case rest of [] \<Rightarrow> [] | c # cs \<Rightarrow> if p c then [(c # pv, cs, g)] else []))"
| "rmatch (RSeq r s) st = concat (map (rmatch s) (rmatch r st))"
| "rmatch (RAlt r s) st = rmatch r st @ rmatch s st"
| "rmatch (RRep gr m n r) st =
     rrep (\<lambda>(pv, rest, g). rmatch r (pv, rest, reset_caps (groups_of r) g)) gr
       (m + length (fst (snd st))) m n st"
| "rmatch (RGrp k r) st =
     (case st of (pv, rest, g) \<Rightarrow>
        map (\<lambda>(pv', rest', g'). (pv', rest', set_cap k (take (length rest - length rest') rest) g'))
          (rmatch r (pv, rest, g)))"
| "rmatch (RRef k) st =
     (case st of (pv, rest, g) \<Rightarrow>
        (case map_of g k of
           None \<Rightarrow> [(pv, rest, g)]
         | Some w \<Rightarrow> if starts_with rest w then [(rev w @ pv, drop (length w) rest, g)] else []))"
| "rmatch RBol st = (if fst st = [] then [st] else [])"
| "rmatch REol st = (if fst (snd st) = [] then [st] else [])"
| "rmatch RBolM st = (if fst st = [] \<or> is_line_term (hd (fst st)) then [st] else [])"
| "rmatch REolM st =
     (if fst (snd st) = [] \<or> is_line_term (hd (fst (snd st))) then [st] else [])"
| "rmatch RWordB st = (if at_word_boundary (fst st) (fst (snd st)) then [st] else [])"
| "rmatch (RLook b r) st =
     (case st of (pv, rest, g) \<Rightarrow>
        (case rmatch r (pv, rest, g) of
           [] \<Rightarrow> if b then [] else [st]
         | (pv', rest', g') # _ \<Rightarrow> if b then [(pv, rest, g')] else []))"

section \<open>exec, test, matchAll, replace, split\<close>

text \<open>A match: what stands before it, the matched text, what follows and the captures.\<close>

record rmatch_result =
  m_before :: string
  m_text :: string
  m_after :: string
  m_caps :: caps

definition m_index :: "rmatch_result \<Rightarrow> nat" where
  "m_index m = length (m_before m)"

text \<open>Group \<open>k\<close> of a match; \<open>None\<close> is \<open>undefined\<close>.\<close>

definition cap :: "rmatch_result \<Rightarrow> nat \<Rightarrow> string option" where
  "cap m k = map_of (m_caps m) k"

definition match_here :: "re \<Rightarrow> string \<Rightarrow> string \<Rightarrow> rmatch_result option" where
  "match_here r pv rest =
     (case rmatch r (pv, rest, []) of
        [] \<Rightarrow> None
      | (pv', rest', g) # _ \<Rightarrow>
          Some \<lparr>m_before = rev pv, m_text = take (length rest - length rest') rest,
                m_after = rest', m_caps = g\<rparr>)"

fun search_from :: "re \<Rightarrow> string \<Rightarrow> string \<Rightarrow> rmatch_result option" where
  "search_from r pv [] = match_here r pv []"
| "search_from r pv (c # cs) =
     (case match_here r pv (c # cs) of Some m \<Rightarrow> Some m | None \<Rightarrow> search_from r (c # pv) cs)"

text \<open>\<open>r.exec(s)\<close> without the flag \<open>g\<close>, and \<open>r.test(s)\<close>.\<close>

definition re_exec :: "re \<Rightarrow> string \<Rightarrow> rmatch_result option" where
  "re_exec r s = search_from r [] s"

definition re_test :: "re \<Rightarrow> string \<Rightarrow> bool" where
  "re_test r s \<longleftrightarrow> re_exec r s \<noteq> None"

text \<open>
  The successive matches of a global pattern. After an empty match the engine moves one
  character on. The fuel is the number of characters ahead plus one.
\<close>

fun match_all_from :: "nat \<Rightarrow> re \<Rightarrow> string \<Rightarrow> string \<Rightarrow> rmatch_result list" where
  "match_all_from 0 r pv rest = []"
| "match_all_from (Suc k) r pv rest =
     (case search_from r pv rest of
        None \<Rightarrow> []
      | Some m \<Rightarrow>
          m # (let pv' = rev (m_text m) @ rev (m_before m) in
               if m_text m = []
               then (case m_after m of [] \<Rightarrow> [] | c # cs \<Rightarrow> match_all_from k r (c # pv') cs)
               else match_all_from k r pv' (m_after m)))"

definition re_match_all :: "re \<Rightarrow> string \<Rightarrow> rmatch_result list" where
  "re_match_all r s = match_all_from (Suc (length s)) r [] s"

text \<open>\<open>s.replace(r, f)\<close> with and without the flag \<open>g\<close>.\<close>

definition re_replace :: "re \<Rightarrow> (rmatch_result \<Rightarrow> string) \<Rightarrow> string \<Rightarrow> string" where
  "re_replace r f s =
     (case re_exec r s of None \<Rightarrow> s | Some m \<Rightarrow> m_before m @ f m @ m_after m)"

fun splice :: "(rmatch_result \<Rightarrow> string) \<Rightarrow> nat \<Rightarrow> string \<Rightarrow> rmatch_result list \<Rightarrow> string" where
  "splice f pos s [] = drop pos s"
| "splice f pos s (m # ms) =
     take (m_index m - pos) (drop pos s) @ f m @ splice f (m_index m + length (m_text m)) s ms"

definition re_replace_all :: "re \<Rightarrow> (rmatch_result \<Rightarrow> string) \<Rightarrow> string \<Rightarrow> string" where
  "re_replace_all r f s = splice f 0 s (re_match_all r s)"

text \<open>
  \<open>s.split(r)\<close> for a pattern that has no groups and never matches the empty string.
\<close>

fun split_pieces :: "nat \<Rightarrow> string \<Rightarrow> rmatch_result list \<Rightarrow> string list" where
  "split_pieces pos s [] = [drop pos s]"
| "split_pieces pos s (m # ms) =
     take (m_index m - pos) (drop pos s) # split_pieces (m_index m + length (m_text m)) s ms"

definition re_split :: "re \<Rightarrow> string \<Rightarrow> string list" where
  "re_split r s = split_pieces 0 s (re_match_all r s)"

section \<open>Lemmas\<close>

lemma reset_caps_Nil [simp]: "reset_caps [] g = g"
  by (simp add: reset_caps_def)

text \<open>Greedy repetition of a class: the candidates, longest first.\<close>

definition rep_limit :: "nat option \<Rightarrow> nat \<Rightarrow> nat" where
  "rep_limit n l = (case n of None \<Rightarrow> l | Some x \<Rightarrow> min x l)"

definition adv :: "nat \<Rightarrow> rpos \<Rightarrow> rpos" where
  "adv j st = (case st of (pv, rest, g) \<Rightarrow> (rev (take j rest) @ pv, drop j rest, g))"

lemma adv_0 [simp]: "adv 0 st = st"
  by (cases st) (simp add: adv_def)

lemma adv_Suc [simp]: "adv (Suc j) (pv, c # cs, g) = adv j (c # pv, cs, g)"
  by (simp add: adv_def)

lemma rrep_class:
  assumes "m + length rest \<le> k" "\<And>x. n = Some x \<Longrightarrow> m \<le> x"
    and f: "\<And>pv rest g. f (pv, rest, g) = rmatch (RCls p) (pv, rest, g)"
  shows "rrep f True k m n (pv, rest, g) =
    map (\<lambda>j. adv j (pv, rest, g))
      (rev [m..<Suc (rep_limit n (length (takeWhile p rest)))])"
  using assms(1,2)
proof (induction k arbitrary: m n pv rest)
  case 0
  then show ?case by (auto simp: rep_limit_def split: option.splits)
next
  case (Suc k)
  show ?case
  proof (cases "n = Some 0")
    case True
    with Suc.prems have "m = 0" by simp
    with True show ?thesis by (simp add: rep_limit_def)
  next
    case n0: False
    show ?thesis
    proof (cases rest)
      case Nil
      with n0 show ?thesis by (auto simp: f rep_limit_def Let_def split: option.splits)
    next
      case (Cons c cs)
      show ?thesis
      proof (cases "p c")
        case False
        with Cons n0 show ?thesis by (auto simp: f rep_limit_def Let_def split: option.splits)
      next
        case True
        have IH: "rrep f True k (m - 1) (map_option (\<lambda>x. x - 1) n) (c # pv, cs, g) =
            map (\<lambda>j. adv j (c # pv, cs, g))
              (rev [m - 1..<Suc (rep_limit (map_option (\<lambda>x. x - 1) n) (length (takeWhile p cs)))])"
          by (rule Suc.IH) (use Suc.prems Cons n0 in auto)
        have lim: "rep_limit n (length (takeWhile p rest)) =
            Suc (rep_limit (map_option (\<lambda>x. x - 1) n) (length (takeWhile p cs)))"
          using True Cons n0 by (auto simp: rep_limit_def split: option.splits)
        let ?L = "rep_limit (map_option (\<lambda>x. x - 1) n) (length (takeWhile p cs))"
        have shift: "map (\<lambda>j. adv j (c # pv, cs, g)) (rev [a..<b]) =
            map (\<lambda>j. adv j (pv, rest, g)) (rev [Suc a..<Suc b])" for a b
          by (simp add: Cons map_Suc_upt [symmetric] rev_map o_def del: upt_Suc)
        show ?thesis
        proof (cases m)
          case 0
          have "[0..<Suc (Suc ?L)] = 0 # [Suc 0..<Suc (Suc ?L)]"
            by (rule upt_conv_Cons) simp
          then show ?thesis
            using 0 n0 Cons True IH lim shift [of 0 "Suc ?L"] by (simp add: f Let_def del: upt_Suc)
        next
          case (Suc m')
          then show ?thesis
            using n0 Cons True IH lim shift [of m' "Suc ?L"] by (simp add: f Let_def del: upt_Suc)
        qed
      qed
    qed
  qed
qed

lemma rmatch_class_rep:
  assumes "\<And>x. n = Some x \<Longrightarrow> m \<le> x"
  shows "rmatch (RRep True m n (RCls p)) (pv, rest, g) =
    map (\<lambda>j. adv j (pv, rest, g)) (rev [m..<Suc (rep_limit n (length (takeWhile p rest)))])"
  using assms by (simp del: rmatch.simps(2) add: rrep_class split_def cong: rrep_class)


definition moves :: "rpos \<Rightarrow> rpos \<Rightarrow> bool" where
  "moves st st' \<longleftrightarrow> (\<exists>w. fst (snd st) = w @ fst (snd st') \<and> fst st' = rev w @ fst st)"

lemma moves_refl [simp]: "moves st st"
  by (simp add: moves_def)

lemma moves_trans: "moves a b \<Longrightarrow> moves b c \<Longrightarrow> moves a c"
  by (fastforce simp: moves_def)

lemma rrep_moves:
  assumes "\<And>st st'. st' \<in> set (f st) \<Longrightarrow> moves st st'"
  shows "st' \<in> set (rrep f gr k m n st) \<Longrightarrow> moves st st'"
proof (induction k arbitrary: m n st)
  case 0
  then show ?case by (auto split: if_splits)
next
  case (Suc k)
  show ?case
  proof (cases "st' = st")
    case False
    with Suc.prems obtain st1 m' n' where "st1 \<in> set (f st)" "st' \<in> set (rrep f gr k m' n' st1)"
      by (auto simp: Let_def split: if_splits)
    then show ?thesis
      using assms Suc.IH moves_trans by blast
  qed simp
qed

lemma rmatch_moves: "st' \<in> set (rmatch r st) \<Longrightarrow> moves st st'"
proof (induction r arbitrary: st st')
  case (RCls p)
  then show ?case by (cases st) (auto simp: moves_def split: list.splits if_splits)
next
  case (RSeq r s)
  then obtain st1 where "st1 \<in> set (rmatch r st)" "st' \<in> set (rmatch s st1)" by auto
  then show ?case using RSeq.IH moves_trans by blast
next
  case (RRep gr m n r)
  show ?case
    by (rule rrep_moves [OF _ RRep.prems [unfolded rmatch.simps]])
      (auto dest!: RRep.IH simp: moves_def split: prod.splits)
next
  case (RGrp k r)
  then show ?case
    by (cases st) (auto dest!: RGrp.IH simp: moves_def)
next
  case (RRef k)
  then show ?case
    by (cases st) (auto simp: moves_def starts_with_def split: option.splits if_splits
        intro!: exI [of _ "take _ _"], metis append_take_drop_id)
next
  case (RLook b r)
  then show ?case
    by (cases st) (auto simp: moves_def split: list.splits if_splits)
qed (auto split: if_splits)

text \<open>A match splits the subject.\<close>

lemma match_here_split:
  assumes "match_here r pv rest = Some m"
  shows "m_before m = rev pv \<and> m_text m @ m_after m = rest"
proof -
  obtain pv' rest' g where "(pv', rest', g) \<in> set (rmatch r (pv, rest, []))"
    and m: "m = \<lparr>m_before = rev pv, m_text = take (length rest - length rest') rest,
                m_after = rest', m_caps = g\<rparr>"
    using assms by (auto simp: match_here_def split: list.splits)
  then obtain w where "rest = w @ rest'"
    by (auto dest!: rmatch_moves simp: moves_def)
  with m show ?thesis by simp
qed

lemma search_from_split:
  "search_from r pv rest = Some m \<Longrightarrow>
     (\<exists>w. m_before m = rev pv @ w \<and> rest = w @ m_text m @ m_after m)"
proof (induction r pv rest rule: search_from.induct)
  case (1 r pv)
  then show ?case by (auto dest: match_here_split)
next
  case (2 r pv c cs)
  show ?case
  proof (cases "match_here r pv (c # cs)")
    case None
    with 2 obtain w where "m_before m = rev (c # pv) @ w" "cs = w @ m_text m @ m_after m"
      by auto
    then show ?thesis by (intro exI [of _ "c # w"]) simp
  next
    case (Some m')
    with "2.prems" show ?thesis by (auto dest!: match_here_split intro!: exI [of _ "[]"])
  qed
qed

lemma re_exec_split: "re_exec r s = Some m \<Longrightarrow> m_before m @ m_text m @ m_after m = s"
  by (auto simp: re_exec_def dest!: search_from_split)

lemma search_from_Bol: "pv \<noteq> [] \<Longrightarrow> search_from (RSeq RBol r) pv s = None"
  by (induction s arbitrary: pv) (auto simp: match_here_def)

lemma search_from_Bol_Nil:
  "search_from (RSeq RBol r) [] s = match_here r [] s"
  by (cases s) (auto simp: match_here_def search_from_Bol split: option.splits list.splits)

lemma match_here_None: "match_here r pv rest = None \<longleftrightarrow> rmatch r (pv, rest, []) = []"
  by (auto simp: match_here_def split: list.splits)

lemma takeWhile_len_iff: "length s \<le> length (takeWhile p s) \<longleftrightarrow> list_all p s"
  by (metis length_takeWhile_le list_all_iff order_antisym order_refl set_takeWhileD
      takeWhile_eq_all_conv takeWhile_eq_take take_all)

lemma anchored_class_test:
  assumes "m \<le> n"
  shows "re_test (RSeqs [RBol, RRep True m (Some n) (RCls p), REol]) s \<longleftrightarrow>
    m \<le> length s \<and> length s \<le> n \<and> list_all p s"
proof -
  let ?r = "RRep True m (Some n) (RCls p)"
  have "re_test (RSeqs [RBol, ?r, REol]) s \<longleftrightarrow> match_here (RSeq ?r REol) [] s \<noteq> None"
    by (simp add: re_test_def re_exec_def search_from_Bol_Nil)
  also have "\<dots> \<longleftrightarrow> (\<exists>st \<in> set (rmatch ?r ([], s, [])). fst (snd st) = [])"
    unfolding match_here_None by (simp del: rmatch.simps(2,5)) (auto simp del: rmatch.simps(2,5))
  also have "\<dots> \<longleftrightarrow> (\<exists>j \<in> {m..min n (length (takeWhile p s))}. drop j s = [])"
    using assms rmatch_class_rep [of "Some n" m p "[]" s "[]"]
    by (auto simp: rep_limit_def adv_def atLeastLessThanSuc_atLeastAtMost simp del: rmatch.simps(5) upt_Suc)
  also have "\<dots> \<longleftrightarrow> m \<le> length s \<and> length s \<le> n \<and> length s \<le> length (takeWhile p s)"
    using length_takeWhile_le [of p s] by (auto intro: bexI [of _ "length s"])
  finally show ?thesis by (simp add: takeWhile_len_iff)
qed
end
