(* ===== verification/SessionStore.thy ===== *)
theory SessionStore
  imports JsValue JsRegex "HOL-Library.AList" "HOL-Library.Multiset"
begin

text \<open>
  The durable session store of live mode (\<open>live/session-store.mjs\<close>): one append-only journal
  per session, the reducer that folds a journal into a snapshot, the in-memory cache in front of
  it, and the fall-back to the journals of the legacy directory.

  A directory is an association list from session ids to file contents (a session's file is
  \<open>id + '.jsonl'\<close>), a journal the list of its lines, each given as what \<open>JSON.parse\<close> makes of
  it. Time (\<open>new Date().toISOString()\<close>) is an argument. A thrown \<open>Error\<close> is \<open>Inl\<close> of its message.
\<close>

section \<open>Data\<close>

datatype journal_line =
    JBlank                \<comment> \<open>empty after \<open>trim\<close>\<close>
  | JLine jsval           \<comment> \<open>a line that parses\<close>
  | JBad string           \<comment> \<open>\<open>JSON.parse\<close> throws, with this message\<close>

record snapshot =
  sn_id :: string
  sn_phase :: jsval
  sn_pageUrl :: jsval
  sn_sourceFile :: jsval
  sn_previewFile :: jsval
  sn_previewMode :: jsval
  sn_expectedVariants :: jsval
  sn_arrivedVariants :: jsval
  sn_visibleVariant :: jsval
  sn_paramValues :: "(string \<times> jsval) list"
  sn_pendingEventSeq :: jsval
  sn_pendingEvent :: jsval
  sn_deliveryLease :: jsval
  sn_checkpointRevision :: jsval
  sn_activeOwner :: jsval
  sn_sourceMarkers :: "(string \<times> jsval) list"
  sn_fallbackMode :: jsval
  sn_annotationArtifacts :: "jsval list"
  sn_diagnostics :: "jsval list"
  sn_updatedAt :: jsval
  sn_message :: jsval

record rebuilt =
  rb_snapshot :: snapshot
  rb_diagnostics :: "jsval list"
  rb_nextSeq :: int

type_synonym 'a dir = "(string \<times> 'a) list"

record store =
  st_primary :: "journal_line list dir"
  st_legacy :: "journal_line list dir"
  st_snapshots :: "snapshot dir"
  st_cache :: "rebuilt dir"

definition completed_phase :: "jsval \<Rightarrow> bool" where
  "completed_phase p \<longleftrightarrow> p = JStr ''completed'' \<or> p = JStr ''discarded''"

definition baseSnapshot :: "string \<Rightarrow> snapshot" where
  "baseSnapshot i =
     \<lparr>sn_id = i, sn_phase = JStr ''new'', sn_pageUrl = JNull, sn_sourceFile = JNull,
      sn_previewFile = JNull, sn_previewMode = JNull, sn_expectedVariants = JInt 0,
      sn_arrivedVariants = JInt 0, sn_visibleVariant = JNull, sn_paramValues = [],
      sn_pendingEventSeq = JNull, sn_pendingEvent = JNull, sn_deliveryLease = JNull,
      sn_checkpointRevision = JInt 0, sn_activeOwner = JNull, sn_sourceMarkers = [],
      sn_fallbackMode = JNull, sn_annotationArtifacts = [], sn_diagnostics = [],
      sn_updatedAt = JNull, sn_message = JUndef\<rparr>"

section \<open>Ids\<close>

definition session_id_re :: re where
  "session_id_re =
     RSeqs [RBol, RRep True 1 (Some 128) (RCls (\<lambda>c. is_alpha c \<or> is_digit c \<or> c \<in> set ''_-'')), REol]"

definition safeSessionId :: "string \<Rightarrow> string + string" where
  "safeSessionId i =
     (if re_test session_id_re i then Inr i else Inl (''invalid session id: '' @ i))"

definition normalizeEvent :: "jsval \<Rightarrow> jsval \<Rightarrow> string + (string \<times> jsval)" where
  "normalizeEvent event fallbackId =
     (if \<not> truthy event \<or> \<not> typeof_object event then Inl ''event object required''
      else let i = js_or (get_prop event ''id'') fallbackId in
        (case i of
           JStr s \<Rightarrow>
             (if s = [] then Inl ''event id required''
              else if \<not> truthy (get_prop event ''type'') \<or> \<not> is_string (get_prop event ''type'')
                   then Inl ''event type required''
              else Inr (s, set_prop event ''id'' (JStr s)))
         | _ \<Rightarrow> Inl ''event id required''))"

section \<open>The reducer\<close>

definition toPendingEvent :: "jsval \<Rightarrow> jsval" where
  "toPendingEvent event = delete_prop event ''token''"

definition upsertArtifact :: "jsval list \<Rightarrow> jsval \<Rightarrow> jsval list" where
  "upsertArtifact artifacts a =
     (if \<exists>x \<in> set artifacts. get_prop x ''path'' = get_prop a ''path'' \<and>
           get_prop x ''type'' = get_prop a ''type''
      then artifacts else artifacts @ [a])"

definition add_diag :: "jsval \<Rightarrow> snapshot \<Rightarrow> snapshot" where
  "add_diag d s = s\<lparr>sn_diagnostics := sn_diagnostics s @ [d]\<rparr>"

definition set_pending :: "jsval \<Rightarrow> jsval \<Rightarrow> snapshot \<Rightarrow> snapshot" where
  "set_pending seq event s =
     s\<lparr>sn_pendingEventSeq := coalesce seq (sn_pendingEventSeq s),
       sn_pendingEvent := toPendingEvent event\<rparr>"

definition clear_pending :: "snapshot \<Rightarrow> snapshot" where
  "clear_pending s = s\<lparr>sn_pendingEventSeq := JNull, sn_pendingEvent := JNull\<rparr>"

definition set_files :: "jsval \<Rightarrow> jsval \<Rightarrow> snapshot \<Rightarrow> snapshot" where
  "set_files src event s =
     s\<lparr>sn_sourceFile := coalesce src (sn_sourceFile s),
       sn_previewFile := coalesce (get_prop event ''previewFile'') (sn_previewFile s),
       sn_previewMode := coalesce (get_prop event ''previewMode'') (sn_previewMode s)\<rparr>"

definition source_or_file :: "jsval \<Rightarrow> jsval" where
  "source_or_file event = coalesce (get_prop event ''sourceFile'') (get_prop event ''file'')"

definition take_params :: "jsval \<Rightarrow> snapshot \<Rightarrow> snapshot" where
  "take_params event s =
     (if truthy (get_prop event ''paramValues'')
      then s\<lparr>sn_paramValues := obj_fields (get_prop event ''paramValues'')\<rparr> else s)"

definition on_generate :: "jsval \<Rightarrow> jsval \<Rightarrow> snapshot \<Rightarrow> snapshot" where
  "on_generate seq event s =
     (let s1 = set_pending seq event
                 (s\<lparr>sn_phase := JStr ''generate_requested'',
                    sn_pageUrl := coalesce (get_prop event ''pageUrl'') (sn_pageUrl s),
                    sn_expectedVariants := coalesce (get_prop event ''count'') (sn_expectedVariants s)\<rparr>)
      in if truthy (get_prop event ''screenshotPath'')
         then s1\<lparr>sn_annotationArtifacts := upsertArtifact (sn_annotationArtifacts s1)
                   (JObj [(''type'', JStr ''screenshot''), (''path'', get_prop event ''screenshotPath'')])\<rparr>
         else s1)"

definition on_ready :: "jsval \<Rightarrow> snapshot \<Rightarrow> snapshot" where
  "on_ready event s =
     (let carb = get_prop event ''carbonize'' = JBool True;
          s1 = set_files (source_or_file event) event
                 (s\<lparr>sn_phase := JStr (if carb then ''carbonize_required'' else ''variants_ready'')\<rparr>);
          s2 = s1\<lparr>sn_arrivedVariants := coalesce (get_prop event ''arrivedVariants'')
                    (js_or (js_or (sn_expectedVariants s1) (sn_arrivedVariants s1)) (JInt 0))\<rparr>;
          s3 = clear_pending s2
      in if carb
         then add_diag (JObj [(''error'', JStr ''carbonize_cleanup_required''),
                (''file'', js_or (get_prop event ''file'') JNull),
                (''message'', JStr ''Accepted variant still has carbonize markers that must be folded into source CSS.'')]) s3
         else s3)"

definition on_checkpoint :: "jsval \<Rightarrow> snapshot \<Rightarrow> snapshot" where
  "on_checkpoint event s =
     (if completed_phase (sn_phase s)
      then add_diag (JObj [(''error'', JStr ''checkpoint_after_terminal_ignored''),
             (''phase'', coalesce (get_prop event ''phase'') JNull),
             (''revision'', coalesce (get_prop event ''revision'') JNull)]) s
      else if js_geq (coalesce (get_prop event ''revision'') (JInt 0))
                (coalesce (sn_checkpointRevision s) (JInt 0))
      then take_params event
             (set_files (get_prop event ''sourceFile'') event
               (s\<lparr>sn_phase := coalesce (get_prop event ''phase'') (sn_phase s),
                  sn_checkpointRevision := coalesce (get_prop event ''revision'') (sn_checkpointRevision s),
                  sn_activeOwner := coalesce (get_prop event ''owner'') (sn_activeOwner s),
                  sn_arrivedVariants := coalesce (get_prop event ''arrivedVariants'') (sn_arrivedVariants s),
                  sn_visibleVariant := coalesce (get_prop event ''visibleVariant'') (sn_visibleVariant s)\<rparr>))
      else add_diag (JObj [(''error'', JStr ''stale_checkpoint_ignored''),
             (''revision'', get_prop event ''revision'')]) s)"

definition on_accept :: "jsval \<Rightarrow> jsval \<Rightarrow> snapshot \<Rightarrow> snapshot" where
  "on_accept seq event s =
     set_pending seq event (take_params event
       (s\<lparr>sn_phase := JStr ''accept_requested'',
          sn_visibleVariant := to_number (coalesce (get_prop event ''variantId'') (sn_visibleVariant s))\<rparr>))"

definition on_page_request :: "string \<Rightarrow> jsval \<Rightarrow> jsval \<Rightarrow> snapshot \<Rightarrow> snapshot" where
  "on_page_request ph seq event s =
     set_pending seq event
       (s\<lparr>sn_phase := JStr ph, sn_pageUrl := coalesce (get_prop event ''pageUrl'') (sn_pageUrl s)\<rparr>)"

definition on_steer_done :: "jsval \<Rightarrow> snapshot \<Rightarrow> snapshot" where
  "on_steer_done event s =
     clear_pending ((set_files (source_or_file event) event (s\<lparr>sn_phase := JStr ''steer_done''\<rparr>))
       \<lparr>sn_message := coalesce (get_prop event ''message'') (sn_message s)\<rparr>)"

definition on_discard :: "jsval \<Rightarrow> jsval \<Rightarrow> snapshot \<Rightarrow> snapshot" where
  "on_discard seq event s = set_pending seq event (s\<lparr>sn_phase := JStr ''discard_requested''\<rparr>)"

definition on_discarded :: "snapshot \<Rightarrow> snapshot" where
  "on_discarded s = clear_pending (s\<lparr>sn_phase := JStr ''discarded''\<rparr>)"

definition on_complete :: "jsval \<Rightarrow> snapshot \<Rightarrow> snapshot" where
  "on_complete event s =
     clear_pending (set_files (source_or_file event) event (s\<lparr>sn_phase := JStr ''completed''\<rparr>))"

definition on_agent_error :: "jsval \<Rightarrow> snapshot \<Rightarrow> snapshot" where
  "on_agent_error event s =
     add_diag (JObj [(''error'', JStr ''agent_error''),
         (''message'', js_or (get_prop event ''message'') (JStr ''unknown agent error''))])
       (clear_pending (s\<lparr>sn_phase := JStr ''agent_error''\<rparr>))"

definition on_unknown :: "jsval \<Rightarrow> snapshot \<Rightarrow> snapshot" where
  "on_unknown event s =
     add_diag (JObj [(''error'', JStr ''unknown_event_type''), (''type'', get_prop event ''type'')]) s"

definition dispatch_event :: "jsval \<Rightarrow> jsval \<Rightarrow> snapshot \<Rightarrow> snapshot" where
  "dispatch_event seq event s =
     (let ty = get_prop event ''type'' in
      if ty = JStr ''generate'' then on_generate seq event s
      else if ty = JStr ''variants_ready'' \<or> ty = JStr ''agent_done'' then on_ready event s
      else if ty = JStr ''checkpoint'' then on_checkpoint event s
      else if ty = JStr ''accept'' \<or> ty = JStr ''accept_intent'' then on_accept seq event s
      else if ty = JStr ''manual_edit_apply''
           then on_page_request ''manual_edit_apply_requested'' seq event s
      else if ty = JStr ''steer'' then on_page_request ''steer_requested'' seq event s
      else if ty = JStr ''steer_done'' then on_steer_done event s
      else if ty = JStr ''discard'' then on_discard seq event s
      else if ty = JStr ''discarded'' then on_discarded s
      else if ty = JStr ''complete'' then on_complete event s
      else if ty = JStr ''agent_error'' then on_agent_error event s
      else on_unknown event s)"

definition inherit_diagnostics :: "jsval list \<Rightarrow> snapshot \<Rightarrow> snapshot" where
  "inherit_diagnostics inherited s =
     (if inherited \<noteq> [] \<and> sn_diagnostics s = [] then s\<lparr>sn_diagnostics := inherited\<rparr> else s)"

definition applyEvent :: "jsval \<Rightarrow> snapshot \<Rightarrow> jsval \<Rightarrow> jsval list \<Rightarrow> snapshot" where
  "applyEvent now s entry inherited =
     dispatch_event (get_prop entry ''seq'') (js_or (get_prop entry ''event'') entry)
       (inherit_diagnostics inherited
         (s\<lparr>sn_updatedAt := js_or (get_prop entry ''ts'') now\<rparr>))"

section \<open>Replaying a journal\<close>

definition journal_diag :: "nat \<Rightarrow> string \<Rightarrow> jsval" where
  "journal_diag i msg =
     JObj [(''error'', JStr ''journal_parse_failed''), (''line'', JInt (int i)), (''message'', JStr msg)]"

definition bump_seq :: "jsval \<Rightarrow> int \<Rightarrow> int" where
  "bump_seq entry n = (case get_prop entry ''seq'' of JInt k \<Rightarrow> max n (k + 1) | _ \<Rightarrow> n)"

text \<open>One pass of the loop body; \<open>i\<close> is the 1-based line number.\<close>

definition replay_line :: "jsval \<Rightarrow> nat \<Rightarrow> journal_line \<Rightarrow> rebuilt \<Rightarrow> rebuilt" where
  "replay_line now i l r =
     (case l of
        JBlank \<Rightarrow> r
      | JBad msg \<Rightarrow> r\<lparr>rb_diagnostics := rb_diagnostics r @ [journal_diag i msg]\<rparr>
      | JLine entry \<Rightarrow>
          if \<not> truthy entry \<or> \<not> typeof_object entry
          then r\<lparr>rb_diagnostics := rb_diagnostics r @ [journal_diag i ''entry is not object'']\<rparr>
          else r\<lparr>rb_snapshot := applyEvent now (rb_snapshot r) entry [],
                 rb_nextSeq := bump_seq entry (rb_nextSeq r)\<rparr>)"

fun replay_lines :: "jsval \<Rightarrow> nat \<Rightarrow> journal_line list \<Rightarrow> rebuilt \<Rightarrow> rebuilt" where
  "replay_lines now i [] r = r"
| "replay_lines now i (l # ls) r = replay_lines now (Suc i) ls (replay_line now i l r)"

definition empty_rebuilt :: "string \<Rightarrow> rebuilt" where
  "empty_rebuilt i = \<lparr>rb_snapshot = baseSnapshot i, rb_diagnostics = [], rb_nextSeq = 1\<rparr>"

definition finish_rebuild :: "rebuilt \<Rightarrow> rebuilt" where
  "finish_rebuild r =
     r\<lparr>rb_snapshot := (rb_snapshot r)\<lparr>sn_diagnostics :=
         sn_diagnostics (rb_snapshot r) @ rb_diagnostics r\<rparr>\<rparr>"

text \<open>\<open>None\<close>: the journal file does not exist.\<close>

definition rebuildSnapshotFromJournal ::
  "jsval \<Rightarrow> journal_line list option \<Rightarrow> string \<Rightarrow> rebuilt" where
  "rebuildSnapshotFromJournal now file i =
     (case file of
        None \<Rightarrow> empty_rebuilt i
      | Some ls \<Rightarrow> finish_rebuild (replay_lines now 1 ls (empty_rebuilt i)))"

section \<open>The store operations\<close>

definition createLiveSessionStore ::
  "journal_line list dir \<Rightarrow> journal_line list dir \<Rightarrow> snapshot dir \<Rightarrow> store" where
  "createLiveSessionStore prim leg snaps =
     \<lparr>st_primary = prim, st_legacy = leg, st_snapshots = snaps, st_cache = []\<rparr>"

definition readable_journal :: "store \<Rightarrow> string \<Rightarrow> journal_line list option" where
  "readable_journal st i =
     (case map_of (st_primary st) i of
        Some ls \<Rightarrow> Some ls
      | None \<Rightarrow> map_of (st_legacy st) i)"

definition loadCachedOrRebuild :: "jsval \<Rightarrow> store \<Rightarrow> string \<Rightarrow> rebuilt \<times> store" where
  "loadCachedOrRebuild now st i =
     (case map_of (st_cache st) i of
        Some r \<Rightarrow> (r, st)
      | None \<Rightarrow>
          let r = rebuildSnapshotFromJournal now (readable_journal st i) i
          in (r, st\<lparr>st_cache := AList.update i r (st_cache st)\<rparr>))"

definition make_entry :: "int \<Rightarrow> string \<Rightarrow> jsval \<Rightarrow> jsval \<Rightarrow> jsval" where
  "make_entry seq i ts event =
     JObj [(''seq'', JInt seq), (''id'', JStr i), (''type'', get_prop event ''type''), (''ts'', ts),
           (''event'', event)]"

text \<open>The line a journal gains when \<open>JSON.stringify(entry)\<close> is appended to it.\<close>

definition written_line :: "jsval \<Rightarrow> journal_line" where
  "written_line entry = (case json_norm entry of Some v \<Rightarrow> JLine v | None \<Rightarrow> JBad ''undefined'')"

definition migrate_legacy :: "string \<Rightarrow> store \<Rightarrow> store" where
  "migrate_legacy i st =
     (case (map_of (st_primary st) i, map_of (st_legacy st) i) of
        (None, Some ls) \<Rightarrow> st\<lparr>st_primary := AList.update i ls (st_primary st)\<rparr>
      | _ \<Rightarrow> st)"

definition append_line :: "string \<Rightarrow> journal_line \<Rightarrow> store \<Rightarrow> store" where
  "append_line i l st =
     st\<lparr>st_primary := AList.update i
          ((case map_of (st_primary st) i of None \<Rightarrow> [] | Some ls \<Rightarrow> ls) @ [l]) (st_primary st)\<rparr>"

definition appendEvent :: "jsval \<Rightarrow> jsval \<Rightarrow> jsval \<Rightarrow> store \<Rightarrow> string + (snapshot \<times> store)" where
  "appendEvent now sessionId event st =
     (case normalizeEvent event sessionId of
        Inl e \<Rightarrow> Inl e
      | Inr (i, ev) \<Rightarrow>
          (case safeSessionId i of
             Inl e \<Rightarrow> Inl e
           | Inr _ \<Rightarrow>
               let (prior, st1) = loadCachedOrRebuild now (migrate_legacy i st) i;
                   seq = rb_nextSeq prior;
                   entry = make_entry seq i now ev;
                   st2 = append_line i (written_line entry) st1;
                   nxt = applyEvent now (rb_snapshot prior) entry (rb_diagnostics prior);
                   r = \<lparr>rb_snapshot = nxt, rb_diagnostics = sn_diagnostics nxt, rb_nextSeq = seq + 1\<rparr>
               in Inr (nxt, st2\<lparr>st_cache := AList.update i r (st_cache st2),
                                st_snapshots := AList.update i nxt (st_snapshots st2)\<rparr>)))"

text \<open>
  \<open>getSnapshot\<close>: \<open>Inr (None, st)\<close> is the \<open>null\<close> returned for a finished session.
\<close>

definition getSnapshot ::
  "jsval \<Rightarrow> string \<Rightarrow> bool \<Rightarrow> store \<Rightarrow> string + (snapshot option \<times> store)" where
  "getSnapshot now i includeCompleted st =
     (if i = [] then Inl ''session id required''
      else case safeSessionId i of
        Inl e \<Rightarrow> Inl e
      | Inr _ \<Rightarrow>
          let r = rebuildSnapshotFromJournal now (readable_journal st i) i;
              st1 = st\<lparr>st_cache := AList.update i r (st_cache st),
                       st_snapshots := AList.update i (rb_snapshot r) (st_snapshots st)\<rparr>
          in Inr (if \<not> includeCompleted \<and> completed_phase (sn_phase (rb_snapshot r))
                  then None else Some (rb_snapshot r), st1))"

fun get_snapshots ::
  "jsval \<Rightarrow> string list \<Rightarrow> store \<Rightarrow> string + (snapshot list \<times> store)" where
  "get_snapshots now [] st = Inr ([], st)"
| "get_snapshots now (i # ids) st =
     (case getSnapshot now i False st of
        Inl e \<Rightarrow> Inl e
      | Inr (so, st1) \<Rightarrow>
          (case get_snapshots now ids st1 of
             Inl e \<Rightarrow> Inl e
           | Inr (ss, st2) \<Rightarrow> Inr ((case so of None \<Rightarrow> ss | Some s \<Rightarrow> s # ss), st2)))"

definition session_ids :: "store \<Rightarrow> string list" where
  "session_ids st = sort (remdups (map fst (st_legacy st) @ map fst (st_primary st)))"

definition listActiveSessions :: "jsval \<Rightarrow> store \<Rightarrow> string + (snapshot list \<times> store)" where
  "listActiveSessions now st = get_snapshots now (session_ids st) st"

section \<open>Accepted ids\<close>

lemma safeSessionId_iff:
  "safeSessionId i = Inr j \<longleftrightarrow>
     j = i \<and> 1 \<le> length i \<and> length i \<le> 128 \<and>
     list_all (\<lambda>c. is_alpha c \<or> is_digit c \<or> c \<in> set ''_-'') i"
  using anchored_class_test [of 1 128 "\<lambda>c. is_alpha c \<or> is_digit c \<or> c \<in> set ''_-''" i]
  by (auto simp: safeSessionId_def session_id_re_def simp del: RSeqs.simps)

section \<open>The reducer and the diagnostics\<close>

text \<open>The snapshot apart from its diagnostics.\<close>

definition core :: "snapshot \<Rightarrow> snapshot" where
  "core s = s\<lparr>sn_diagnostics := []\<rparr>"

definition with_diags :: "jsval list \<Rightarrow> snapshot \<Rightarrow> snapshot" where
  "with_diags ds s = s\<lparr>sn_diagnostics := ds\<rparr>"

lemmas event_defs =
  on_generate_def on_ready_def on_checkpoint_def on_accept_def on_page_request_def
  on_steer_done_def on_discard_def on_discarded_def on_complete_def on_agent_error_def
  on_unknown_def set_pending_def clear_pending_def set_files_def take_params_def add_diag_def

text \<open>An operation that only appends diagnostics and does not read them.\<close>

definition diag_additive :: "(snapshot \<Rightarrow> snapshot) \<Rightarrow> bool" where
  "diag_additive f \<longleftrightarrow>
     (\<forall>ds s. f (with_diags ds s) = with_diags (ds @ sn_diagnostics (f (core s))) (f (core s)))"

lemma diag_additive_if:
  "diag_additive f \<Longrightarrow> diag_additive g \<Longrightarrow> diag_additive (\<lambda>s. if c then f s else g s)"
  by (cases c) auto

lemma diag_additive_handlers:
  "diag_additive (on_generate seq ev)" "diag_additive (on_ready ev)"
  "diag_additive (on_accept seq ev)" "diag_additive (on_page_request ph seq ev)"
  "diag_additive (on_steer_done ev)" "diag_additive (on_discard seq ev)"
  "diag_additive on_discarded" "diag_additive (on_complete ev)"
  "diag_additive (on_agent_error ev)" "diag_additive (on_unknown ev)"
  by (simp_all add: diag_additive_def event_defs with_diags_def core_def Let_def)

lemma diag_additive_checkpoint: "diag_additive (on_checkpoint ev)"
  by (cases "truthy (get_prop ev ''paramValues'')")
    (simp_all add: diag_additive_def on_checkpoint_def add_diag_def set_files_def take_params_def
        with_diags_def core_def)

lemma diag_additive_dispatch: "diag_additive (dispatch_event seq ev)"
  unfolding dispatch_event_def Let_def
  by (intro diag_additive_if diag_additive_handlers diag_additive_checkpoint)

lemma dispatch_with_diags:
  "dispatch_event seq ev (with_diags ds s) =
     with_diags (ds @ sn_diagnostics (dispatch_event seq ev (core s))) (dispatch_event seq ev (core s))"
  using diag_additive_dispatch by (simp add: diag_additive_def)

lemma with_diags_core: "with_diags (sn_diagnostics s) (core s) = s"
  by (simp add: with_diags_def core_def)

lemma core_with_diags [simp]: "core (with_diags ds s) = core s"
  by (simp add: with_diags_def core_def)

lemma sn_diagnostics_with_diags [simp]: "sn_diagnostics (with_diags ds s) = ds"
  by (simp add: with_diags_def)

lemma core_core [simp]: "core (core s) = core s"
  by (simp add: core_def)

lemma dispatch_split:
  "core (dispatch_event seq ev s) = core (dispatch_event seq ev (core s))"
  "sn_diagnostics (dispatch_event seq ev s) =
     sn_diagnostics s @ sn_diagnostics (dispatch_event seq ev (core s))"
  using dispatch_with_diags [of seq ev "sn_diagnostics s" "core s"]
  by (simp_all add: with_diags_core)


lemma core_fields [simp]:
  "sn_phase (core s) = sn_phase s" "sn_pendingEvent (core s) = sn_pendingEvent s"
  "sn_pendingEventSeq (core s) = sn_pendingEventSeq s" "sn_id (core s) = sn_id s"
  "sn_checkpointRevision (core s) = sn_checkpointRevision s" "sn_diagnostics (core s) = []"
  by (simp_all add: core_def)

definition stamp :: "jsval \<Rightarrow> jsval \<Rightarrow> snapshot \<Rightarrow> snapshot" where
  "stamp now entry s = s\<lparr>sn_updatedAt := js_or (get_prop entry ''ts'') now\<rparr>"

lemma core_stamp: "core (stamp now entry s) = stamp now entry (core s)"
  by (simp add: core_def stamp_def)

text \<open>Without inherited diagnostics to restore, applying an entry acts on the two parts apart.\<close>

lemma applyEvent_split:
  assumes "inh = [] \<or> sn_diagnostics s \<noteq> []"
  shows "core (applyEvent now s entry inh) = core (applyEvent now (core s) entry [])"
    and "sn_diagnostics (applyEvent now s entry inh) =
      sn_diagnostics s @ sn_diagnostics (applyEvent now (core s) entry [])"
proof -
  have "inherit_diagnostics inh (stamp now entry s) = stamp now entry s"
    using assms by (auto simp: inherit_diagnostics_def stamp_def)
  then have "applyEvent now s entry inh =
      dispatch_event (get_prop entry ''seq'') (js_or (get_prop entry ''event'') entry) (stamp now entry s)"
    by (simp add: applyEvent_def stamp_def)
  moreover have "applyEvent now (core s) entry [] =
      dispatch_event (get_prop entry ''seq'') (js_or (get_prop entry ''event'') entry)
        (core (stamp now entry s))"
    unfolding core_stamp by (simp add: applyEvent_def inherit_diagnostics_def stamp_def)
  ultimately show "core (applyEvent now s entry inh) = core (applyEvent now (core s) entry [])"
    and "sn_diagnostics (applyEvent now s entry inh) =
      sn_diagnostics s @ sn_diagnostics (applyEvent now (core s) entry [])"
    using dispatch_split [of _ _ "stamp now entry s"] by (simp_all add: stamp_def)
qed

section \<open>Cache coherence\<close>

text \<open>
  What the cache and a replay agree on: the snapshot up to the order of its diagnostics, and the
  next sequence number. The last conjunct keeps \<open>appendEvent\<close> from restoring diagnostics it has
  already recorded.
\<close>

definition same_state :: "rebuilt \<Rightarrow> rebuilt \<Rightarrow> bool" where
  "same_state r r' \<longleftrightarrow>
     core (rb_snapshot r) = core (rb_snapshot r') \<and>
     mset (sn_diagnostics (rb_snapshot r)) = mset (sn_diagnostics (rb_snapshot r')) \<and>
     rb_nextSeq r = rb_nextSeq r' \<and>
     (sn_diagnostics (rb_snapshot r) = [] \<longrightarrow> rb_diagnostics r = [])"

text \<open>Every object entry of the journal carries a time stamp, as the store writes them.\<close>

fun stamped_line :: "journal_line \<Rightarrow> bool" where
  "stamped_line (JLine e) = (truthy e \<and> typeof_object e \<longrightarrow> truthy (get_prop e ''ts''))"
| "stamped_line _ = True"

definition stamped :: "store \<Rightarrow> bool" where
  "stamped st \<longleftrightarrow>
     (\<forall>ls \<in> ran (map_of (st_primary st)) \<union> ran (map_of (st_legacy st)). list_all stamped_line ls)"

lemma replay_lines_append:
  "replay_lines now i (ls @ ms) r = replay_lines now (i + length ls) ms (replay_lines now i ls r)"
  by (induction ls arbitrary: i r) auto

lemma applyEvent_now:
  "truthy (get_prop e ''ts'') \<Longrightarrow> applyEvent now s e inh = applyEvent now' s e inh"
  by (simp add: applyEvent_def js_or_def)

lemma replay_line_now: "stamped_line l \<Longrightarrow> replay_line now i l r = replay_line now' i l r"
  by (cases l) (auto simp: replay_line_def applyEvent_now [of _ now _ _ now'])

lemma replay_lines_now:
  "list_all stamped_line ls \<Longrightarrow> replay_lines now i ls r = replay_lines now' i ls r"
  by (induction ls arbitrary: i r) (auto simp: replay_line_now [of _ now _ _ now'])

lemma rebuild_append_line:
  fixes jf :: "journal_line list option"
  assumes "jf2 = Some ((case jf of None \<Rightarrow> [] | Some ls \<Rightarrow> ls) @ [JLine e])"
    and "truthy e" "typeof_object e" "get_prop e ''seq'' = JInt k"
    and "k = rb_nextSeq (rebuildSnapshotFromJournal now jf i)"
    and same: "same_state p (rebuildSnapshotFromJournal now jf i)"
  shows "same_state
    \<lparr>rb_snapshot = applyEvent now (rb_snapshot p) e (rb_diagnostics p),
     rb_diagnostics = sn_diagnostics (applyEvent now (rb_snapshot p) e (rb_diagnostics p)),
     rb_nextSeq = k + 1\<rparr>
    (rebuildSnapshotFromJournal now jf2 i)"
proof -
  define ls where "ls = (case jf of None \<Rightarrow> [] | Some ls \<Rightarrow> ls)"
  define r where "r = replay_lines now 1 ls (empty_rebuilt i)"
  have old: "rebuildSnapshotFromJournal now jf i = finish_rebuild r"
    by (cases jf) (simp_all add: rebuildSnapshotFromJournal_def ls_def r_def finish_rebuild_def
        empty_rebuilt_def baseSnapshot_def)
  have new: "rebuildSnapshotFromJournal now jf2 i =
      finish_rebuild (r\<lparr>rb_snapshot := applyEvent now (rb_snapshot r) e [], rb_nextSeq := bump_seq e (rb_nextSeq r)\<rparr>)"
    using assms(1-3)
    by (simp add: rebuildSnapshotFromJournal_def ls_def [symmetric] replay_lines_append r_def
        replay_line_def)
  have p: "core (rb_snapshot p) = core (rb_snapshot r)"
    "mset (sn_diagnostics (rb_snapshot p)) = mset (sn_diagnostics (rb_snapshot r)) + mset (rb_diagnostics r)"
    "rb_diagnostics p = [] \<or> sn_diagnostics (rb_snapshot p) \<noteq> []"
    using same by (auto simp: same_state_def old finish_rebuild_def core_def)
  have k: "bump_seq e (rb_nextSeq r) = k + 1"
    using assms(4,5) by (simp add: old finish_rebuild_def bump_seq_def)
  show ?thesis
    using applyEvent_split [OF p(3), of now e] applyEvent_split [of "[]" "rb_snapshot r" now e] p k
    by (simp add: same_state_def new finish_rebuild_def core_def [of "_\<lparr>sn_diagnostics := _\<rparr>"])
      (simp add: core_def)
qed

lemma same_state_refl: "same_state (rebuildSnapshotFromJournal now jf i) (rebuildSnapshotFromJournal now jf i)"
  by (auto simp: same_state_def rebuildSnapshotFromJournal_def finish_rebuild_def empty_rebuilt_def
      split: option.splits)

definition stamped_file :: "journal_line list option \<Rightarrow> bool" where
  "stamped_file jf \<longleftrightarrow> (case jf of None \<Rightarrow> True | Some ls \<Rightarrow> list_all stamped_line ls)"

lemma rebuild_now:
  "stamped_file jf \<Longrightarrow> rebuildSnapshotFromJournal now jf i = rebuildSnapshotFromJournal now' jf i"
  by (auto simp: rebuildSnapshotFromJournal_def stamped_file_def replay_lines_now [of _ now _ _ now']
      split: option.splits)

lemma stamped_readable: "stamped st \<Longrightarrow> stamped_file (readable_journal st i)"
  by (auto simp: stamped_def stamped_file_def readable_journal_def ran_def split: option.splits)

definition coherent :: "store \<Rightarrow> bool" where
  "coherent st \<longleftrightarrow>
     (\<forall>now i r. map_of (st_cache st) i = Some r \<longrightarrow>
        same_state r (rebuildSnapshotFromJournal now (readable_journal st i) i))"

text \<open>
  An event survives the journal: read back, every property reads the same, and the events that
  become a pending event come back unchanged.
\<close>

definition pending_kind :: "jsval \<Rightarrow> bool" where
  "pending_kind ty \<longleftrightarrow> ty \<in> JStr ` set [''generate'', ''accept'', ''accept_intent'',
     ''manual_edit_apply'', ''steer'', ''discard'']"

definition writes_back :: "jsval \<Rightarrow> bool" where
  "writes_back ev \<longleftrightarrow>
     (\<exists>w. json_norm ev = Some w \<and> truthy w \<and> (\<forall>k. get_prop w k = get_prop ev k) \<and>
        (w = ev \<or> \<not> pending_kind (get_prop ev ''type'')))"

lemma json_stable_writes_back: "json_stable ev \<Longrightarrow> truthy ev \<Longrightarrow> writes_back ev"
  by (auto simp: writes_back_def json_stable_def)

lemma handler_reads:
  assumes "\<And>k. get_prop w k = get_prop ev k"
  shows "on_ready w s = on_ready ev s" "on_checkpoint w s = on_checkpoint ev s"
    "on_steer_done w s = on_steer_done ev s" "on_complete w s = on_complete ev s"
    "on_agent_error w s = on_agent_error ev s" "on_unknown w s = on_unknown ev s"
  by (simp_all only: on_ready_def on_checkpoint_def on_steer_done_def
        on_complete_def on_agent_error_def on_unknown_def set_files_def take_params_def
        source_or_file_def assms)

lemma dispatch_reads:
  assumes "\<And>k. get_prop w k = get_prop ev k" "w = ev \<or> \<not> pending_kind (get_prop ev ''type'')"
  shows "dispatch_event seq w s = dispatch_event seq ev s"
proof (cases "w = ev")
  case False
  with assms(2) have np: "\<not> pending_kind (get_prop ev ''type'')" by simp
  show ?thesis
    unfolding dispatch_event_def assms(1) Let_def handler_reads [OF assms(1)]
    using np by (simp add: pending_kind_def)
qed simp

lemma written_entry:
  assumes "writes_back ev" "is_string (get_prop ev ''type'')"
  obtains e where "written_line (make_entry seq i (JStr t) ev) = JLine e"
    "truthy e" "typeof_object e" "get_prop e ''seq'' = JInt seq" "get_prop e ''ts'' = JStr t"
    "\<And>now s inh. applyEvent now s e inh = applyEvent now s (make_entry seq i (JStr t) ev) inh"
proof -
  obtain w where w: "json_norm ev = Some w" "truthy w" "\<And>k. get_prop w k = get_prop ev k"
    "w = ev \<or> \<not> pending_kind (get_prop ev ''type'')"
    using assms(1) by (auto simp: writes_back_def)
  obtain ty where ty: "get_prop ev ''type'' = JStr ty"
    using assms(2) by (cases "get_prop ev ''type''") auto
  have tev: "truthy ev"
    using ty by (cases ev) (auto split: if_splits)
  let ?e = "JObj [(''seq'', JInt seq), (''id'', JStr i), (''type'', JStr ty), (''ts'', JStr t), (''event'', w)]"
  have "written_line (make_entry seq i (JStr t) ev) = JLine ?e"
    by (simp add: written_line_def make_entry_def ty w(1))
  moreover have "applyEvent now s ?e inh = applyEvent now s (make_entry seq i (JStr t) ev) inh" for now s inh
    using dispatch_reads [OF w(3,4)]
    by (simp add: applyEvent_def make_entry_def js_or_def w(2) tev)
  ultimately show thesis by (intro that [of ?e]) auto
qed

section \<open>The operations keep the cache coherent\<close>

lemma readable_migrate [simp]: "readable_journal (migrate_legacy i st) j = readable_journal st j"
  by (auto simp: readable_journal_def migrate_legacy_def AList.update_conv' split: option.splits)

lemma migrate_simps [simp]:
  "st_cache (migrate_legacy i st) = st_cache st" "st_legacy (migrate_legacy i st) = st_legacy st"
  "st_snapshots (migrate_legacy i st) = st_snapshots st"
  by (auto simp: migrate_legacy_def split: option.splits)

lemma migrate_primary:
  "map_of (st_primary (migrate_legacy i st)) i = readable_journal st i"
  by (auto simp: readable_journal_def migrate_legacy_def AList.update_conv' split: option.splits)

lemma stamped_migrate: "stamped st \<Longrightarrow> stamped (migrate_legacy i st)"
  by (auto simp: stamped_def migrate_legacy_def AList.update_conv' ran_def split: option.splits if_splits)

lemma coherent_migrate: "coherent st \<Longrightarrow> coherent (migrate_legacy i st)"
  by (simp add: coherent_def)

lemma load_ok:
  assumes "coherent st" "stamped st" "loadCachedOrRebuild now st i = (r, st')"
  shows "same_state r (rebuildSnapshotFromJournal now' (readable_journal st i) i)"
    and "coherent st'" and "stamped st'"
    and "st_primary st' = st_primary st" and "st_legacy st' = st_legacy st"
    and "st_snapshots st' = st_snapshots st"
    and "readable_journal st' j = readable_journal st j"
proof -
  have now: "rebuildSnapshotFromJournal a (readable_journal st i) i =
      rebuildSnapshotFromJournal b (readable_journal st i) i" for a b
    by (rule rebuild_now) (rule stamped_readable [OF assms(2)])
  have rd: "st_cache st' \<noteq> st_cache st \<Longrightarrow> map_of (st_cache st) i = None"
    using assms(3) by (auto simp: loadCachedOrRebuild_def split: option.splits)
  from assms(3) show 1: "st_primary st' = st_primary st" and 2: "st_legacy st' = st_legacy st"
    and "st_snapshots st' = st_snapshots st"
    by (auto simp: loadCachedOrRebuild_def Let_def split: option.splits)
  then show 3: "readable_journal st' j = readable_journal st j" for j
    by (simp add: readable_journal_def split: option.split)
  show "stamped st'" using assms(2) 1 2 by (simp add: stamped_def)
  show 4: "same_state r (rebuildSnapshotFromJournal now' (readable_journal st i) i)"
    using assms(1,3) same_state_refl now [of now now']
    by (auto simp: loadCachedOrRebuild_def Let_def coherent_def split: option.splits)
  have "same_state r (rebuildSnapshotFromJournal n (readable_journal st i) i)" for n
    using 4 now [of now' n] by simp
  moreover have "(j = i \<and> x = r) \<or> map_of (st_cache st) j = Some x"
    if "map_of (st_cache st') j = Some x" for j x
    using that assms(3)
    by (auto simp: loadCachedOrRebuild_def Let_def AList.update_conv' split: option.splits if_splits)
  ultimately show "coherent st'"
    using assms(1) unfolding coherent_def 3 by blast
qed

lemma readable_append_line:
  "readable_journal (append_line i l st) j =
     (if j = i then Some ((case map_of (st_primary st) i of None \<Rightarrow> [] | Some ls \<Rightarrow> ls) @ [l])
      else readable_journal st j)"
  by (simp add: readable_journal_def append_line_def AList.update_conv' split: option.split)

lemma append_line_simps [simp]:
  "st_cache (append_line i l st) = st_cache st" "st_legacy (append_line i l st) = st_legacy st"
  "st_snapshots (append_line i l st) = st_snapshots st"
  by (simp_all add: append_line_def)

lemma stamped_append_line: "stamped st \<Longrightarrow> stamped_line l \<Longrightarrow> stamped (append_line i l st)"
  by (auto simp: stamped_def append_line_def AList.update_conv' ran_def split: option.splits if_splits)


lemma normalizeEvent_Inr:
  "normalizeEvent event fb = Inr (i, ev) \<Longrightarrow>
     i \<noteq> [] \<and> is_string (get_prop event ''type'') \<and> truthy event \<and> typeof_object event \<and>
     js_or (get_prop event ''id'') fb = JStr i \<and> ev = set_prop event ''id'' (JStr i)"
  by (auto simp: normalizeEvent_def Let_def split: if_splits jsval.splits)

lemma normalized_type:
  assumes "normalizeEvent event fb = Inr (i, ev)"
  shows "get_prop ev ''type'' = get_prop event ''type''" "is_string (get_prop ev ''type'')"
proof -
  have ev: "ev = set_prop event ''id'' (JStr i)" "is_string (get_prop event ''type'')"
    "typeof_object event"
    using normalizeEvent_Inr [OF assms] by auto
  then obtain kvs where "event = JObj kvs"
    by (cases event) (auto split: if_splits)
  with ev show "get_prop ev ''type'' = get_prop event ''type''" "is_string (get_prop ev ''type'')"
    by simp_all
qed

text \<open>The effect of one append, in terms of the journal before it.\<close>

lemma appendEvent_effect:
  assumes ok: "coherent st" "stamped st" and t: "t \<noteq> []"
    and norm: "normalizeEvent event sid = Inr (i, ev)" and wb: "writes_back ev"
    and app: "appendEvent (JStr t) sid event st = Inr (s, st')"
  obtains e k p where
    "k = rb_nextSeq (rebuildSnapshotFromJournal (JStr t) (readable_journal st i) i)"
    "readable_journal st' i =
       Some ((case readable_journal st i of None \<Rightarrow> [] | Some ls \<Rightarrow> ls) @ [JLine e])"
    "map_of (st_primary st') i = readable_journal st' i"
    "\<And>j. j \<noteq> i \<Longrightarrow> readable_journal st' j = readable_journal st j"
    "st_legacy st' = st_legacy st"
    "truthy e" "typeof_object e" "get_prop e ''seq'' = JInt k" "get_prop e ''ts'' = JStr t"
    "same_state p (rebuildSnapshotFromJournal (JStr t) (readable_journal st i) i)"
    "s = applyEvent (JStr t) (rb_snapshot p) e (rb_diagnostics p)"
    "map_of (st_cache st') i =
       Some \<lparr>rb_snapshot = s, rb_diagnostics = sn_diagnostics s, rb_nextSeq = k + 1\<rparr>"
    "map_of (st_snapshots st') i = Some s"
    "coherent st'" "stamped st'"
proof -
  define st0 where "st0 = migrate_legacy i st"
  obtain prior st1 where load: "loadCachedOrRebuild (JStr t) st0 i = (prior, st1)"
    by fastforce
  have ok0: "coherent st0" "stamped st0"
    using ok by (auto simp: st0_def coherent_migrate stamped_migrate)
  note L = load_ok [OF ok0 load]
  define k where "k = rb_nextSeq prior"
  obtain e where e: "written_line (make_entry k i (JStr t) ev) = JLine e"
    "truthy e" "typeof_object e" "get_prop e ''seq'' = JInt k" "get_prop e ''ts'' = JStr t"
    "\<And>now s inh. applyEvent now s e inh = applyEvent now s (make_entry k i (JStr t) ev) inh"
    using written_entry [OF wb normalized_type(2) [OF norm]] by metis
  define st2 where "st2 = append_line i (JLine e) st1"
  define s' where "s' = applyEvent (JStr t) (rb_snapshot prior) e (rb_diagnostics prior)"
  define r where "r = \<lparr>rb_snapshot = s', rb_diagnostics = sn_diagnostics s', rb_nextSeq = k + 1\<rparr>"
  have res: "s = s'" "st' = st2\<lparr>st_cache := AList.update i r (st_cache st2),
                              st_snapshots := AList.update i s' (st_snapshots st2)\<rparr>"
    using app by (auto simp: appendEvent_def norm st0_def [symmetric] load Let_def k_def [symmetric]
        e(1) e(6) [symmetric] st2_def s'_def r_def split: sum.splits)
  have rd0: "readable_journal st0 j = readable_journal st j" for j
    by (simp add: st0_def)
  have prim: "map_of (st_primary st1) i = readable_journal st i"
    using L(4) by (simp add: st0_def migrate_primary)
  have rd2: "readable_journal st2 j =
      (if j = i then Some ((case readable_journal st i of None \<Rightarrow> [] | Some ls \<Rightarrow> ls) @ [JLine e])
       else readable_journal st j)" for j
    using L(7) rd0 by (simp add: st2_def readable_append_line prim)
  have rd': "readable_journal st' j = readable_journal st2 j" for j
    by (simp add: res(2) readable_journal_def split: option.split)
  have same: "same_state prior (rebuildSnapshotFromJournal now (readable_journal st i) i)" for now
    using L(1) by (simp add: rd0)
  have k: "k = rb_nextSeq (rebuildSnapshotFromJournal (JStr t) (readable_journal st i) i)"
    using same by (simp add: k_def same_state_def)
  have st': "stamped st'"
  proof -
    have "stamped st2"
      unfolding st2_def using L(3) e(5) t by (intro stamped_append_line) simp_all
    then show ?thesis by (simp add: res(2) stamped_def)
  qed
  have new: "same_state r (rebuildSnapshotFromJournal now (readable_journal st' i) i)" for now
  proof -
    have "same_state r (rebuildSnapshotFromJournal (JStr t) (readable_journal st2 i) i)"
      unfolding r_def s'_def
      by (rule rebuild_append_line [where jf = "readable_journal st i"])
        (use rd2 e k same in auto)
    then show ?thesis
      using rebuild_now [where now = now and now' = "JStr t" and i = i, OF stamped_readable [OF st', of i]]
        rd' by simp
  qed
  have "coherent st'"
    unfolding coherent_def
  proof (intro allI impI)
    fix now j x
    assume "map_of (st_cache st') j = Some x"
    then show "same_state x (rebuildSnapshotFromJournal now (readable_journal st' j) j)"
      using new L(2) rd' rd2 L(7) rd0
      by (cases "j = i") (auto simp: res(2) AList.update_conv' coherent_def st2_def)
  qed
  moreover have "map_of (st_primary st') i = readable_journal st' i"
    by (simp add: res(2) st2_def readable_journal_def append_line_def AList.update_conv')
  moreover have "st_legacy st' = st_legacy st"
    by (simp add: res(2) st2_def L(5) st0_def)
  moreover have "map_of (st_cache st') i = Some r" "map_of (st_snapshots st') i = Some s"
    by (simp_all add: res AList.update_conv')
  ultimately show thesis
    using rd' rd2 by (intro that [OF k _ _ _ _ e(2-5) same]) (simp_all add: r_def s'_def res(1) st')
qed

section \<open>Reading a snapshot\<close>

lemma getSnapshot_effect:
  assumes "getSnapshot now i b st = Inr (so, st')"
  shows "st_primary st' = st_primary st" "st_legacy st' = st_legacy st"
    "readable_journal st' j = readable_journal st j"
    "so = (let s = rb_snapshot (rebuildSnapshotFromJournal now (readable_journal st i) i)
           in if \<not> b \<and> completed_phase (sn_phase s) then None else Some s)"
    "stamped st \<Longrightarrow> stamped st'"
    "coherent st \<Longrightarrow> stamped st \<Longrightarrow> coherent st'"
proof -
  let ?r = "rebuildSnapshotFromJournal now (readable_journal st i) i"
  have st': "st' = st\<lparr>st_cache := AList.update i ?r (st_cache st),
                      st_snapshots := AList.update i (rb_snapshot ?r) (st_snapshots st)\<rparr>"
    and so: "so = (if \<not> b \<and> completed_phase (sn_phase (rb_snapshot ?r)) then None else Some (rb_snapshot ?r))"
    using assms by (auto simp: getSnapshot_def Let_def split: if_splits sum.splits)
  from st' show "st_primary st' = st_primary st" "st_legacy st' = st_legacy st" by simp_all
  then show rd: "readable_journal st' j = readable_journal st j" for j
    by (simp add: readable_journal_def split: option.split)
  from so show "so = (let s = rb_snapshot ?r
           in if \<not> b \<and> completed_phase (sn_phase s) then None else Some s)" by (simp add: Let_def)
  show "stamped st \<Longrightarrow> stamped st'" using st' by (simp add: stamped_def)
  show "coherent st'" if "coherent st" "stamped st"
    unfolding coherent_def
  proof (intro allI impI)
    fix n j x
    assume "map_of (st_cache st') j = Some x"
    then have "(j = i \<and> x = ?r) \<or> map_of (st_cache st) j = Some x"
      by (auto simp: st' AList.update_conv' split: if_splits)
    moreover have "same_state ?r (rebuildSnapshotFromJournal n (readable_journal st i) i)"
      unfolding rebuild_now [where now = n and now' = now and i = i, OF stamped_readable [OF that(2), of i]]
      by (rule same_state_refl)
    ultimately show "same_state x (rebuildSnapshotFromJournal n (readable_journal st' j) j)"
      using that(1) unfolding rd coherent_def by blast
  qed
qed

lemma getSnapshot_Inr:
  assumes "safeSessionId i = Inr i"
  shows "\<exists>st'. getSnapshot now i b st =
    Inr (let s = rb_snapshot (rebuildSnapshotFromJournal now (readable_journal st i) i)
         in if \<not> b \<and> completed_phase (sn_phase s) then None else Some s, st')"
proof -
  have "i \<noteq> []" using assms by (auto simp: safeSessionId_iff)
  with assms show ?thesis by (simp add: getSnapshot_def Let_def)
qed

definition live_snapshots :: "jsval \<Rightarrow> (string \<Rightarrow> journal_line list option) \<Rightarrow> string list \<Rightarrow> snapshot list" where
  "live_snapshots now jr ids =
     filter (\<lambda>s. \<not> completed_phase (sn_phase s))
       (map (\<lambda>i. rb_snapshot (rebuildSnapshotFromJournal now (jr i) i)) ids)"

lemma get_snapshots_eq:
  "(\<And>i. i \<in> set ids \<Longrightarrow> safeSessionId i = Inr i) \<Longrightarrow>
     \<exists>st'. get_snapshots now ids st = Inr (live_snapshots now (readable_journal st) ids, st')"
proof (induction ids arbitrary: st)
  case Nil
  then show ?case by (simp add: live_snapshots_def)
next
  case (Cons i ids)
  let ?s = "rb_snapshot (rebuildSnapshotFromJournal now (readable_journal st i) i)"
  obtain st1 where g: "getSnapshot now i False st =
      Inr (if completed_phase (sn_phase ?s) then None else Some ?s, st1)"
    using getSnapshot_Inr [of i now False st] Cons.prems by (auto simp: Let_def)
  have "readable_journal st1 = readable_journal st"
    using getSnapshot_effect(3) [OF g] by (rule ext)
  moreover obtain st2 where "get_snapshots now ids st1 = Inr (live_snapshots now (readable_journal st1) ids, st2)"
    using Cons.IH [of st1] Cons.prems by auto
  ultimately show ?case
    using g by (auto simp: live_snapshots_def)
qed

lemma get_snapshots_effect:
  "get_snapshots now ids st = Inr (ss, st') \<Longrightarrow>
     st_primary st' = st_primary st \<and> st_legacy st' = st_legacy st \<and>
     (coherent st \<longrightarrow> stamped st \<longrightarrow> coherent st' \<and> stamped st')"
proof (induction ids arbitrary: st ss)
  case (Cons i ids)
  from Cons.prems obtain so st1 ss' where g: "getSnapshot now i False st = Inr (so, st1)"
    and r: "get_snapshots now ids st1 = Inr (ss', st')"
    by (auto split: sum.splits)
  show ?case
    using Cons.IH [OF r] getSnapshot_effect(1,2,5,6) [OF g] by simp
qed simp

section \<open>Reachable stores\<close>

text \<open>
  The runs of one server process: it starts on the journals it finds (their entries stamped, as
  every store writes them; lines that do not parse are allowed), and then appends, reads and
  lists in any order.
\<close>

inductive store_reach :: "store \<Rightarrow> bool" where
  start: "stamped (createLiveSessionStore prim leg snaps) \<Longrightarrow>
    store_reach (createLiveSessionStore prim leg snaps)"
| append: "store_reach st \<Longrightarrow> t \<noteq> [] \<Longrightarrow> normalizeEvent event sid = Inr (i, ev) \<Longrightarrow> writes_back ev \<Longrightarrow>
    appendEvent (JStr t) sid event st = Inr (s, st') \<Longrightarrow> store_reach st'"
| get: "store_reach st \<Longrightarrow> getSnapshot now i b st = Inr (so, st') \<Longrightarrow> store_reach st'"
| list: "store_reach st \<Longrightarrow> listActiveSessions now st = Inr (ss, st') \<Longrightarrow> store_reach st'"

lemma store_reach_ok: "store_reach st \<Longrightarrow> coherent st \<and> stamped st"
proof (induction rule: store_reach.induct)
  case (start prim leg snaps)
  then show ?case by (simp add: coherent_def createLiveSessionStore_def)
next
  case (append st t event sid i ev s st')
  then show ?case by (auto elim: appendEvent_effect)
next
  case (get st now i b so st')
  then show ?case using getSnapshot_effect(5,6) by blast
next
  case (list st now ss st')
  then show ?case using get_snapshots_effect unfolding listActiveSessions_def by blast
qed


lemma replay_seq_bound:
  "l \<in> set ls \<Longrightarrow> l = JLine e \<Longrightarrow> truthy e \<Longrightarrow> typeof_object e \<Longrightarrow> get_prop e ''seq'' = JInt k \<Longrightarrow>
     k < rb_nextSeq (replay_lines now i ls r)"
  and replay_seq_mono: "rb_nextSeq r \<le> rb_nextSeq (replay_lines now i ls r)"
proof -
  have step: "rb_nextSeq r \<le> rb_nextSeq (replay_line now i l r)" for i l r
    by (auto simp: replay_line_def bump_seq_def split: journal_line.split jsval.split)
  show mono: "rb_nextSeq r \<le> rb_nextSeq (replay_lines now i ls r)" for i ls r
  proof (induction ls arbitrary: i r)
    case (Cons l ls)
    show ?case using step [of r i l] Cons.IH [of "replay_line now i l r" "Suc i"] by simp
  qed simp
  assume "l \<in> set ls" "l = JLine e" "truthy e" "typeof_object e" "get_prop e ''seq'' = JInt k"
  then show "k < rb_nextSeq (replay_lines now i ls r)"
  proof (induction ls arbitrary: i r)
    case (Cons l' ls)
    show ?case
    proof (cases "l' = l")
      case True
      then have "k < rb_nextSeq (replay_line now i l' r)"
        using Cons.prems by (auto simp: replay_line_def bump_seq_def)
      then show ?thesis using mono [of "replay_line now i l' r" "Suc i" ls] by simp
    next
      case False
      then show ?thesis using Cons by simp
    qed
  qed simp
qed

lemma rebuild_seq_bound:
  assumes "JLine e \<in> set ls" "truthy e" "typeof_object e" "get_prop e ''seq'' = JInt k"
  shows "k < rb_nextSeq (rebuildSnapshotFromJournal now (Some ls) i)"
  using replay_seq_bound [OF assms(1) refl assms(2-4)]
  by (simp add: rebuildSnapshotFromJournal_def finish_rebuild_def)


text \<open>A crash after an append loses nothing: a store freshly created on the files left behind gives,
  for that session, the snapshot \<open>appendEvent\<close> returned (its diagnostics possibly in another
  order).\<close>

theorem restart_after_append:
  assumes "store_reach st" "t \<noteq> []" "normalizeEvent event sid = Inr (i, ev)" "writes_back ev"
    and "appendEvent (JStr t) sid event st = Inr (s, st')"
  shows "\<exists>s2 st2. getSnapshot now i True
        (createLiveSessionStore (st_primary st') (st_legacy st') (st_snapshots st')) = Inr (Some s2, st2) \<and>
      core s2 = core s \<and> mset (sn_diagnostics s2) = mset (sn_diagnostics s)"
proof -
  have ok: "coherent st" "stamped st" using store_reach_ok [OF assms(1)] by auto
  have c: "map_of (st_cache st') i \<noteq> None \<and> (\<forall>r. map_of (st_cache st') i = Some r \<longrightarrow> rb_snapshot r = s)"
    by (rule appendEvent_effect [OF ok assms(2-5)]) auto
  then obtain r where r: "map_of (st_cache st') i = Some r" "rb_snapshot r = s" by auto
  have "store_reach st'" by (rule store_reach.append [OF assms])
  note same = store_reach_ok [OF this, THEN conjunct1, unfolded coherent_def, rule_format, OF r(1)]
  have "safeSessionId i = Inr i"
    using assms(3,5) by (auto simp: appendEvent_def safeSessionId_iff split: sum.splits)
  moreover have "readable_journal (createLiveSessionStore (st_primary st') (st_legacy st') (st_snapshots st')) i =
      readable_journal st' i"
    by (simp add: createLiveSessionStore_def readable_journal_def split: option.split)
  ultimately show ?thesis
    using getSnapshot_Inr [of i now True
        "createLiveSessionStore (st_primary st') (st_legacy st') (st_snapshots st')"] same [of now] r(2)
    by (auto simp: Let_def same_state_def)
qed

text \<open>\<open>listActiveSessions\<close> returns, in the order of the session ids, exactly the replayed
  snapshots of the sessions whose phase is neither completed nor discarded, and writes no journal.\<close>

theorem listActiveSessions_eq:
  assumes "\<forall>i \<in> set (session_ids st). safeSessionId i = Inr i"
  shows "\<exists>st'. listActiveSessions now st =
      Inr (live_snapshots now (readable_journal st) (session_ids st), st') \<and>
    sorted (session_ids st) \<and> distinct (session_ids st) \<and>
    st_primary st' = st_primary st \<and> st_legacy st' = st_legacy st"
proof -
  obtain st' where g: "get_snapshots now (session_ids st) st =
      Inr (live_snapshots now (readable_journal st) (session_ids st), st')"
    using get_snapshots_eq [of "session_ids st" now st] assms by auto
  then show ?thesis
    using get_snapshots_effect [OF g] by (auto simp: listActiveSessions_def session_ids_def)
qed

section \<open>Invariants of replayed snapshots\<close>

text \<open>What every entry keeps, every replay has.\<close>

lemma replay_invariant:
  assumes "P (rb_snapshot r)"
    and "\<And>e s. JLine e \<in> set ls \<Longrightarrow> truthy e \<Longrightarrow> typeof_object e \<Longrightarrow> P s \<Longrightarrow> P (applyEvent now s e [])"
  shows "P (rb_snapshot (replay_lines now i ls r))"
  using assms
proof (induction ls arbitrary: i r)
  case (Cons l ls)
  have "P (rb_snapshot (replay_line now i l r))"
    using Cons.prems by (auto simp: replay_line_def split: journal_line.split)
  then show ?case using Cons by simp
qed simp

lemma rebuild_invariant:
  assumes "P (baseSnapshot i)"
    and "\<And>e s ls. jf = Some ls \<Longrightarrow> JLine e \<in> set ls \<Longrightarrow> truthy e \<Longrightarrow> typeof_object e \<Longrightarrow> P s \<Longrightarrow>
      P (applyEvent now s e [])"
    and diag: "\<And>s ds. P s \<Longrightarrow> P (s\<lparr>sn_diagnostics := ds\<rparr>)"
  shows "P (rb_snapshot (rebuildSnapshotFromJournal now jf i))"
proof (cases jf)
  case None
  with assms(1) show ?thesis by (simp add: rebuildSnapshotFromJournal_def empty_rebuilt_def)
next
  case (Some ls)
  have "P (rb_snapshot (replay_lines now 1 ls (empty_rebuilt i)))"
    by (rule replay_invariant) (use assms Some in \<open>auto simp: empty_rebuilt_def\<close>)
  with Some show ?thesis
    by (simp add: rebuildSnapshotFromJournal_def finish_rebuild_def diag)
qed


definition pending_fields :: "snapshot \<Rightarrow> jsval \<times> jsval" where
  "pending_fields s = (sn_pendingEventSeq s, sn_pendingEvent s)"

text \<open>How an entry moves the pending event: set, cleared or kept.\<close>

lemma applyEvent_pending:
  "pending_fields (applyEvent now s entry inh) =
     (let ev = js_or (get_prop entry ''event'') entry; ty = get_prop ev ''type''
      in if pending_kind ty
         then (coalesce (get_prop entry ''seq'') (sn_pendingEventSeq s), toPendingEvent ev)
         else if ty \<in> JStr ` set [''variants_ready'', ''agent_done'', ''steer_done'', ''discarded'',
                ''complete'', ''agent_error'']
         then (JNull, JNull)
         else pending_fields s)"
proof -
  have chk: "pending_fields (on_checkpoint ev x) = pending_fields x" for ev x
    by (simp add: on_checkpoint_def pending_fields_def add_diag_def take_params_def set_files_def)
  have gen: "pending_fields (on_generate seq ev x) =
      (coalesce seq (sn_pendingEventSeq x), toPendingEvent ev)" for seq ev x
    by (simp add: on_generate_def pending_fields_def set_pending_def Let_def)
  have rdy: "pending_fields (on_ready ev x) = (JNull, JNull)" for ev x
    by (simp add: on_ready_def pending_fields_def clear_pending_def Let_def add_diag_def)
  show ?thesis
    unfolding applyEvent_def dispatch_event_def Let_def
    by (simp add: chk gen rdy pending_kind_def)
      (simp add: pending_fields_def on_accept_def on_page_request_def on_discard_def on_steer_done_def
        on_discarded_def on_complete_def on_agent_error_def on_unknown_def set_pending_def
        clear_pending_def add_diag_def take_params_def inherit_diagnostics_def)
qed


text \<open>Whatever the journal holds, the pending event of the rebuilt snapshot carries no token.\<close>

theorem pending_event_has_no_token:
  "get_prop (sn_pendingEvent (rb_snapshot (rebuildSnapshotFromJournal now jf i))) ''token'' = JUndef"
proof (rule rebuild_invariant)
  fix e :: jsval and s :: snapshot
  assume "get_prop (sn_pendingEvent s) ''token'' = JUndef"
  then have "get_prop (snd (pending_fields (applyEvent now s e []))) ''token'' = JUndef"
    unfolding applyEvent_pending by (simp add: Let_def toPendingEvent_def pending_fields_def)
  then show "get_prop (sn_pendingEvent (applyEvent now s e [])) ''token'' = JUndef"
    by (simp add: pending_fields_def)
qed (simp_all add: baseSnapshot_def)

text \<open>Every object entry of the journal has an integer sequence number, as the store writes them.\<close>

definition sequenced :: "journal_line list \<Rightarrow> bool" where
  "sequenced ls \<longleftrightarrow>
     list_all (\<lambda>l. case l of JLine e \<Rightarrow> truthy e \<and> typeof_object e \<longrightarrow> is_integer (get_prop e ''seq'')
                   | _ \<Rightarrow> True) ls"

lemma coalesce_integer: "is_integer v \<Longrightarrow> coalesce v w = v"
  by (cases v) auto

text \<open>In a rebuilt snapshot the pending event and its sequence number are set and cleared
  together.\<close>

theorem pending_pair:
  assumes "sequenced ls"
  shows "(sn_pendingEvent (rb_snapshot (rebuildSnapshotFromJournal now (Some ls) i)) = JNull) \<longleftrightarrow>
    (sn_pendingEventSeq (rb_snapshot (rebuildSnapshotFromJournal now (Some ls) i)) = JNull)"
proof (rule rebuild_invariant)
  fix e :: jsval and s :: snapshot and ls'
  assume "Some ls = Some ls'" "JLine e \<in> set ls'" "truthy e" "typeof_object e"
    and IH: "(sn_pendingEvent s = JNull) \<longleftrightarrow> (sn_pendingEventSeq s = JNull)"
  with assms have int: "is_integer (get_prop e ''seq'')"
    by (auto simp: sequenced_def list_all_iff split: journal_line.splits)
  then have "(fst (pending_fields (applyEvent now s e [])) = JNull) \<longleftrightarrow>
      (snd (pending_fields (applyEvent now s e [])) = JNull)"
    unfolding applyEvent_pending using IH
    by (auto simp: Let_def toPendingEvent_def delete_prop_def coalesce_integer pending_fields_def)
  then show "(sn_pendingEvent (applyEvent now s e []) = JNull) \<longleftrightarrow>
      (sn_pendingEventSeq (applyEvent now s e []) = JNull)"
    by (simp add: pending_fields_def)
qed (simp_all add: baseSnapshot_def)

section \<open>Checkpoints\<close>

definition entry_event :: "jsval \<Rightarrow> jsval" where
  "entry_event e = js_or (get_prop e ''event'') e"

lemma applyEvent_checkpoint:
  "get_prop (entry_event e) ''type'' = JStr ''checkpoint'' \<Longrightarrow>
     applyEvent now s e [] = on_checkpoint (entry_event e) (stamp now e s)"
  by (simp add: applyEvent_def dispatch_event_def entry_event_def stamp_def inherit_diagnostics_def)

lemma stamp_fields [simp]:
  "sn_phase (stamp now e s) = sn_phase s" "sn_diagnostics (stamp now e s) = sn_diagnostics s"
  "sn_checkpointRevision (stamp now e s) = sn_checkpointRevision s"
  by (simp_all add: stamp_def)

text \<open>C31: A checkpoint that arrives after the session ended, or with a revision older than the last one
  seen, changes nothing but the time stamp and adds one diagnostic.\<close>

theorem late_checkpoint_ignored:
  assumes "get_prop (entry_event e) ''type'' = JStr ''checkpoint''"
    and "completed_phase (sn_phase s) \<or>
      (get_prop (entry_event e) ''revision'' = JInt b \<and> sn_checkpointRevision s = JInt a \<and> b < a)"
  shows "\<exists>d. applyEvent now s e [] = with_diags (sn_diagnostics s @ [d]) (stamp now e s) \<and>
    get_prop d ''error'' \<in> {JStr ''checkpoint_after_terminal_ignored'', JStr ''stale_checkpoint_ignored''}"
proof -
  let ?ev = "entry_event e" and ?x = "stamp now e s"
  have "\<exists>d. on_checkpoint ?ev ?x = add_diag d ?x \<and>
      get_prop d ''error'' \<in> {JStr ''checkpoint_after_terminal_ignored'', JStr ''stale_checkpoint_ignored''}"
  proof (cases "completed_phase (sn_phase s)")
    case True
    then show ?thesis
      unfolding on_checkpoint_def by (simp only: stamp_fields if_True) (rule exI, rule conjI, rule refl, simp)
  next
    case False
    with assms(2) have "\<not> js_geq (coalesce (get_prop ?ev ''revision'') (JInt 0))
        (coalesce (sn_checkpointRevision s) (JInt 0))"
      by (auto simp: num_geq_def)
    with False show ?thesis
      unfolding on_checkpoint_def by (simp only: stamp_fields if_False) (rule exI, rule conjI, rule refl, simp)
  qed
  then show ?thesis
    by (simp add: applyEvent_checkpoint [OF assms(1)] add_diag_def with_diags_def)
qed

text \<open>Every checkpoint of the journal has an integer revision, which \<open>validateEvent\<close> requires.\<close>

definition int_revisions :: "journal_line list \<Rightarrow> bool" where
  "int_revisions ls \<longleftrightarrow>
     list_all (\<lambda>l. case l of
         JLine e \<Rightarrow> get_prop (entry_event e) ''type'' = JStr ''checkpoint'' \<longrightarrow>
            is_integer (get_prop (entry_event e) ''revision'')
       | _ \<Rightarrow> True) ls"

lemma int_revisions_mem:
  assumes "int_revisions ls" "JLine e \<in> set ls" "get_prop (entry_event e) ''type'' = JStr ''checkpoint''"
  shows "\<exists>b. get_prop (entry_event e) ''revision'' = JInt b"
proof -
  have "is_integer (get_prop (entry_event e) ''revision'')"
    using assms by (auto simp: int_revisions_def list_all_iff dest!: bspec [of _ _ "JLine e"])
  then show ?thesis by (cases "get_prop (entry_event e) ''revision''") auto
qed

lemma on_checkpoint_revision:
  "sn_checkpointRevision (on_checkpoint ev x) =
     (if \<not> completed_phase (sn_phase x) \<and>
         js_geq (coalesce (get_prop ev ''revision'') (JInt 0)) (coalesce (sn_checkpointRevision x) (JInt 0))
      then coalesce (get_prop ev ''revision'') (sn_checkpointRevision x)
      else sn_checkpointRevision x)"
  by (simp add: on_checkpoint_def add_diag_def take_params_def set_files_def)

lemma applyEvent_revision:
  assumes "get_prop (entry_event e) ''type'' = JStr ''checkpoint'' \<Longrightarrow>
      get_prop (entry_event e) ''revision'' = JInt b"
    and "sn_checkpointRevision s = JInt a"
  shows "\<exists>c. sn_checkpointRevision (applyEvent now s e []) = JInt c \<and> a \<le> c"
proof (cases "get_prop (entry_event e) ''type'' = JStr ''checkpoint''")
  case True
  then show ?thesis
    using assms by (simp add: applyEvent_checkpoint on_checkpoint_revision num_geq_def)
next
  case False
  have gen: "sn_checkpointRevision (on_generate seq ev x) = sn_checkpointRevision x"
    "sn_checkpointRevision (on_ready ev x) = sn_checkpointRevision x" for seq ev x
    by (simp_all add: on_generate_def set_pending_def Let_def on_ready_def clear_pending_def
        set_files_def add_diag_def)
  have "sn_checkpointRevision (applyEvent now s e []) = JInt a"
    unfolding applyEvent_def dispatch_event_def Let_def
    using False assms(2) by (simp add: gen entry_event_def)
      (simp add: on_accept_def on_page_request_def on_discard_def on_steer_done_def set_files_def
        on_discarded_def on_complete_def on_agent_error_def on_unknown_def set_pending_def
        clear_pending_def add_diag_def take_params_def inherit_diagnostics_def)
  then show ?thesis by simp
qed

text \<open>C30: Along a journal whose checkpoints carry integer revisions the checkpoint revision never
  decreases: extending the journal leaves it equal or larger.\<close>

theorem checkpoint_revision_monotone:
  assumes "int_revisions (ls @ ms)"
  shows "\<exists>a b. sn_checkpointRevision (rb_snapshot (rebuildSnapshotFromJournal now (Some ls) i)) = JInt a \<and>
    sn_checkpointRevision (rb_snapshot (rebuildSnapshotFromJournal now (Some (ls @ ms)) i)) = JInt b \<and> a \<le> b"
proof -
  have step: "\<exists>c. sn_checkpointRevision (applyEvent now s e []) = JInt c \<and> a \<le> c"
    if mem: "JLine e \<in> set (ls @ ms)" and "sn_checkpointRevision s = JInt a" for e s a
  proof -
    obtain b where "get_prop (entry_event e) ''type'' = JStr ''checkpoint'' \<longrightarrow>
        get_prop (entry_event e) ''revision'' = JInt b"
      using int_revisions_mem [OF assms mem] by blast
    then show ?thesis by (intro applyEvent_revision [OF _ that(2)]) blast
  qed
  have grow: "\<exists>b. sn_checkpointRevision (rb_snapshot (replay_lines now k xs r)) = JInt b \<and> a \<le> b"
    if "set xs \<subseteq> set (ls @ ms)" "sn_checkpointRevision (rb_snapshot r) = JInt a" for xs k r a
  proof (rule replay_invariant [where P = "\<lambda>s. \<exists>b. sn_checkpointRevision s = JInt b \<and> a \<le> b"])
    show "\<exists>b. sn_checkpointRevision (rb_snapshot r) = JInt b \<and> a \<le> b" using that(2) by simp
    fix e :: jsval and s :: snapshot
    assume "JLine e \<in> set xs" "\<exists>b. sn_checkpointRevision s = JInt b \<and> a \<le> b"
    then show "\<exists>b. sn_checkpointRevision (applyEvent now s e []) = JInt b \<and> a \<le> b"
      using step that(1) by (meson order_trans subsetD)
  qed
  obtain a where a: "sn_checkpointRevision (rb_snapshot (replay_lines now 1 ls (empty_rebuilt i))) = JInt a"
    using grow [of ls "empty_rebuilt i" 0 1] by (auto simp: empty_rebuilt_def baseSnapshot_def)
  with grow [of ms _ a "1 + length ls"] show ?thesis
    by (simp add: rebuildSnapshotFromJournal_def finish_rebuild_def replay_lines_append)
qed

text \<open>An accepted session id names a file directly inside the session directory: it is 1 to 128
  letters, digits, \<open>_\<close> and \<open>-\<close>, so it holds no path separator, no dot and no NUL.\<close>

theorem safe_id_stays_inside:
  assumes "safeSessionId i = Inr j"
  shows "j = i \<and> i \<noteq> [] \<and> length i \<le> 128 \<and> CHR ''/'' \<notin> set i \<and> CHR 0x5C \<notin> set i \<and>
    CHR ''.'' \<notin> set i \<and> CHR 0x00 \<notin> set i"
proof -
  have "list_all (\<lambda>c. is_alpha c \<or> is_digit c \<or> c \<in> set ''_-'') i"
    using assms by (simp add: safeSessionId_iff)
  then have "\<not> (is_alpha c \<or> is_digit c \<or> c \<in> set ''_-'') \<Longrightarrow> c \<notin> set i" for c
    by (auto simp: list_all_iff)
  from this [of "CHR ''/''"] this [of "CHR 0x5C"] this [of "CHR ''.''"] this [of "CHR 0x00"]
  show ?thesis using assms
    by (auto simp: safeSessionId_iff is_alpha_def is_lower_def is_upper_def is_digit_def code_def)
qed

section \<open>Witnesses\<close>

definition demo_event :: jsval where
  "demo_event = JObj [(''type'', JStr ''generate''), (''id'', JStr ''ab12''), (''token'', JStr ''k''),
     (''pageUrl'', JStr ''/''), (''count'', JInt 3)]"

definition demo_store :: store where
  "demo_store = createLiveSessionStore [] [] []"

lemma demo_reach: "store_reach demo_store"
  unfolding demo_store_def by (rule store_reach.start) (simp add: stamped_def createLiveSessionStore_def)

lemma demo_normal: "normalizeEvent demo_event JUndef = Inr (''ab12'', demo_event)"
  by code_simp

lemma demo_writes_back: "writes_back demo_event"
  by (rule json_stable_writes_back) (simp_all add: json_stable_def demo_event_def)

lemma demo_append: "\<exists>s st'. appendEvent (JStr ''t0'') JUndef demo_event demo_store = Inr (s, st')"
proof -
  have "\<not> isl (appendEvent (JStr ''t0'') JUndef demo_event demo_store)" by code_simp
  then show ?thesis by (metis old.prod.exhaust sum.collapse(2))
qed



theorem restart_after_append_witness:
  "\<exists>s st' s2 st2. appendEvent (JStr ''t0'') JUndef demo_event demo_store = Inr (s, st') \<and>
     getSnapshot JNull ''ab12'' True
        (createLiveSessionStore (st_primary st') (st_legacy st') (st_snapshots st')) = Inr (Some s2, st2) \<and>
     core s2 = core s"
proof -
  obtain s st' where a: "appendEvent (JStr ''t0'') JUndef demo_event demo_store = Inr (s, st')"
    using demo_append by blast
  show ?thesis
    using restart_after_append [OF demo_reach _ demo_normal demo_writes_back a, of JNull] a by auto
qed

definition demo_line :: "int \<Rightarrow> (string \<times> jsval) list \<Rightarrow> journal_line" where
  "demo_line k ev = JLine (JObj [(''seq'', JInt k), (''ts'', JStr ''t''), (''event'', JObj ev)])"

definition demo_files :: "journal_line list dir" where
  "demo_files = [(''b2'', [demo_line 1 [(''type'', JStr ''generate''), (''count'', JInt 2)]]),
     (''a1'', [demo_line 1 [(''type'', JStr ''complete'')]])]"

theorem listActiveSessions_eq_witness:
  "\<exists>st'. listActiveSessions JNull (createLiveSessionStore demo_files [] []) =
     Inr (live_snapshots JNull (readable_journal (createLiveSessionStore demo_files [] [])) [''a1'', ''b2''], st')"
proof -
  have "session_ids (createLiveSessionStore demo_files [] []) = [''a1'', ''b2'']" by code_simp
  moreover have "safeSessionId ''a1'' = Inr ''a1''" "safeSessionId ''b2'' = Inr ''b2''"
    by code_simp+
  ultimately show ?thesis
    using listActiveSessions_eq [of "createLiveSessionStore demo_files [] []" JNull] by auto
qed

definition demo_journal :: "journal_line list" where
  "demo_journal = [demo_line 1 [(''type'', JStr ''generate''), (''count'', JInt 2)], JBad ''torn'',
     demo_line 2 [(''type'', JStr ''checkpoint''), (''revision'', JInt 4), (''phase'', JStr ''cycling'')]]"

theorem pending_pair_witness:
  "sn_pendingEventSeq (rb_snapshot (rebuildSnapshotFromJournal JNull (Some demo_journal) ''b2'')) \<noteq> JNull"
proof -
  have "sequenced demo_journal" by (simp add: sequenced_def demo_journal_def demo_line_def)
  note p = pending_pair [OF this, of JNull "''b2''"]
  have "sn_pendingEvent (rb_snapshot (rebuildSnapshotFromJournal JNull (Some demo_journal) ''b2'')) \<noteq> JNull"
    by code_simp
  with p show ?thesis by simp
qed

theorem late_checkpoint_ignored_witness:
  "\<exists>d. applyEvent JNull ((baseSnapshot ''b2'')\<lparr>sn_checkpointRevision := JInt 5\<rparr>)
      (JObj [(''type'', JStr ''checkpoint''), (''revision'', JInt 4)]) [] =
    with_diags [d] (stamp JNull (JObj [(''type'', JStr ''checkpoint''), (''revision'', JInt 4)])
      ((baseSnapshot ''b2'')\<lparr>sn_checkpointRevision := JInt 5\<rparr>))"
  using late_checkpoint_ignored [of "JObj [(''type'', JStr ''checkpoint''), (''revision'', JInt 4)]"
      "(baseSnapshot ''b2'')\<lparr>sn_checkpointRevision := JInt 5\<rparr>" 4 5 JNull]
  by (auto simp: entry_event_def js_or_def baseSnapshot_def)

theorem checkpoint_revision_monotone_witness:
  "\<exists>a b. sn_checkpointRevision (rb_snapshot (rebuildSnapshotFromJournal JNull (Some (take 1 demo_journal)) ''b2'')) = JInt a \<and>
     sn_checkpointRevision (rb_snapshot (rebuildSnapshotFromJournal JNull (Some demo_journal) ''b2'')) = JInt b \<and> a \<le> b"
proof -
  have "int_revisions (take 1 demo_journal @ drop 1 demo_journal)" by code_simp
  from checkpoint_revision_monotone [OF this, of JNull "''b2''"] show ?thesis by simp
qed

theorem safe_id_stays_inside_witness: "CHR ''/'' \<notin> set ''ab_12''"
proof -
  have "safeSessionId ''ab_12'' = Inr ''ab_12''" by code_simp
  from safe_id_stays_inside [OF this] show ?thesis by blast
qed

section \<open>The store as an interface\<close>

definition settle_kind :: "jsval \<Rightarrow> bool" where
  "settle_kind ty \<longleftrightarrow> ty \<in> JStr ` set [''variants_ready'', ''agent_done'', ''steer_done'', ''discarded'',
     ''complete'', ''agent_error'']"

text \<open>
  What the server relies on: appending an admissible event to a session gives, in what a restart
  would see of that session, the snapshot that was returned (up to its diagnostics), requests
  become the pending event, replies clear it, and the other sessions are not touched.
\<close>

locale session_log =
  fixes ok :: "'s \<Rightarrow> bool"
    and view :: "'s \<Rightarrow> string \<Rightarrow> snapshot"
    and append :: "jsval \<Rightarrow> 's \<Rightarrow> string + (snapshot \<times> 's)"
    and admissible :: "jsval \<Rightarrow> string \<Rightarrow> jsval \<Rightarrow> bool"  \<comment> \<open>event, its session, the event as stored\<close>
  assumes append_ok: "ok s \<Longrightarrow> admissible ev i nev \<Longrightarrow> append ev s = Inr (sn, s') \<Longrightarrow> ok s'"
    and append_view: "ok s \<Longrightarrow> admissible ev i nev \<Longrightarrow> append ev s = Inr (sn, s') \<Longrightarrow>
      core (view s' i) = core sn"
    and append_other: "ok s \<Longrightarrow> admissible ev i nev \<Longrightarrow> append ev s = Inr (sn, s') \<Longrightarrow> j \<noteq> i \<Longrightarrow>
      view s' j = view s j"
    and append_request: "ok s \<Longrightarrow> admissible ev i nev \<Longrightarrow> append ev s = Inr (sn, s') \<Longrightarrow>
      pending_kind (get_prop nev ''type'') \<Longrightarrow> sn_pendingEvent sn = toPendingEvent nev \<and>
      \<not> completed_phase (sn_phase sn)"
    and append_settle: "ok s \<Longrightarrow> admissible ev i nev \<Longrightarrow> append ev s = Inr (sn, s') \<Longrightarrow>
      settle_kind (get_prop nev ''type'') \<Longrightarrow> sn_pendingEvent sn = JNull"
begin

lemma view_fields:
  assumes "ok s" "admissible ev i nev" "append ev s = Inr (sn, s')"
  shows "sn_pendingEvent (view s' i) = sn_pendingEvent sn" "sn_phase (view s' i) = sn_phase sn"
  using append_view [OF assms] core_fields(1,2) by metis+

lemma request_is_pending:
  assumes "ok s" "admissible ev i nev" "append ev s = Inr (sn, s')" "pending_kind (get_prop nev ''type'')"
  shows "sn_pendingEvent (view s' i) = toPendingEvent nev \<and> \<not> completed_phase (sn_phase (view s' i))"
  using append_request [OF assms] view_fields [OF assms(1-3)] by simp

lemma reply_settles:
  assumes "ok s" "admissible ev i nev" "append ev s = Inr (sn, s')" "settle_kind (get_prop nev ''type'')"
  shows "sn_pendingEvent (view s' i) = JNull"
  using append_settle [OF assms] view_fields [OF assms(1-3)] by simp

end

definition restart_view :: "store \<Rightarrow> string \<Rightarrow> snapshot" where
  "restart_view st i = rb_snapshot (rebuildSnapshotFromJournal JNull (readable_journal st i) i)"

definition storable_event :: "jsval \<Rightarrow> string \<Rightarrow> jsval \<Rightarrow> bool" where
  "storable_event ev i nev \<longleftrightarrow> normalizeEvent ev JUndef = Inr (i, nev) \<and> writes_back nev"

lemma appendEvent_snapshot:
  assumes "normalizeEvent ev sid = Inr (i, nev)" "appendEvent now sid ev st = Inr (sn, st')"
  shows "\<exists>s k inh. sn = applyEvent now s (make_entry k i now nev) inh"
  using assms by (auto simp: appendEvent_def Let_def split_def split: sum.splits)

lemma make_entry_props [simp]:
  "get_prop (make_entry k i now ev) ''event'' = ev" "get_prop (make_entry k i now ev) ''seq'' = JInt k"
  "get_prop (make_entry k i now ev) ''ts'' = now"
  by (simp_all add: make_entry_def)

lemma request_phases [store_simps]:
  "sn_phase (on_generate q ev x) = JStr ''generate_requested''"
  "sn_phase (on_accept q ev x) = JStr ''accept_requested''"
  "sn_phase (on_page_request ph q ev x) = JStr ph"
  "sn_phase (on_discard q ev x) = JStr ''discard_requested''"
  by (simp_all add: on_generate_def on_accept_def on_page_request_def on_discard_def set_pending_def
      take_params_def Let_def)

lemma request_phase:
  assumes "pending_kind (get_prop ev ''type'')" "truthy ev"
  shows "\<not> completed_phase (sn_phase (applyEvent now s (make_entry k i now ev) inh))"
  using assms unfolding applyEvent_def dispatch_event_def Let_def
  by (auto simp: js_or_def pending_kind_def store_simps completed_phase_def)

interpretation sl: session_log store_reach restart_view "appendEvent (JStr (c # cs)) JUndef" storable_event
  for c cs
proof
  fix s s' :: store and ev nev :: jsval and i j :: string and sn :: snapshot
  assume a: "store_reach s" "storable_event ev i nev"
    "appendEvent (JStr (c # cs)) JUndef ev s = Inr (sn, s')"
  then have n: "normalizeEvent ev JUndef = Inr (i, nev)" "writes_back nev"
    by (auto simp: storable_event_def)
  have ok: "coherent s" "stamped s" using store_reach_ok [OF a(1)] by auto
  have ne: "c # cs \<noteq> []" by simp
  note ef = appendEvent_effect [OF ok ne n a(3)]
  show r: "store_reach s'" by (rule store_reach.append [OF a(1) ne n a(3)])
  have c: "map_of (st_cache s') i \<noteq> None \<and> (\<forall>r. map_of (st_cache s') i = Some r \<longrightarrow> rb_snapshot r = sn)"
    by (rule ef) auto
  then show "core (restart_view s' i) = core sn"
    using store_reach_ok [OF r] by (auto simp: restart_view_def coherent_def same_state_def)
  show "restart_view s' j = restart_view s j" if "j \<noteq> i"
    using that by (auto intro: ef simp: restart_view_def)
  obtain x k inh where sn: "sn = applyEvent (JStr (c # cs)) x (make_entry k i (JStr (c # cs)) nev) inh"
    using appendEvent_snapshot [OF n(1) a(3)] by blast
  have t: "truthy nev" using normalizeEvent_Inr [OF n(1)] by (simp add: set_prop_def)
  have p: "pending_fields sn = (let ty = get_prop nev ''type'' in
      if pending_kind ty then (JInt k, toPendingEvent nev)
      else if settle_kind ty then (JNull, JNull) else pending_fields x)"
    unfolding sn applyEvent_pending by (simp add: Let_def js_or_def t settle_kind_def)
  show "sn_pendingEvent sn = toPendingEvent nev \<and> \<not> completed_phase (sn_phase sn)"
    if "pending_kind (get_prop nev ''type'')"
    using p that request_phase [OF that t] by (simp add: pending_fields_def sn)
  show "sn_pendingEvent sn = JNull" if "settle_kind (get_prop nev ''type'')"
  proof -
    have "\<not> pending_kind (get_prop nev ''type'')"
      using that by (auto simp: settle_kind_def pending_kind_def)
    with p that show ?thesis by (simp add: pending_fields_def)
  qed
qed

end
