(* ===== verification/EventValidation.thy ===== *)
theory EventValidation
  imports SessionStore
begin

text \<open>
  The validator of browser events (\<open>live/event-validation.mjs\<close>), the action vocabulary it checks
  against (\<open>live/vocabulary.mjs\<close>) and the rule for an insert session it shares with the browser
  (\<open>canCreateInsert\<close> of \<open>live/insert-ui.mjs\<close>).

  \<open>validateEvent\<close> returns null or an error text; \<open>Throws\<close> is the TypeError of reading a property of
  null or undefined.
\<close>

datatype verdict = Accepted | Rejected string | Throws

section \<open>Vocabulary\<close>

text \<open>The \<open>value\<close> fields of \<open>LIVE_COMMANDS\<close>, in palette order.\<close>

definition VISUAL_ACTIONS :: "string list" where
  "VISUAL_ACTIONS =
     [''impeccable'', ''bolder'', ''quieter'', ''distill'', ''polish'', ''typeset'', ''colorize'',
      ''layout'', ''adapt'', ''animate'', ''delight'', ''overdrive'']"

section \<open>Field checks\<close>

definition is_hex_lower :: "char \<Rightarrow> bool" where
  "is_hex_lower c \<longleftrightarrow> is_digit c \<or> (97 \<le> code c \<and> code c \<le> 102)"

definition ID_PATTERN :: re where
  "ID_PATTERN = RSeqs [RBol, RRep True 8 (Some 8) (RCls is_hex_lower), REol]"

definition VARIANT_ID_PATTERN :: re where
  "VARIANT_ID_PATTERN = RSeqs [RBol, RRep True 1 (Some 3) (RCls is_digit), REol]"

fun isValidId :: "jsval \<Rightarrow> bool" where
  "isValidId (JStr s) = re_test ID_PATTERN s"
| "isValidId _ = False"

fun isValidVariantId :: "jsval \<Rightarrow> bool" where
  "isValidVariantId (JStr s) = re_test VARIANT_ID_PATTERN s"
| "isValidVariantId _ = False"

definition FORBIDDEN_MANUAL_EDIT_TEXT_CHARS :: "string list" where
  "FORBIDDEN_MANUAL_EDIT_TEXT_CHARS = [''<'', ''{'', ''}'', [CHR 0x60]]"

text \<open>\<open>None\<close> is the \<open>null\<close> of a text without forbidden characters.\<close>

definition validateManualEditText :: "string \<Rightarrow> string list option" where
  "validateManualEditText newText =
     (let hits = filter (\<lambda>ch. str_includes newText ch) FORBIDDEN_MANUAL_EDIT_TEXT_CHARS
      in if hits \<noteq> [] then Some hits else None)"

definition validateAnnotationFields :: "jsval \<Rightarrow> verdict" where
  "validateAnnotationFields msg =
     (if get_prop msg ''screenshotPath'' \<noteq> JUndef \<and> \<not> is_string (get_prop msg ''screenshotPath'')
      then Rejected ''generate: screenshotPath must be string''
      else if get_prop msg ''comments'' \<noteq> JUndef \<and> \<not> is_array (get_prop msg ''comments'')
      then Rejected ''generate: comments must be array''
      else if get_prop msg ''strokes'' \<noteq> JUndef \<and> \<not> is_array (get_prop msg ''strokes'')
      then Rejected ''generate: strokes must be array''
      else Accepted)"

fun arr_elems :: "jsval \<Rightarrow> jsval list" where
  "arr_elems (JArr xs) = xs"
| "arr_elems _ = []"

fun str_of :: "jsval \<Rightarrow> string" where
  "str_of (JStr s) = s"
| "str_of _ = []"

definition canCreateInsert :: "jsval \<Rightarrow> jsval \<Rightarrow> jsval \<Rightarrow> bool" where
  "canCreateInsert prompt comments strokes =
     (let hasPrompt = is_string prompt \<and> trim (str_of prompt) \<noteq> [];
          hasComments = is_array comments \<and> arr_elems comments \<noteq> [];
          hasStrokes = is_array strokes \<and>
            list_ex (\<lambda>s. is_array (get_prop s ''points'') \<and> 2 \<le> length (arr_elems (get_prop s ''points'')))
              (arr_elems strokes)
      in hasPrompt \<or> hasComments \<or> hasStrokes)"

definition insertCreateDisabledReason :: "jsval \<Rightarrow> jsval \<Rightarrow> jsval \<Rightarrow> string option" where
  "insertCreateDisabledReason prompt comments strokes =
     (if canCreateInsert prompt comments strokes then None
      else Some ''Add a prompt or annotate the placeholder to create'')"

section \<open>Generate\<close>

definition validateInsertGenerate :: "jsval \<Rightarrow> verdict" where
  "validateInsertGenerate msg =
     (let ins = get_prop msg ''insert''; anchor = get_prop ins ''anchor'';
          ph = get_prop msg ''placeholder'' in
      if \<not> truthy ins \<or> \<not> typeof_object ins
      then Rejected ''generate: insert mode requires insert object''
      else if \<not> (get_prop ins ''position'' = JStr ''before'' \<or> get_prop ins ''position'' = JStr ''after'')
      then Rejected ''generate: insert.position must be before or after''
      else if \<not> truthy anchor \<or> \<not> typeof_object anchor
      then Rejected ''generate: insert.anchor required''
      else if \<not> truthy (get_prop anchor ''tagName'') \<and> \<not> truthy (get_prop anchor ''outerHTML'') \<and>
              \<not> (is_array (get_prop anchor ''classes'') \<and> arr_elems (get_prop anchor ''classes'') \<noteq> [])
      then Rejected ''generate: insert.anchor needs tagName, classes, or outerHTML''
      else if \<not> truthy ph \<or> \<not> typeof_object ph
      then Rejected ''generate: insert mode requires placeholder dimensions''
      else if \<not> is_finite_number (get_prop ph ''width'') \<or> \<not> is_finite_number (get_prop ph ''height'')
      then Rejected ''generate: placeholder width and height must be numbers''
      else if \<not> canCreateInsert (get_prop msg ''freeformPrompt'') (get_prop msg ''comments'')
                 (get_prop msg ''strokes'')
      then Rejected ''generate: insert requires freeformPrompt or annotations''
      else validateAnnotationFields msg)"

definition is_visual_action :: "jsval \<Rightarrow> bool" where
  "is_visual_action v \<longleftrightarrow> is_string v \<and> str_of v \<in> set VISUAL_ACTIONS"

definition validateReplaceGenerate :: "jsval \<Rightarrow> verdict" where
  "validateReplaceGenerate msg =
     (if \<not> truthy (get_prop msg ''action'') \<or> \<not> is_visual_action (get_prop msg ''action'')
      then Rejected ''generate: invalid action''
      else if \<not> truthy (get_prop msg ''element'') \<or>
              \<not> truthy (get_prop (get_prop msg ''element'') ''outerHTML'')
      then Rejected ''generate: missing element context''
      else validateAnnotationFields msg)"

section \<open>Manual edits\<close>

text \<open>The body of the loop over the operations; \<open>None\<close> goes on with the next one.\<close>

definition validateManualEditOp :: "string \<Rightarrow> jsval \<Rightarrow> verdict option" where
  "validateManualEditOp label op =
     (if nullish op then Some Throws
      else let newText = get_prop op ''newText''; deleted = (get_prop op ''deleted'' = JBool True) in
      if \<not> is_string (get_prop op ''ref'') then Some (Rejected (label @ '': op.ref required''))
      else if \<not> is_string (get_prop op ''tag'') then Some (Rejected (label @ '': op.tag required''))
      else if \<not> is_string (get_prop op ''originalText'')
      then Some (Rejected (label @ '': op.originalText required''))
      else if \<not> deleted \<and> \<not> is_string newText
      then Some (Rejected (label @ '': text op requires newText''))
      else if is_string newText
      then (if \<not> deleted \<and> trim (str_of newText) = []
            then Some (Rejected (label @ '': newText cannot be empty''))
            else case validateManualEditText (str_of newText) of
                   Some hits \<Rightarrow>
                     Some (Rejected (label @ '': newText cannot contain '' @ join '' '' hits @
                       '' (plain text only; ask the AI to insert markup)''))
                 | None \<Rightarrow> None)
      else None)"

fun validateManualEditOps :: "string \<Rightarrow> jsval list \<Rightarrow> verdict" where
  "validateManualEditOps label [] = Accepted"
| "validateManualEditOps label (op # ops) =
     (case validateManualEditOp label op of Some v \<Rightarrow> v | None \<Rightarrow> validateManualEditOps label ops)"

definition validateManualEditEvent :: "jsval \<Rightarrow> string \<Rightarrow> verdict" where
  "validateManualEditEvent msg label =
     (if \<not> isValidId (get_prop msg ''id'') then Rejected (label @ '': missing or malformed id'')
      else if \<not> truthy (get_prop msg ''pageUrl'') \<or> \<not> is_string (get_prop msg ''pageUrl'')
      then Rejected (label @ '': missing pageUrl'')
      else if \<not> truthy (get_prop msg ''element'') \<or> \<not> typeof_object (get_prop msg ''element'')
      then Rejected (label @ '': missing element'')
      else if \<not> is_array (get_prop msg ''ops'') \<or> arr_elems (get_prop msg ''ops'') = []
      then Rejected (label @ '': ops must be non-empty array'')
      else if 100 < length (arr_elems (get_prop msg ''ops''))
      then Rejected (label @ '': too many ops (max 100)'')
      else validateManualEditOps label (arr_elems (get_prop msg ''ops'')))"

section \<open>All events\<close>

text \<open>An object and neither null nor an array.\<close>

definition is_plain_object :: "jsval \<Rightarrow> bool" where
  "is_plain_object v \<longleftrightarrow> typeof_object v \<and> v \<noteq> JNull \<and> \<not> is_array v"

definition validateGenerate :: "jsval \<Rightarrow> verdict" where
  "validateGenerate msg =
     (if \<not> isValidId (get_prop msg ''id'') then Rejected ''generate: missing or malformed id''
      else if \<not> (case get_prop msg ''count'' of JInt n \<Rightarrow> 1 \<le> n \<and> n \<le> 8 | _ \<Rightarrow> False)
      then Rejected ''generate: count must be 1-8''
      else if get_prop msg ''mode'' = JStr ''insert'' then validateInsertGenerate msg
      else validateReplaceGenerate msg)"

definition validateAccept :: "jsval \<Rightarrow> verdict" where
  "validateAccept msg =
     (if \<not> isValidId (get_prop msg ''id'') then Rejected ''accept: missing or malformed id''
      else if \<not> isValidVariantId (get_prop msg ''variantId'')
      then Rejected ''accept: missing or malformed variantId''
      else if get_prop msg ''paramValues'' \<noteq> JUndef \<and> \<not> is_plain_object (get_prop msg ''paramValues'')
      then Rejected ''accept: paramValues must be an object''
      else Accepted)"

definition validateCheckpoint :: "jsval \<Rightarrow> verdict" where
  "validateCheckpoint msg =
     (if \<not> isValidId (get_prop msg ''id'') then Rejected ''checkpoint: missing or malformed id''
      else if \<not> (case get_prop msg ''revision'' of JInt n \<Rightarrow> 0 \<le> n | _ \<Rightarrow> False)
      then Rejected ''checkpoint: revision must be a non-negative integer''
      else if get_prop msg ''paramValues'' \<noteq> JUndef \<and> \<not> is_plain_object (get_prop msg ''paramValues'')
      then Rejected ''checkpoint: paramValues must be an object''
      else Accepted)"

definition validateSteer :: "jsval \<Rightarrow> verdict" where
  "validateSteer msg =
     (let m = get_prop msg ''message'' in
      if \<not> isValidId (get_prop msg ''id'') then Rejected ''steer: missing or malformed id''
      else if \<not> is_string m \<or> trim (str_of m) = [] then Rejected ''steer: message required''
      else if 4000 < length (str_of m) then Rejected ''steer: message too long''
      else if get_prop msg ''pageUrl'' \<noteq> JUndef \<and> \<not> is_string (get_prop msg ''pageUrl'')
      then Rejected ''steer: pageUrl must be string''
      else Accepted)"

definition validateEvent :: "jsval \<Rightarrow> verdict" where
  "validateEvent msg =
     (let ty = get_prop msg ''type'' in
      if \<not> truthy msg \<or> \<not> typeof_object msg \<or> \<not> truthy ty then Rejected ''Missing or invalid message''
      else if ty = JStr ''generate'' then validateGenerate msg
      else if ty = JStr ''accept'' then validateAccept msg
      else if ty = JStr ''discard''
      then (if isValidId (get_prop msg ''id'') then Accepted
            else Rejected ''discard: missing or malformed id'')
      else if ty = JStr ''checkpoint'' then validateCheckpoint msg
      else if ty = JStr ''exit'' then Accepted
      else if ty = JStr ''prefetch''
      then (if \<not> truthy (get_prop msg ''pageUrl'') \<or> \<not> is_string (get_prop msg ''pageUrl'')
            then Rejected ''prefetch: missing pageUrl'' else Accepted)
      else if ty = JStr ''manual_edits'' then validateManualEditEvent msg ''manual_edits''
      else if ty = JStr ''steer'' then validateSteer msg
      else Rejected (''Unknown event type: '' @ to_str ty))"

section \<open>Lemmas\<close>

lemma id_pattern: "re_test ID_PATTERN s \<longleftrightarrow> length s = 8 \<and> list_all is_hex_lower s"
  unfolding ID_PATTERN_def by (subst anchored_class_test) auto

lemma variant_id_pattern:
  "re_test VARIANT_ID_PATTERN s \<longleftrightarrow> 1 \<le> length s \<and> length s \<le> 3 \<and> list_all is_digit s"
  unfolding VARIANT_ID_PATTERN_def by (subst anchored_class_test) auto

lemma isValidId_iff:
  "isValidId v \<longleftrightarrow> (\<exists>s. v = JStr s \<and> length s = 8 \<and> list_all is_hex_lower s)"
  by (cases v) (simp_all add: id_pattern)

lemma isValidVariantId_iff:
  "isValidVariantId v \<longleftrightarrow> (\<exists>s. v = JStr s \<and> 1 \<le> length s \<and> length s \<le> 3 \<and> list_all is_digit s)"
  by (cases v) (simp_all add: variant_id_pattern)

lemma valid_id_safe:
  assumes "isValidId v"
  obtains s where "v = JStr s" "s \<noteq> []" "safeSessionId s = Inr s"
proof -
  obtain s where s: "v = JStr s" "length s = 8" "list_all is_hex_lower s"
    using assms by (auto simp: isValidId_iff)
  have "is_hex_lower c \<Longrightarrow> is_alpha c \<or> is_digit c" for c
    by (auto simp: is_hex_lower_def is_alpha_def is_lower_def)
  then have "list_all (\<lambda>c. is_alpha c \<or> is_digit c \<or> c \<in> set ''_-'') s"
    using s(3) by (auto simp: list_all_iff)
  then have "safeSessionId s = Inr s"
    using s(2) by (simp add: safeSessionId_iff)
  moreover have "s \<noteq> []" using s(2) by auto
  ultimately show thesis using that s(1) by blast
qed

lemma validateManualEditText_None:
  "validateManualEditText s = None \<longleftrightarrow> (\<forall>ch \<in> set FORBIDDEN_MANUAL_EDIT_TEXT_CHARS. \<not> str_includes s ch)"
  by (auto simp: validateManualEditText_def Let_def filter_empty_conv)

lemma str_includes_char: "str_includes s [c] \<longleftrightarrow> c \<in> set s"
  by (induction s) (auto simp: str_includes_def starts_with_def)

lemma validateManualEditText_chars:
  "validateManualEditText s = None \<longleftrightarrow>
     CHR ''<'' \<notin> set s \<and> CHR ''{'' \<notin> set s \<and> CHR ''}'' \<notin> set s \<and> CHR 0x60 \<notin> set s"
  by (simp add: validateManualEditText_None FORBIDDEN_MANUAL_EDIT_TEXT_CHARS_def str_includes_char)

lemma rejected_neq_throws [simp]:
  "validateAnnotationFields msg \<noteq> Throws" "validateInsertGenerate msg \<noteq> Throws"
  "validateReplaceGenerate msg \<noteq> Throws"
proof -
  show a: "validateAnnotationFields msg \<noteq> Throws" for msg
    by (simp add: validateAnnotationFields_def)
  show "validateInsertGenerate msg \<noteq> Throws" "validateReplaceGenerate msg \<noteq> Throws"
    by (simp_all add: validateInsertGenerate_def validateReplaceGenerate_def Let_def a)
qed

lemma validateEvent_cases:
  assumes "validateEvent msg = Accepted"
  shows "truthy msg" "typeof_object msg"
    "get_prop msg ''type'' = JStr ''generate'' \<Longrightarrow> validateGenerate msg = Accepted"
    "get_prop msg ''type'' = JStr ''accept'' \<Longrightarrow> validateAccept msg = Accepted"
    "get_prop msg ''type'' = JStr ''discard'' \<Longrightarrow> isValidId (get_prop msg ''id'')"
    "get_prop msg ''type'' = JStr ''checkpoint'' \<Longrightarrow> validateCheckpoint msg = Accepted"
    "get_prop msg ''type'' = JStr ''manual_edits'' \<Longrightarrow> validateManualEditEvent msg ''manual_edits'' = Accepted"
    "get_prop msg ''type'' = JStr ''steer'' \<Longrightarrow> validateSteer msg = Accepted"
    "get_prop msg ''type'' \<in> JStr ` set [''generate'', ''accept'', ''discard'', ''checkpoint'', ''exit'',
       ''prefetch'', ''manual_edits'', ''steer'']"
  using assms by (auto simp: validateEvent_def Let_def split: if_splits)

lemma no_throw:
  "get_prop msg ''type'' \<noteq> JStr ''manual_edits'' \<Longrightarrow> validateEvent msg \<noteq> Throws"
  by (simp add: validateEvent_def Let_def validateGenerate_def validateAccept_def validateCheckpoint_def
      validateSteer_def)

text \<open>The validator returns a verdict on every message except that a \<open>manual_edits\<close> batch holding
  null or undefined as an operation makes it throw.\<close>

theorem validateEvent_no_throw:
  assumes "get_prop msg ''type'' \<noteq> JStr ''manual_edits''"
  shows "validateEvent msg \<noteq> Throws"
  by (rule no_throw [OF assms])

theorem validateEvent_no_throw_witness: "validateEvent (JArr [JNull]) \<noteq> Throws"
  by (rule validateEvent_no_throw) simp

text \<open>The kinds of event that open or act on a session.\<close>

definition session_kinds :: "jsval set" where
  "session_kinds = JStr ` set [''generate'', ''accept'', ''discard'', ''checkpoint'', ''manual_edits'', ''steer'']"

lemma accepted_id:
  assumes "validateEvent msg = Accepted" "get_prop msg ''type'' \<in> session_kinds"
  shows "isValidId (get_prop msg ''id'')"
  using validateEvent_cases [OF assms(1)] assms(2)
  by (auto simp: session_kinds_def validateGenerate_def validateAccept_def validateCheckpoint_def
      validateSteer_def validateManualEditEvent_def Let_def split: if_splits)

text \<open>C29: An accepted event of a session kind can always be stored: its id is a non-empty safe session
  id, so \<open>appendEvent\<close> succeeds on it in any store, whatever the fall-back id is.\<close>

theorem accepted_event_is_storable:
  assumes "validateEvent msg = Accepted" "get_prop msg ''type'' \<in> session_kinds"
  shows "\<exists>i s st'. get_prop msg ''id'' = JStr i \<and> safeSessionId i = Inr i \<and>
    appendEvent now fallback msg st = Inr (s, st')"
proof -
  obtain i where i: "get_prop msg ''id'' = JStr i" "i \<noteq> []" "safeSessionId i = Inr i"
    using valid_id_safe [OF accepted_id [OF assms]] by blast
  have "normalizeEvent msg fallback = Inr (i, set_prop msg ''id'' (JStr i))"
    using validateEvent_cases(1,2) [OF assms(1)] assms(2) i
    by (auto simp: normalizeEvent_def js_or_def session_kinds_def)
  then show ?thesis
    using i by (simp add: appendEvent_def split_def Let_def)
qed

theorem accepted_event_is_storable_witness:
  "\<exists>i s st'. get_prop (JObj [(''type'', JStr ''discard''), (''id'', JStr ''0123abcd'')]) ''id'' = JStr i \<and>
    safeSessionId i = Inr i \<and>
    appendEvent (JStr ''t'') JUndef (JObj [(''type'', JStr ''discard''), (''id'', JStr ''0123abcd'')]) demo_store = Inr (s, st')"
proof (rule accepted_event_is_storable)
  show "validateEvent (JObj [(''type'', JStr ''discard''), (''id'', JStr ''0123abcd'')]) = Accepted"
    by code_simp
qed (simp add: session_kinds_def)

text \<open>An accepted \<open>generate\<close> asks for 1 to 8 variants and either is an insert with a position, an
  identifiable anchor, numeric placeholder dimensions and something to go by (a prompt or an
  annotation), or names an action of the vocabulary and an element with its markup.\<close>

theorem accepted_generate:
  assumes "validateEvent msg = Accepted" "get_prop msg ''type'' = JStr ''generate''"
  shows "(\<exists>n. get_prop msg ''count'' = JInt n \<and> 1 \<le> n \<and> n \<le> 8) \<and>
    (if get_prop msg ''mode'' = JStr ''insert''
     then get_prop (get_prop msg ''insert'') ''position'' \<in> {JStr ''before'', JStr ''after''} \<and>
       is_finite_number (get_prop (get_prop msg ''placeholder'') ''width'') \<and>
       is_finite_number (get_prop (get_prop msg ''placeholder'') ''height'') \<and>
       canCreateInsert (get_prop msg ''freeformPrompt'') (get_prop msg ''comments'') (get_prop msg ''strokes'')
     else (\<exists>a \<in> set VISUAL_ACTIONS. get_prop msg ''action'' = JStr a) \<and>
       truthy (get_prop (get_prop msg ''element'') ''outerHTML''))"
proof -
  have g: "validateGenerate msg = Accepted" by (rule validateEvent_cases(3) [OF assms])
  then have "\<exists>n. get_prop msg ''count'' = JInt n \<and> 1 \<le> n \<and> n \<le> 8"
    by (cases "get_prop msg ''count''") (auto simp: validateGenerate_def split: if_splits)
  moreover have "is_visual_action v \<Longrightarrow> \<exists>a \<in> set VISUAL_ACTIONS. v = JStr a" for v
    by (cases v) (auto simp: is_visual_action_def)
  ultimately show ?thesis
    using g by (cases "get_prop msg ''mode'' = JStr ''insert''")
      (auto simp: validateGenerate_def validateInsertGenerate_def validateReplaceGenerate_def Let_def
        split: if_splits)
qed

theorem accepted_generate_witness:
  "\<exists>a \<in> set VISUAL_ACTIONS. get_prop (JObj [(''type'', JStr ''generate''), (''id'', JStr ''0123abcd''),
      (''count'', JInt 3), (''action'', JStr ''bolder''),
      (''element'', JObj [(''outerHTML'', JStr ''p'')])]) ''action'' = JStr a"
proof -
  have "validateEvent (JObj [(''type'', JStr ''generate''), (''id'', JStr ''0123abcd''),
      (''count'', JInt 3), (''action'', JStr ''bolder''), (''element'', JObj [(''outerHTML'', JStr ''p'')])]) = Accepted"
    by code_simp
  from accepted_generate [OF this] show ?thesis by simp
qed

lemma validateManualEditOps_Accepted:
  "validateManualEditOps label ops = Accepted \<longleftrightarrow> (\<forall>op \<in> set ops. validateManualEditOp label op = None)"
proof (induction ops)
  case (Cons op ops)
  have "validateManualEditOp label op \<noteq> Some Accepted"
    by (auto simp: validateManualEditOp_def Let_def split: option.splits if_splits)
  with Cons show ?case by (auto split: option.splits)
qed simp

text \<open>An accepted batch of manual edits has 1 to 100 operations, each either a deletion or a plain
  text that is not blank, and no replacement text can open markup, an expression or a template
  literal.\<close>

theorem accepted_manual_edits:
  assumes "validateManualEditEvent msg label = Accepted"
  shows "\<exists>ops. get_prop msg ''ops'' = JArr ops \<and> 1 \<le> length ops \<and> length ops \<le> 100 \<and>
    (\<forall>op \<in> set ops.
       (get_prop op ''deleted'' = JBool True \<or> (\<exists>s. get_prop op ''newText'' = JStr s \<and> trim s \<noteq> [])) \<and>
       (\<forall>s. get_prop op ''newText'' = JStr s \<longrightarrow>
          CHR ''<'' \<notin> set s \<and> CHR ''{'' \<notin> set s \<and> CHR ''}'' \<notin> set s \<and> CHR 0x60 \<notin> set s))"
proof -
  obtain ops where ops: "get_prop msg ''ops'' = JArr ops" "ops \<noteq> []" "length ops \<le> 100"
    "validateManualEditOps label ops = Accepted"
    using assms by (cases "get_prop msg ''ops''")
      (auto simp: validateManualEditEvent_def split: if_splits)
  have "(get_prop op ''deleted'' = JBool True \<or> (\<exists>s. get_prop op ''newText'' = JStr s \<and> trim s \<noteq> [])) \<and>
       (\<forall>s. get_prop op ''newText'' = JStr s \<longrightarrow>
          CHR ''<'' \<notin> set s \<and> CHR ''{'' \<notin> set s \<and> CHR ''}'' \<notin> set s \<and> CHR 0x60 \<notin> set s)"
    if "op \<in> set ops" for op
  proof -
    have "validateManualEditOp label op = None"
      using ops(4) that by (simp add: validateManualEditOps_Accepted)
    then show ?thesis
      by (cases "get_prop op ''newText''")
        (auto simp: validateManualEditOp_def Let_def validateManualEditText_chars
          split: if_splits option.splits)
  qed
  with ops show ?thesis by (cases ops) auto
qed

theorem accepted_manual_edits_witness:
  "\<exists>ops. get_prop (JObj [(''id'', JStr ''0123abcd''), (''pageUrl'', JStr ''/''), (''element'', JObj []),
      (''ops'', JArr [JObj [(''ref'', JStr ''r''), (''tag'', JStr ''p''), (''originalText'', JStr ''a''),
         (''newText'', JStr ''b'')]])]) ''ops'' = JArr ops \<and> length ops \<le> 100"
proof -
  have "validateManualEditEvent (JObj [(''id'', JStr ''0123abcd''), (''pageUrl'', JStr ''/''), (''element'', JObj []),
      (''ops'', JArr [JObj [(''ref'', JStr ''r''), (''tag'', JStr ''p''), (''originalText'', JStr ''a''),
         (''newText'', JStr ''b'')]])]) ''x'' = Accepted"
    by code_simp
  from accepted_manual_edits [OF this] show ?thesis by blast
qed

end
