(* ===== verification/EventQueue.thy ===== *)
theory EventQueue
  imports EventValidation
begin

text \<open>
  The event queue of the live server (\<open>live-server.mjs\<close>): browser events wait in
  \<open>pendingEvents\<close>, an agent's long poll takes one under a lease, an acknowledged event leaves the
  queue, an expired lease makes it available again. The module state of the server is the record
  \<open>srv\<close>; what the handlers send (poll responses, SSE broadcasts) is appended to its \<open>outbox\<close>.

  The clock (\<open>Date.now()\<close>) is read once per operation and passed as \<open>now\<close>, in milliseconds since
  1970 and therefore positive. \<open>parseInt\<close> gives an integer or NaN (\<open>None\<close>); adding to NaN is NaN,
  and a lease with deadline NaN is falsy. A queue entry is identified by its \<open>seq\<close>, which stands for
  the object identity the code uses (\<open>indexOf(entry)\<close>).
\<close>

section \<open>State\<close>

record pent =
  pe_event :: jsval
  pe_leaseUntil :: "int option"
  pe_seq :: nat

record poll =
  po_id :: nat                       \<comment> \<open>the response object the poll resolves\<close>
  po_leaseMs :: "int option"

datatype emission =
    PollReply nat jsval              \<comment> \<open>200 on a parked or arriving poll\<close>
  | HttpReply nat nat jsval          \<comment> \<open>response object, status, body\<close>
  | Sse jsval                        \<comment> \<open>message to every connected browser\<close>

record srv =
  pendingEvents :: "pent list"
  pendingPolls :: "poll list"
  nextEventSeq :: nat
  lastAgentPollingBroadcast :: "bool option"
  leaseTimer :: "int option"         \<comment> \<open>when the timer fires\<close>
  lastPollAt :: int
  outbox :: "emission list"

definition init_srv :: srv where
  "init_srv = \<lparr>pendingEvents = [], pendingPolls = [], nextEventSeq = 1,
     lastAgentPollingBroadcast = None, leaseTimer = None, lastPollAt = 0, outbox = []\<rparr>"

definition CHAT_POLL_FRESHNESS_MS :: int where
  "CHAT_POLL_FRESHNESS_MS = 60000"

definition POLL_LEASE_EXPIRY_TIMER_GRACE_MS :: int where
  "POLL_LEASE_EXPIRY_TIMER_GRACE_MS = 2"

definition emit :: "emission \<Rightarrow> srv \<Rightarrow> srv" where
  "emit msg st = st\<lparr>outbox := outbox st @ [msg]\<rparr>"

definition chatAgentLikelyActive :: "int \<Rightarrow> srv \<Rightarrow> bool" where
  "chatAgentLikelyActive now st \<longleftrightarrow>
     (if pendingPolls st \<noteq> [] then True
      else if lastPollAt st = 0 then False
      else now - lastPollAt st < CHAT_POLL_FRESHNESS_MS)"

section \<open>Leases\<close>

text \<open>\<open>entry.leaseUntil && entry.leaseUntil > now\<close>.\<close>

definition leased :: "int \<Rightarrow> pent \<Rightarrow> bool" where
  "leased now e \<longleftrightarrow> (case pe_leaseUntil e of None \<Rightarrow> False | Some t \<Rightarrow> t \<noteq> 0 \<and> now < t)"

definition findAvailablePendingEvent :: "int \<Rightarrow> srv \<Rightarrow> pent option" where
  "findAvailablePendingEvent now st = find (\<lambda>e. \<not> leased now e) (pendingEvents st)"

definition agentPollingConnected :: "int \<Rightarrow> srv \<Rightarrow> bool" where
  "agentPollingConnected now st \<longleftrightarrow>
     pendingPolls st \<noteq> [] \<or> list_ex (leased now) (pendingEvents st)"

definition broadcastAgentPollingIfChanged :: "int \<Rightarrow> srv \<Rightarrow> srv" where
  "broadcastAgentPollingIfChanged now st =
     (let connected = agentPollingConnected now st in
      if lastAgentPollingBroadcast st = Some connected then st
      else emit (Sse (JObj [(''type'', JStr ''agent_polling''), (''connected'', JBool connected)]))
             (st\<lparr>lastAgentPollingBroadcast := Some connected\<rparr>))"

text \<open>The earliest deadline still ahead; the timer fires a grace period after it.\<close>

definition lease_deadlines :: "int \<Rightarrow> srv \<Rightarrow> int list" where
  "lease_deadlines now st =
     filter (\<lambda>t. now < t)
       (map (\<lambda>e. case pe_leaseUntil e of None \<Rightarrow> 0 | Some t \<Rightarrow> t) (pendingEvents st))"

definition scheduleLeaseFlush :: "int \<Rightarrow> srv \<Rightarrow> srv" where
  "scheduleLeaseFlush now st =
     (case sort (lease_deadlines now st) of
        [] \<Rightarrow> st\<lparr>leaseTimer := None\<rparr>
      | t # _ \<Rightarrow>
          if t = 0 then st\<lparr>leaseTimer := None\<rparr>
          else st\<lparr>leaseTimer := Some (now + max 0 (t - now + POLL_LEASE_EXPIRY_TIMER_GRACE_MS))\<rparr>)"

definition remove_seq :: "nat \<Rightarrow> pent list \<Rightarrow> pent list" where
  "remove_seq q es = filter (\<lambda>e. pe_seq e \<noteq> q) es"

definition set_lease :: "nat \<Rightarrow> int option \<Rightarrow> pent list \<Rightarrow> pent list" where
  "set_lease q t es = map (\<lambda>e. if pe_seq e = q then e\<lparr>pe_leaseUntil := t\<rparr> else e) es"

text \<open>An event without an id cannot be acknowledged: it is handed out once and dropped.\<close>

definition leaseEvent :: "int \<Rightarrow> pent \<Rightarrow> int option \<Rightarrow> srv \<Rightarrow> jsval \<times> srv" where
  "leaseEvent now e leaseMs st =
     (if \<not> truthy (get_prop (pe_event e) ''id'')
      then (pe_event e, st\<lparr>pendingEvents := remove_seq (pe_seq e) (pendingEvents st)\<rparr>)
      else (pe_event e,
            broadcastAgentPollingIfChanged now (scheduleLeaseFlush now
              (st\<lparr>pendingEvents := set_lease (pe_seq e) (map_option (\<lambda>ms. now + ms) leaseMs)
                     (pendingEvents st)\<rparr>))))"

section \<open>Delivery\<close>

text \<open>\<open>poll.resolve(event)\<close>.\<close>

definition resolve_poll :: "int \<Rightarrow> poll \<Rightarrow> jsval \<Rightarrow> srv \<Rightarrow> srv" where
  "resolve_poll now p ev st = emit (PollReply (po_id p) ev) (st\<lparr>lastPollAt := now\<rparr>)"

lemma polls_leaseEvent [simp]: "pendingPolls (snd (leaseEvent now e ms st)) = pendingPolls st"
  by (auto simp: leaseEvent_def broadcastAgentPollingIfChanged_def scheduleLeaseFlush_def emit_def
      Let_def split: list.splits)

lemma polls_resolve [simp]: "pendingPolls (resolve_poll now p ev st) = pendingPolls st"
  by (simp add: resolve_poll_def emit_def)

function flush_loop :: "int \<Rightarrow> bool \<Rightarrow> srv \<Rightarrow> srv" where
  "flush_loop now changed st =
     (case pendingPolls st of
        [] \<Rightarrow>
          let st1 = scheduleLeaseFlush now st
          in if changed then broadcastAgentPollingIfChanged now st1 else st1
      | p # ps \<Rightarrow>
          (case findAvailablePendingEvent now st of
             None \<Rightarrow> broadcastAgentPollingIfChanged now (scheduleLeaseFlush now st)
           | Some e \<Rightarrow>
               let r = leaseEvent now e (po_leaseMs p) (st\<lparr>pendingPolls := ps\<rparr>)
               in flush_loop now True (resolve_poll now p (fst r) (snd r))))"
  by pat_completeness auto
termination
  by (relation "measure (\<lambda>(now, changed, st). length (pendingPolls st))") auto

declare flush_loop.simps [simp del]

definition flushPendingPolls :: "int \<Rightarrow> srv \<Rightarrow> srv" where
  "flushPendingPolls now st = flush_loop now False st"

text \<open>
  \<open>===\<close> between two values decoded from different requests: equal primitives; objects and arrays
  are never the same object.
\<close>

fun strict_eq :: "jsval \<Rightarrow> jsval \<Rightarrow> bool" where
  "strict_eq JNaN _ = False"
| "strict_eq (JArr _) _ = False"
| "strict_eq (JObj _) _ = False"
| "strict_eq a b = (a = b)"

definition enqueueEvent :: "int \<Rightarrow> jsval \<Rightarrow> srv \<Rightarrow> srv" where
  "enqueueEvent now event st =
     (if \<not> truthy event \<or>
         (truthy (get_prop event ''id'') \<and>
          list_ex (\<lambda>e. strict_eq (get_prop (pe_event e) ''id'') (get_prop event ''id'') \<and>
                       strict_eq (get_prop (pe_event e) ''type'') (get_prop event ''type''))
            (pendingEvents st))
      then st
      else flushPendingPolls now
             (st\<lparr>pendingEvents := pendingEvents st @
                   [\<lparr>pe_event = event, pe_leaseUntil = Some 0, pe_seq = nextEventSeq st\<rparr>],
                 nextEventSeq := nextEventSeq st + 1\<rparr>))"

definition restorePendingEventsFromStore :: "int \<Rightarrow> snapshot list \<Rightarrow> srv \<Rightarrow> srv" where
  "restorePendingEventsFromStore now active st =
     fold (\<lambda>s st. if truthy (sn_pendingEvent s) then enqueueEvent now (sn_pendingEvent s) st else st)
       active st"

text \<open>\<open>findIndex(entry.event?.id === id)\<close>, as the entry found.\<close>

definition entry_with_id :: "jsval \<Rightarrow> srv \<Rightarrow> pent option" where
  "entry_with_id i st = find (\<lambda>e. strict_eq (get_prop (pe_event e) ''id'') i) (pendingEvents st)"

definition acknowledgePendingEvent :: "int \<Rightarrow> jsval \<Rightarrow> srv \<Rightarrow> jsval \<times> srv" where
  "acknowledgePendingEvent now i st =
     (if \<not> truthy i then (JBool False, st)
      else case entry_with_id i st of
             None \<Rightarrow> (JBool False, st)
           | Some e \<Rightarrow>
               (pe_event e,
                broadcastAgentPollingIfChanged now (scheduleLeaseFlush now
                  (st\<lparr>pendingEvents := remove_seq (pe_seq e) (pendingEvents st)\<rparr>))))"

definition findPendingEventById :: "jsval \<Rightarrow> srv \<Rightarrow> jsval" where
  "findPendingEventById i st =
     (if \<not> truthy i then JNull
      else case entry_with_id i st of None \<Rightarrow> JNull | Some e \<Rightarrow> js_or (pe_event e) JNull)"

definition anonymous_exit :: "pent \<Rightarrow> bool" where
  "anonymous_exit e \<longleftrightarrow>
     get_prop (pe_event e) ''type'' = JStr ''exit'' \<and> \<not> truthy (get_prop (pe_event e) ''id'')"

definition cancelQueuedAnonymousExitEvents :: "int \<Rightarrow> srv \<Rightarrow> nat \<times> srv" where
  "cancelQueuedAnonymousExitEvents now st =
     (let kept = filter (\<lambda>e. \<not> anonymous_exit e) (pendingEvents st);
          removed = length (pendingEvents st) - length kept;
          st1 = st\<lparr>pendingEvents := kept\<rparr>
      in (removed,
          if 0 < removed then broadcastAgentPollingIfChanged now (scheduleLeaseFlush now st1) else st1))"

text \<open>What the lease timer runs.\<close>

definition lease_timer_fires :: "int \<Rightarrow> srv \<Rightarrow> srv" where
  "lease_timer_fires now st =
     broadcastAgentPollingIfChanged now (flushPendingPolls now (st\<lparr>leaseTimer := None\<rparr>))"

section \<open>GET /poll\<close>

definition handlePollGet :: "int \<Rightarrow> bool \<Rightarrow> nat \<Rightarrow> int option \<Rightarrow> srv \<Rightarrow> srv" where
  "handlePollGet now token_ok res leaseMs st =
     (if \<not> token_ok
      then emit (HttpReply res 401 (JObj [(''error'', JStr ''Unauthorized'')])) st
      else let st0 = st\<lparr>lastPollAt := now\<rparr> in
        (case findAvailablePendingEvent now st0 of
           Some e \<Rightarrow>
             let r = leaseEvent now e leaseMs st0 in emit (PollReply res (fst r)) (snd r)
         | None \<Rightarrow>
             scheduleLeaseFlush now (broadcastAgentPollingIfChanged now
               (st0\<lparr>pendingPolls := pendingPolls st0 @ [\<lparr>po_id = res, po_leaseMs = leaseMs\<rparr>]\<rparr>))))"

definition drop_poll :: "nat \<Rightarrow> srv \<Rightarrow> srv" where
  "drop_poll res st = st\<lparr>pendingPolls := filter (\<lambda>p. po_id p \<noteq> res) (pendingPolls st)\<rparr>"

text \<open>The poll's own timer, and the client closing the connection.\<close>

definition poll_timeout :: "int \<Rightarrow> nat \<Rightarrow> srv \<Rightarrow> srv" where
  "poll_timeout now res st =
     emit (PollReply res (JObj [(''type'', JStr ''timeout'')]))
       (broadcastAgentPollingIfChanged now (drop_poll res st))"

definition poll_close :: "int \<Rightarrow> nat \<Rightarrow> srv \<Rightarrow> srv" where
  "poll_close now res st = broadcastAgentPollingIfChanged now (drop_poll res st)"

section \<open>Summaries for clients\<close>

definition summarizeActiveSessionForClient :: "snapshot \<Rightarrow> jsval" where
  "summarizeActiveSessionForClient s =
     JObj [(''id'', JStr (sn_id s)), (''phase'', sn_phase s),
       (''pageUrl'', coalesce (sn_pageUrl s) JNull),
       (''sourceFile'', coalesce (sn_sourceFile s) JNull),
       (''previewFile'', coalesce (sn_previewFile s) JNull),
       (''previewMode'', coalesce (sn_previewMode s) JNull),
       (''expectedVariants'', coalesce (sn_expectedVariants s) (JInt 0)),
       (''arrivedVariants'', coalesce (sn_arrivedVariants s) (JInt 0)),
       (''visibleVariant'', coalesce (sn_visibleVariant s) JNull),
       (''checkpointRevision'', coalesce (sn_checkpointRevision s) (JInt 0)),
       (''paramValues'', JObj (sn_paramValues s))]"

section \<open>Field equations\<close>

lemma emit_fields [simp, queue_simps]:
  "pendingEvents (emit m st) = pendingEvents st" "pendingPolls (emit m st) = pendingPolls st"
  "nextEventSeq (emit m st) = nextEventSeq st" "leaseTimer (emit m st) = leaseTimer st"
  "outbox (emit m st) = outbox st @ [m]"
  by (simp_all add: emit_def)

lemma broadcast_fields [simp, queue_simps]:
  "pendingEvents (broadcastAgentPollingIfChanged now st) = pendingEvents st"
  "pendingPolls (broadcastAgentPollingIfChanged now st) = pendingPolls st"
  "nextEventSeq (broadcastAgentPollingIfChanged now st) = nextEventSeq st"
  "leaseTimer (broadcastAgentPollingIfChanged now st) = leaseTimer st"
  "\<exists>ms. outbox (broadcastAgentPollingIfChanged now st) = outbox st @ ms"
  by (auto simp: broadcastAgentPollingIfChanged_def Let_def)

lemma schedule_fields [simp, queue_simps]:
  "pendingEvents (scheduleLeaseFlush now st) = pendingEvents st"
  "pendingPolls (scheduleLeaseFlush now st) = pendingPolls st"
  "nextEventSeq (scheduleLeaseFlush now st) = nextEventSeq st"
  "outbox (scheduleLeaseFlush now st) = outbox st"
  by (auto simp: scheduleLeaseFlush_def split: list.split)

lemma resolve_fields [simp, queue_simps]:
  "pendingEvents (resolve_poll now p ev st) = pendingEvents st"
  "nextEventSeq (resolve_poll now p ev st) = nextEventSeq st"
  "leaseTimer (resolve_poll now p ev st) = leaseTimer st"
  "outbox (resolve_poll now p ev st) = outbox st @ [PollReply (po_id p) ev]"
  by (simp_all add: resolve_poll_def)

lemma drop_poll_fields [simp, queue_simps]:
  "pendingEvents (drop_poll r st) = pendingEvents st" "nextEventSeq (drop_poll r st) = nextEventSeq st"
  by (simp_all add: drop_poll_def)

definition has_id :: "pent \<Rightarrow> bool" where
  "has_id e \<longleftrightarrow> truthy (get_prop (pe_event e) ''id'')"

lemma leaseEvent_fields:
  "pendingEvents (snd (leaseEvent now e ms st)) =
     (if has_id e then set_lease (pe_seq e) (map_option (\<lambda>x. now + x) ms) (pendingEvents st)
      else remove_seq (pe_seq e) (pendingEvents st))"
  "nextEventSeq (snd (leaseEvent now e ms st)) = nextEventSeq st"
  "fst (leaseEvent now e ms st) = pe_event e"
  by (auto simp: leaseEvent_def has_id_def)

lemma outbox_leaseEvent: "\<exists>ms'. outbox (snd (leaseEvent now e ms st)) = outbox st @ ms'"
proof (cases "has_id e")
  case True
  let ?st = "scheduleLeaseFlush now (st\<lparr>pendingEvents := set_lease (pe_seq e) (map_option (\<lambda>x. now + x) ms) (pendingEvents st)\<rparr>)"
  have "snd (leaseEvent now e ms st) = broadcastAgentPollingIfChanged now ?st"
    using True by (simp add: leaseEvent_def has_id_def)
  then show ?thesis using broadcast_fields(5) [of now ?st] by simp
qed (simp add: leaseEvent_def has_id_def)

section \<open>The contents of the queue, apart from the leases\<close>

definition content :: "pent \<Rightarrow> nat \<times> jsval" where
  "content e = (pe_seq e, pe_event e)"

definition contents :: "srv \<Rightarrow> (nat \<times> jsval) list" where
  "contents st = map content (pendingEvents st)"

definition keeps :: "(nat \<times> jsval) list \<Rightarrow> (nat \<times> jsval) list \<Rightarrow> bool" where
  "keeps xs ys \<longleftrightarrow> (\<exists>P. ys = filter P xs \<and> (\<forall>x \<in> set xs. truthy (get_prop (snd x) ''id'') \<longrightarrow> P x))"

lemma keeps_refl [simp]: "keeps xs xs"
  unfolding keeps_def by (intro exI [of _ "\<lambda>_. True"]) simp

lemma keeps_trans: "keeps xs ys \<Longrightarrow> keeps ys zs \<Longrightarrow> keeps xs zs"
proof -
  assume "keeps xs ys" "keeps ys zs"
  then obtain P Q where "ys = filter P xs" "\<forall>x \<in> set xs. truthy (get_prop (snd x) ''id'') \<longrightarrow> P x"
    "zs = filter Q ys" "\<forall>x \<in> set ys. truthy (get_prop (snd x) ''id'') \<longrightarrow> Q x"
    by (auto simp: keeps_def)
  then show "keeps xs zs"
    unfolding keeps_def by (intro exI [of _ "\<lambda>x. P x \<and> Q x"]) auto
qed

lemma keeps_mem: "keeps xs ys \<Longrightarrow> x \<in> set xs \<Longrightarrow> truthy (get_prop (snd x) ''id'') \<Longrightarrow> x \<in> set ys"
  by (auto simp: keeps_def)

lemma keeps_subset: "keeps xs ys \<Longrightarrow> set ys \<subseteq> set xs"
  by (auto simp: keeps_def)

lemma keeps_distinct: "keeps xs ys \<Longrightarrow> distinct (map f xs) \<Longrightarrow> distinct (map f ys)"
  by (auto simp: keeps_def distinct_map_filter)

lemma map_content_set_lease [simp]: "map content (set_lease q t es) = map content es"
  by (simp add: set_lease_def content_def)

lemma contents_leaseEvent:
  assumes "e \<in> set (pendingEvents st)" "distinct (map pe_seq (pendingEvents st))"
  shows "keeps (contents st) (contents (snd (leaseEvent now e ms st)))"
proof (cases "has_id e")
  case False
  have "x = content e" if "x \<in> set (contents st)" "fst x = pe_seq e" for x
    using that assms by (auto simp: contents_def content_def distinct_map dest: inj_onD)
  moreover have "contents (snd (leaseEvent now e ms st)) = filter (\<lambda>x. fst x \<noteq> pe_seq e) (contents st)"
    using False by (simp add: contents_def leaseEvent_fields remove_seq_def filter_map_eq o_def content_def)
  ultimately show ?thesis
    using False unfolding keeps_def
    by (intro exI [of _ "\<lambda>x. fst x \<noteq> pe_seq e"]) (auto simp: has_id_def content_def)
qed (simp add: contents_def leaseEvent_fields)

lemma findAvailable_Some:
  "findAvailablePendingEvent now st = Some e \<Longrightarrow> e \<in> set (pendingEvents st) \<and> \<not> leased now e"
  unfolding findAvailablePendingEvent_def by (rule find_Some_mem)

lemma seqs_contents: "map pe_seq (pendingEvents st) = map fst (contents st)"
  by (simp add: contents_def content_def)

lemma flush_keeps:
  "distinct (map pe_seq (pendingEvents st)) \<Longrightarrow>
     keeps (contents st) (contents (flush_loop now ch st)) \<and>
     nextEventSeq (flush_loop now ch st) = nextEventSeq st"
proof (induction now ch st rule: flush_loop.induct)
  case (1 now ch st)
  show ?case
  proof (cases "pendingPolls st")
    case Nil
    then show ?thesis by (simp add: flush_loop.simps [of now ch st] contents_def Let_def)
  next
    case (Cons p ps)
    show ?thesis
    proof (cases "findAvailablePendingEvent now st")
      case None
      with Cons show ?thesis by (simp add: flush_loop.simps [of now ch st] contents_def)
    next
      case (Some e)
      let ?st0 = "st\<lparr>pendingPolls := ps\<rparr>"
      let ?r = "leaseEvent now e (po_leaseMs p) ?st0"
      let ?st1 = "resolve_poll now p (fst ?r) (snd ?r)"
      have k: "keeps (contents st) (contents ?st1)"
        using contents_leaseEvent [of e ?st0 now "po_leaseMs p"] findAvailable_Some [OF Some] "1.prems"
        by (simp add: contents_def)
      then have d: "distinct (map pe_seq (pendingEvents ?st1))"
        using "1.prems" unfolding seqs_contents by (rule keeps_distinct)
      have "flush_loop now ch st = flush_loop now True ?st1"
        using Cons Some by (simp add: flush_loop.simps [of now ch st] Let_def)
      with "1.IH" [OF Cons Some refl d] k show ?thesis
        by (auto intro: keeps_trans simp: leaseEvent_fields)
    qed
  qed
qed


section \<open>Operations and runs\<close>

datatype srv_op =
    OpEnqueue jsval
  | OpAcknowledge jsval
  | OpPoll bool nat "int option"
  | OpPollTimeout nat
  | OpPollClose nat
  | OpTimer
  | OpFlush
  | OpCancelExit

fun apply_op :: "int \<Rightarrow> srv_op \<Rightarrow> srv \<Rightarrow> srv" where
  "apply_op now (OpEnqueue ev) st = enqueueEvent now ev st"
| "apply_op now (OpAcknowledge i) st = snd (acknowledgePendingEvent now i st)"
| "apply_op now (OpPoll ok res ms) st = handlePollGet now ok res ms st"
| "apply_op now (OpPollTimeout res) st = poll_timeout now res st"
| "apply_op now (OpPollClose res) st = poll_close now res st"
| "apply_op now OpTimer st = lease_timer_fires now st"
| "apply_op now OpFlush st = flushPendingPolls now st"
| "apply_op now OpCancelExit st = snd (cancelQueuedAnonymousExitEvents now st)"

fun run_ops :: "(int \<times> srv_op) list \<Rightarrow> srv \<Rightarrow> srv" where
  "run_ops [] st = st"
| "run_ops ((now, p) # ps) st = run_ops ps (apply_op now p st)"

text \<open>
  The queue's invariant: sequence numbers are distinct and below the counter, and no two entries
  with an id agree in id and type.
\<close>

definition same_key :: "jsval \<Rightarrow> jsval \<Rightarrow> bool" where
  "same_key a b \<longleftrightarrow> strict_eq (get_prop a ''id'') (get_prop b ''id'') \<and>
     strict_eq (get_prop a ''type'') (get_prop b ''type'')"

fun no_dup :: "(nat \<times> jsval) list \<Rightarrow> bool" where
  "no_dup [] = True"
| "no_dup (x # xs) =
     ((\<forall>y \<in> set xs. truthy (get_prop (snd y) ''id'') \<longrightarrow> \<not> same_key (snd x) (snd y)) \<and> no_dup xs)"

definition queue_inv :: "srv \<Rightarrow> bool" where
  "queue_inv st \<longleftrightarrow>
     distinct (map pe_seq (pendingEvents st)) \<and> (\<forall>e \<in> set (pendingEvents st). pe_seq e < nextEventSeq st) \<and>
     no_dup (contents st)"

lemma queue_inv_contents:
  "queue_inv st \<longleftrightarrow> distinct (map fst (contents st)) \<and> (\<forall>x \<in> set (contents st). fst x < nextEventSeq st) \<and>
     no_dup (contents st)"
  by (auto simp: queue_inv_def seqs_contents) (auto simp: contents_def content_def)

lemma no_dup_filter: "no_dup xs \<Longrightarrow> no_dup (filter P xs)"
  by (induction xs) auto

lemma no_dup_append:
  "no_dup (xs @ [y]) \<longleftrightarrow>
     no_dup xs \<and> (truthy (get_prop (snd y) ''id'') \<longrightarrow> (\<forall>x \<in> set xs. \<not> same_key (snd x) (snd y)))"
  by (induction xs) auto

lemma queue_inv_keeps:
  assumes "queue_inv st" "keeps (contents st) (contents st')" "nextEventSeq st' = nextEventSeq st"
  shows "queue_inv st'"
proof -
  have "distinct (map fst (contents st'))"
    using assms(1,2) keeps_distinct unfolding queue_inv_def seqs_contents by blast
  moreover have "\<forall>x \<in> set (contents st'). fst x < nextEventSeq st'"
    using assms keeps_subset [OF assms(2)] by (fastforce simp: queue_inv_def contents_def content_def)
  moreover have "no_dup (contents st')"
    using assms(1,2) by (auto simp: queue_inv_def keeps_def no_dup_filter)
  ultimately show ?thesis
    by (auto simp: queue_inv_def seqs_contents) (auto simp: contents_def content_def)
qed

lemma flushPendingPolls_keeps:
  "queue_inv st \<Longrightarrow> keeps (contents st) (contents (flushPendingPolls now st)) \<and>
     nextEventSeq (flushPendingPolls now st) = nextEventSeq st"
  by (simp add: flushPendingPolls_def flush_keeps queue_inv_def)

lemma contents_cong: "pendingEvents st = pendingEvents st' \<Longrightarrow> contents st = contents st'"
  by (simp add: contents_def)

definition is_ack :: "jsval \<Rightarrow> srv_op \<Rightarrow> bool" where
  "is_ack i p \<longleftrightarrow> (\<exists>j. p = OpAcknowledge j \<and> strict_eq i j)"

definition is_enqueue :: "srv_op \<Rightarrow> bool" where
  "is_enqueue p \<longleftrightarrow> (\<exists>ev. p = OpEnqueue ev)"

lemma acknowledge_contents:
  "contents (snd (acknowledgePendingEvent now i st)) =
    (case (if truthy i then entry_with_id i st else None) of
       None \<Rightarrow> contents st
     | Some e \<Rightarrow> filter (\<lambda>x. fst x \<noteq> pe_seq e) (contents st))"
  by (auto simp: acknowledgePendingEvent_def contents_def remove_seq_def filter_map_eq o_def content_def
      split: option.split)

lemma content_seq_unique:
  "queue_inv st \<Longrightarrow> e \<in> set (pendingEvents st) \<Longrightarrow> x \<in> set (contents st) \<Longrightarrow> fst x = pe_seq e \<Longrightarrow> x = content e"
  by (auto simp: queue_inv_def contents_def content_def distinct_map dest: inj_onD)

text \<open>What one operation does to the contents of the queue.\<close>

lemma apply_op_keeps:
  assumes "queue_inv st" "\<not> is_enqueue p" "\<And>j. p \<noteq> OpAcknowledge j"
  shows "keeps (contents st) (contents (apply_op now p st)) \<and> nextEventSeq (apply_op now p st) = nextEventSeq st"
proof (cases p)
  case (OpPoll ok res ms)
  show ?thesis
  proof (cases "ok \<and> findAvailablePendingEvent now (st\<lparr>lastPollAt := now\<rparr>) \<noteq> None")
    case True
    then obtain e where "findAvailablePendingEvent now (st\<lparr>lastPollAt := now\<rparr>) = Some e" by auto
    with True contents_leaseEvent [of e "st\<lparr>lastPollAt := now\<rparr>" now ms] findAvailable_Some [OF this] assms(1)
    show ?thesis
      by (simp add: OpPoll handlePollGet_def Let_def contents_def queue_inv_def leaseEvent_fields)
  next
    case False
    then show ?thesis
      by (auto simp: OpPoll handlePollGet_def Let_def contents_def split: option.split)
  qed
next
  case OpTimer
  have "queue_inv (st\<lparr>leaseTimer := None\<rparr>)"
    using assms(1) by (simp add: queue_inv_def contents_def)
  from flushPendingPolls_keeps [OF this, of now] show ?thesis
    by (simp add: OpTimer lease_timer_fires_def contents_def)
next
  case OpFlush
  with flushPendingPolls_keeps [OF assms(1)] show ?thesis by simp
next
  case OpCancelExit
  have "contents (apply_op now p st) =
      filter (\<lambda>x. \<not> (get_prop (snd x) ''type'' = JStr ''exit'' \<and> \<not> truthy (get_prop (snd x) ''id''))) (contents st)"
    by (simp add: OpCancelExit cancelQueuedAnonymousExitEvents_def Let_def contents_def filter_map_eq o_def
        content_def anonymous_exit_def)
  moreover have "nextEventSeq (apply_op now p st) = nextEventSeq st"
    by (simp add: OpCancelExit cancelQueuedAnonymousExitEvents_def Let_def)
  ultimately show ?thesis unfolding keeps_def by blast
qed (use assms in \<open>auto simp: is_enqueue_def poll_timeout_def poll_close_def contents_def\<close>)

lemma enqueue_contents:
  assumes "queue_inv st"
  shows "contents (enqueueEvent now ev st) = contents st \<and> nextEventSeq (enqueueEvent now ev st) = nextEventSeq st \<or>
    (keeps (contents st @ [(nextEventSeq st, ev)]) (contents (enqueueEvent now ev st)) \<and>
     nextEventSeq (enqueueEvent now ev st) = nextEventSeq st + 1 \<and>
     (truthy (get_prop ev ''id'') \<longrightarrow> (\<forall>x \<in> set (contents st). \<not> same_key (snd x) ev)))"
proof (cases "\<not> truthy ev \<or> (truthy (get_prop ev ''id'') \<and>
    list_ex (\<lambda>e. same_key (pe_event e) ev) (pendingEvents st))")
  case True
  then show ?thesis by (auto simp: enqueueEvent_def same_key_def)
next
  case False
  let ?st = "st\<lparr>pendingEvents := pendingEvents st @
      [\<lparr>pe_event = ev, pe_leaseUntil = Some 0, pe_seq = nextEventSeq st\<rparr>], nextEventSeq := nextEventSeq st + 1\<rparr>"
  have "enqueueEvent now ev st = flushPendingPolls now ?st"
    using False by (auto simp: enqueueEvent_def same_key_def)
  moreover have "distinct (map pe_seq (pendingEvents ?st))"
    using assms by (auto simp: queue_inv_def)
  note flush_keeps [OF this, of now False]
  moreover have "contents ?st = contents st @ [(nextEventSeq st, ev)]"
    by (simp add: contents_def content_def)
  ultimately show ?thesis
    using False by (auto simp: flushPendingPolls_def list_ex_iff contents_def content_def)
qed

lemma queue_inv_apply_op: "queue_inv st \<Longrightarrow> queue_inv (apply_op now p st)"
proof (cases "is_enqueue p")
  case True
  assume inv: "queue_inv st"
  from True obtain ev where p: "p = OpEnqueue ev" by (auto simp: is_enqueue_def)
  let ?st = "st\<lparr>pendingEvents := pendingEvents st @
      [\<lparr>pe_event = ev, pe_leaseUntil = Some 0, pe_seq = nextEventSeq st\<rparr>], nextEventSeq := Suc (nextEventSeq st)\<rparr>"
  have c: "contents ?st = contents st @ [(nextEventSeq st, ev)]"
    by (simp add: contents_def content_def)
  from enqueue_contents [OF inv, of now ev] show ?thesis
  proof
    assume "contents (enqueueEvent now ev st) = contents st \<and> nextEventSeq (enqueueEvent now ev st) = nextEventSeq st"
    then show ?thesis using queue_inv_keeps [OF inv] by (simp add: p)
  next
    assume k: "keeps (contents st @ [(nextEventSeq st, ev)]) (contents (enqueueEvent now ev st)) \<and>
     nextEventSeq (enqueueEvent now ev st) = nextEventSeq st + 1 \<and>
     (truthy (get_prop ev ''id'') \<longrightarrow> (\<forall>x \<in> set (contents st). \<not> same_key (snd x) ev))"
    then have "queue_inv ?st"
      using inv by (auto simp: queue_inv_def c no_dup_append)
    from queue_inv_keeps [OF this, of "enqueueEvent now ev st"] k show ?thesis
      by (simp add: p c)
  qed
next
  case False
  assume inv: "queue_inv st"
  show ?thesis
  proof (cases "\<exists>j. p = OpAcknowledge j")
    case True
    then obtain j where p: "p = OpAcknowledge j" by blast
    have "contents (apply_op now p st) =
        filter (\<lambda>x. case (if truthy j then entry_with_id j st else None) of
            None \<Rightarrow> True | Some e \<Rightarrow> fst x \<noteq> pe_seq e) (contents st)"
      using acknowledge_contents [of now j st]
      by (simp add: p split: option.split)
    then obtain P where c: "contents (apply_op now p st) = filter P (contents st)" by blast
    moreover have "nextEventSeq (apply_op now p st) = nextEventSeq st"
      by (auto simp: p acknowledgePendingEvent_def split: option.split)
    ultimately show ?thesis
      using inv by (simp add: queue_inv_contents no_dup_filter distinct_map_filter)
  next
    case False
    with apply_op_keeps [OF inv \<open>\<not> is_enqueue p\<close>, of now] queue_inv_keeps [OF inv] show ?thesis by blast
  qed
qed

lemma queue_inv_run: "queue_inv st \<Longrightarrow> queue_inv (run_ops ps st)"
  by (induction ps arbitrary: st) (auto simp: queue_inv_apply_op)

lemma queue_inv_init: "queue_inv init_srv"
  by (simp add: queue_inv_def init_srv_def contents_def)

section \<open>Delivery under leases\<close>

lemma strict_eq_sym: "strict_eq a b \<Longrightarrow> strict_eq b a"
  by (cases a; cases b) auto

lemma strict_eq_iff: "strict_eq a b \<Longrightarrow> a = b"
  by (cases a) auto

lemma same_key_sym: "same_key a b \<Longrightarrow> same_key b a"
  by (auto simp: same_key_def strict_eq_sym)

lemma no_dup_unique:
  "no_dup xs \<Longrightarrow> x \<in> set xs \<Longrightarrow> y \<in> set xs \<Longrightarrow> truthy (get_prop (snd x) ''id'') \<Longrightarrow>
     same_key (snd x) (snd y) \<Longrightarrow> x = y"
proof (induction xs)
  case (Cons z zs)
  have "get_prop (snd y) ''id'' = get_prop (snd x) ''id''"
    using Cons.prems(5) by (auto simp: same_key_def dest: strict_eq_iff)
  with Cons show ?case by (auto dest: same_key_sym)
qed simp

text \<open>C18: In every run of the queue operations from the initial state, two entries that carry an id and
  agree in id and type are the same entry: an event the browser sends twice is queued once.\<close>

theorem queue_has_no_duplicates:
  assumes "e \<in> set (pendingEvents (run_ops ps init_srv))" "e' \<in> set (pendingEvents (run_ops ps init_srv))"
    and "truthy (get_prop (pe_event e) ''id'')" "same_key (pe_event e) (pe_event e')"
  shows "e = e'"
proof -
  let ?st = "run_ops ps init_srv"
  have inv: "queue_inv ?st" by (rule queue_inv_run [OF queue_inv_init])
  then have "content e = content e'"
    using no_dup_unique [of "contents ?st" "content e" "content e'"] assms
    by (auto simp: queue_inv_def contents_def content_def)
  then have "pe_seq e = pe_seq e'" by (simp add: content_def)
  with inv assms(1,2) show ?thesis by (auto simp: queue_inv_def distinct_map dest: inj_onD)
qed

lemma unacknowledged_stays:
  assumes "queue_inv st" "content e \<in> set (contents st)" "truthy (get_prop (pe_event e) ''id'')"
    and na: "\<not> is_ack (get_prop (pe_event e) ''id'') p"
  shows "content e \<in> set (contents (apply_op now p st))"
proof (cases "is_enqueue p")
  case True
  then obtain ev where "p = OpEnqueue ev" by (auto simp: is_enqueue_def)
  then show ?thesis
    using enqueue_contents [OF assms(1), of now ev] assms(2,3)
    by (auto dest: keeps_mem [of _ _ "content e"] simp: content_def)
next
  case ne: False
  show ?thesis
  proof (cases "\<exists>j. p = OpAcknowledge j")
    case True
    then obtain j where p: "p = OpAcknowledge j" by blast
    have nj: "\<not> strict_eq (get_prop (pe_event e) ''id'') j" using na by (auto simp: p is_ack_def)
    have "pe_seq x \<noteq> pe_seq e" if "entry_with_id j st = Some x" for x
    proof
      assume "pe_seq x = pe_seq e"
      moreover have "x \<in> set (pendingEvents st)" "strict_eq (get_prop (pe_event x) ''id'') j"
        using that by (auto simp: entry_with_id_def dest: find_Some_mem)
      ultimately have "content e = content x" "strict_eq (get_prop (pe_event x) ''id'') j"
        using content_seq_unique [OF assms(1) _ assms(2), of x] by (auto simp: content_def)
      with nj show False by (simp add: content_def)
    qed
    then show ?thesis
      using acknowledge_contents [of now j st] assms(2) by (auto simp: p content_def split: option.split)
  next
    case False
    then have "keeps (contents st) (contents (apply_op now p st))"
      using apply_op_keeps [OF assms(1) ne, of now] by blast
    then show ?thesis using keeps_mem [OF _ assms(2)] assms(3) by (simp add: content_def)
  qed
qed


definition available :: "int \<Rightarrow> srv \<Rightarrow> pent list" where
  "available now st = filter (\<lambda>e. \<not> leased now e) (pendingEvents st)"

lemma find_filter: "find P xs = (case filter P xs of [] \<Rightarrow> None | x # _ \<Rightarrow> Some x)"
  by (induction xs) auto

lemma findAvailable_available:
  "findAvailablePendingEvent now st = (case available now st of [] \<Rightarrow> None | e # _ \<Rightarrow> Some e)"
  by (simp add: findAvailablePendingEvent_def available_def find_filter)

definition positive_lease :: "int option \<Rightarrow> bool" where
  "positive_lease ms \<longleftrightarrow> (case ms of None \<Rightarrow> False | Some x \<Rightarrow> 0 < x)"

lemma available_set_lease:
  "now < t \<Longrightarrow> t \<noteq> 0 \<Longrightarrow> filter (\<lambda>x. \<not> leased now x) (set_lease q (Some t) xs) =
     filter (\<lambda>x. \<not> leased now x \<and> pe_seq x \<noteq> q) xs"
proof (induction xs)
  case (Cons x xs)
  have "leased now (x\<lparr>pe_leaseUntil := Some t\<rparr>)" using Cons.prems by (simp add: leased_def)
  with Cons show ?case by (simp add: set_lease_def)
qed (simp add: set_lease_def)

lemma available_leaseEvent:
  assumes "available now st = e # es" "distinct (map pe_seq (pendingEvents st))"
    and "positive_lease ms" "0 \<le> now"
  shows "available now (snd (leaseEvent now e ms st)) = es"
proof -
  let ?rest = "filter (\<lambda>x. \<not> leased now x \<and> pe_seq x \<noteq> pe_seq e) (pendingEvents st)"
  have "?rest = filter (\<lambda>x. pe_seq x \<noteq> pe_seq e) (e # es)"
    using assms(1) by (simp add: available_def [symmetric] filter_filter [symmetric] conj_commute)
  moreover have "distinct (map pe_seq (e # es))"
    using assms(1,2) distinct_map_filter [of pe_seq "pendingEvents st"] by (metis available_def)
  then have "filter (\<lambda>x. pe_seq x \<noteq> pe_seq e) (e # es) = es"
    by (auto simp: filter_id_conv image_iff)
  moreover have "available now (snd (leaseEvent now e ms st)) = ?rest"
  proof (cases "has_id e")
    case True
    obtain x where "ms = Some x" "0 < x"
      using assms(3) by (auto simp: positive_lease_def split: option.splits)
    then show ?thesis
      using True assms(4) by (simp add: available_def leaseEvent_fields available_set_lease)
  next
    case False
    then show ?thesis
      by (simp add: available_def leaseEvent_fields remove_seq_def conj_commute)
  qed
  ultimately show ?thesis by simp
qed

definition poll_replies :: "emission list \<Rightarrow> emission list" where
  "poll_replies os = filter (\<lambda>m. case m of PollReply r ev \<Rightarrow> True | _ \<Rightarrow> False) os"

lemma poll_replies_append [simp]: "poll_replies (xs @ ys) = poll_replies xs @ poll_replies ys"
  by (simp add: poll_replies_def)

lemma poll_replies_broadcast [simp]:
  "poll_replies (outbox (broadcastAgentPollingIfChanged now st)) = poll_replies (outbox st)"
  by (simp add: broadcastAgentPollingIfChanged_def Let_def poll_replies_def)

lemma poll_replies_leaseEvent [simp]:
  "poll_replies (outbox (snd (leaseEvent now e ms st))) = poll_replies (outbox st)"
  by (simp add: leaseEvent_def)

definition deliveries :: "poll list \<Rightarrow> pent list \<Rightarrow> emission list" where
  "deliveries ps es = map (\<lambda>(p, e). PollReply (po_id p) (pe_event e)) (zip ps es)"

lemma flush_loop_deliveries:
  assumes "0 \<le> now" "distinct (map pe_seq (pendingEvents st))"
    and "\<forall>p \<in> set (pendingPolls st). positive_lease (po_leaseMs p)"
  shows "poll_replies (outbox (flush_loop now ch st)) =
      poll_replies (outbox st) @ deliveries (pendingPolls st) (available now st) \<and>
    pendingPolls (flush_loop now ch st) = drop (length (available now st)) (pendingPolls st) \<and>
    available now (flush_loop now ch st) = drop (length (pendingPolls st)) (available now st)"
  using assms
proof (induction now ch st rule: flush_loop.induct)
  case (1 now ch st)
  show ?case
  proof (cases "pendingPolls st")
    case Nil
    then show ?thesis
      by (simp add: flush_loop.simps [of now ch st] Let_def deliveries_def available_def)
  next
    case (Cons p ps)
    show ?thesis
    proof (cases "available now st")
      case Nil
      with Cons show ?thesis
        by (simp add: flush_loop.simps [of now ch st] findAvailable_available deliveries_def available_def)
    next
      case av: (Cons e es)
      then have f: "findAvailablePendingEvent now st = Some e" by (simp add: findAvailable_available)
      let ?st0 = "st\<lparr>pendingPolls := ps\<rparr>"
      let ?r = "leaseEvent now e (po_leaseMs p) ?st0"
      let ?st1 = "resolve_poll now p (fst ?r) (snd ?r)"
      have av0: "available now ?st0 = e # es" using av by (simp add: available_def)
      have av1: "available now ?st1 = es"
        using available_leaseEvent [OF av0] "1.prems" Cons by (simp add: available_def)
      have d1: "distinct (map pe_seq (pendingEvents ?st1))"
        using contents_leaseEvent [of e ?st0 now "po_leaseMs p"] findAvailable_Some [OF f] "1.prems"
          keeps_distinct [of "contents ?st0" "contents (snd ?r)" fst]
        by (simp add: seqs_contents [symmetric])
      have "flush_loop now ch st = flush_loop now True ?st1"
        using Cons f by (simp add: flush_loop.simps [of now ch st] Let_def)
      with "1.IH" [OF Cons f refl "1.prems"(1) d1] av av1 Cons "1.prems"(3) show ?thesis
        by (simp add: deliveries_def leaseEvent_fields poll_replies_def [of "[_]"])
    qed
  qed
qed

text \<open>Flushing matches the parked polls with the available events first come, first served: the polls
  are answered in order with the unleased events in queue order, each event to one poll, the polls
  beyond the last available event stay parked and the events beyond the last poll stay available.\<close>

theorem flush_is_fifo_matching:
  assumes "queue_inv st" "0 \<le> now" "\<forall>p \<in> set (pendingPolls st). positive_lease (po_leaseMs p)"
  shows "poll_replies (outbox (flushPendingPolls now st)) =
      poll_replies (outbox st) @ deliveries (pendingPolls st) (available now st) \<and>
    pendingPolls (flushPendingPolls now st) = drop (length (available now st)) (pendingPolls st) \<and>
    available now (flushPendingPolls now st) = drop (length (pendingPolls st)) (available now st)"
  unfolding flushPendingPolls_def
  by (rule flush_loop_deliveries) (use assms in \<open>auto simp: queue_inv_def\<close>)


section \<open>Wake-up\<close>

text \<open>After a flush either no poll is parked or every queued event is under a lease.\<close>

lemma flush_settles:
  assumes "queue_inv st" "0 \<le> now" "\<forall>p \<in> set (pendingPolls st). positive_lease (po_leaseMs p)"
    and "pendingPolls (flushPendingPolls now st) \<noteq> []"
  shows "available now (flushPendingPolls now st) = []"
  using flush_is_fifo_matching [OF assms(1-3)] assms(4) by auto

lemma schedule_timer:
  assumes "0 \<le> now" "available now st = []" "pendingEvents st \<noteq> []"
  shows "\<exists>e t. e \<in> set (pendingEvents st) \<and> pe_leaseUntil e = Some t \<and> now < t \<and>
    leaseTimer (scheduleLeaseFlush now st) = Some (t + POLL_LEASE_EXPIRY_TIMER_GRACE_MS) \<and>
    (\<forall>e' \<in> set (pendingEvents st). \<forall>t'. pe_leaseUntil e' = Some t' \<longrightarrow> t \<le> t')"
proof -
  have l: "\<exists>t. pe_leaseUntil e = Some t \<and> now < t" if "e \<in> set (pendingEvents st)" for e
    using that assms(2) by (auto simp: available_def leased_def filter_empty_conv split: option.splits)
  let ?ds = "lease_deadlines now st"
  have ds: "set ?ds = {t. \<exists>e \<in> set (pendingEvents st). pe_leaseUntil e = Some t}"
    using l by (force simp: lease_deadlines_def)
  obtain t ts where s: "sort ?ds = t # ts"
  proof (cases "sort ?ds")
    case Nil
    then have "set ?ds = {}" by (metis set_sort set_empty)
    moreover obtain e where "e \<in> set (pendingEvents st)" using assms(3) by (cases "pendingEvents st") auto
    with l [OF this] ds have "\<exists>t. t \<in> set ?ds" by auto
    ultimately show ?thesis by simp
  qed auto
  then have t: "t \<in> set ?ds" "\<forall>x \<in> set ?ds. t \<le> x"
  proof -
    have "sorted (t # ts)" "set (t # ts) = set ?ds"
      by (metis s sorted_sort, metis s set_sort)
    then show "t \<in> set ?ds" "\<forall>x \<in> set ?ds. t \<le> x" by auto
  qed
  then obtain e where e: "e \<in> set (pendingEvents st)" "pe_leaseUntil e = Some t" using ds by auto
  with l [OF e(1)] have "now < t" by simp
  then have "leaseTimer (scheduleLeaseFlush now st) = Some (t + POLL_LEASE_EXPIRY_TIMER_GRACE_MS)"
    using assms(1) by (simp add: scheduleLeaseFlush_def s POLL_LEASE_EXPIRY_TIMER_GRACE_MS_def)
  with e t ds \<open>now < t\<close> show ?thesis by auto
qed

lemma flush_loop_timer:
  assumes "pendingPolls (flush_loop now ch st) \<noteq> []"
  shows "\<exists>st1. pendingEvents (flush_loop now ch st) = pendingEvents st1 \<and>
    leaseTimer (flush_loop now ch st) = leaseTimer (scheduleLeaseFlush now st1)"
  using assms
proof (induction now ch st rule: flush_loop.induct)
  case (1 now ch st)
  show ?case
  proof (cases "pendingPolls st")
    case Nil
    with "1.prems" show ?thesis by (simp add: flush_loop.simps [of now ch st] Let_def)
  next
    case (Cons p ps)
    show ?thesis
    proof (cases "findAvailablePendingEvent now st")
      case None
      with Cons show ?thesis
        by (intro exI [of _ st]) (simp add: flush_loop.simps [of now ch st])
    next
      case (Some e)
      then have "flush_loop now ch st = flush_loop now True
          (resolve_poll now p (fst (leaseEvent now e (po_leaseMs p) (st\<lparr>pendingPolls := ps\<rparr>)))
            (snd (leaseEvent now e (po_leaseMs p) (st\<lparr>pendingPolls := ps\<rparr>))))"
        using Cons by (simp add: flush_loop.simps [of now ch st] Let_def)
      with "1.IH" [OF Cons Some refl] "1.prems" show ?thesis by simp
    qed
  qed
qed

text \<open>C21: A parked poll is woken by an expiring lease: when a flush leaves polls parked and events queued,
  a lease timer is set for a later moment, and if it fires then, the first parked poll is answered
  with a queued event.\<close>

theorem expired_lease_wakes_first_poll:
  assumes "queue_inv st" "0 \<le> now" "\<forall>p \<in> set (pendingPolls st). positive_lease (po_leaseMs p)"
    and "pendingPolls (flushPendingPolls now st) = p # ps" "pendingEvents (flushPendingPolls now st) \<noteq> []"
  shows "\<exists>d e. leaseTimer (flushPendingPolls now st) = Some d \<and> now < d \<and>
    e \<in> set (pendingEvents (flushPendingPolls now st)) \<and>
    PollReply (po_id p) (pe_event e) \<in> set (poll_replies (outbox (lease_timer_fires d (flushPendingPolls now st))))"
proof -
  let ?st = "flushPendingPolls now st"
  have av: "available now ?st = []" using flush_settles [OF assms(1-3)] assms(4) by simp
  obtain st1 where st1: "pendingEvents ?st = pendingEvents st1"
    "leaseTimer ?st = leaseTimer (scheduleLeaseFlush now st1)"
    using flush_loop_timer [of now False st] assms(4) by (auto simp: flushPendingPolls_def)
  obtain e t where e: "e \<in> set (pendingEvents ?st)" "pe_leaseUntil e = Some t" "now < t"
    and timer: "leaseTimer ?st = Some (t + POLL_LEASE_EXPIRY_TIMER_GRACE_MS)"
    using schedule_timer [of now st1] assms(2,5) av st1 by (auto simp: available_def)
  define d where "d = t + POLL_LEASE_EXPIRY_TIMER_GRACE_MS"
  let ?st2 = "?st\<lparr>leaseTimer := None\<rparr>"
  have d: "now < d" "0 \<le> d" "t \<le> d"
    using e(3) assms(2) by (auto simp: d_def POLL_LEASE_EXPIRY_TIMER_GRACE_MS_def)
  have "e \<in> set (available d ?st2)"
    using e d by (simp add: available_def leased_def)
  then obtain x xs where x: "available d ?st2 = x # xs" by (cases "available d ?st2") auto
  have "queue_inv ?st"
    using queue_inv_keeps [OF assms(1)] flushPendingPolls_keeps [OF assms(1), of now] by blast
  then have "queue_inv ?st2" by (simp add: queue_inv_def contents_def)
  moreover have "\<forall>p \<in> set (pendingPolls ?st2). positive_lease (po_leaseMs p)"
    using flush_is_fifo_matching [OF assms(1-3)] assms(3) by (auto dest: in_set_dropD)
  ultimately have "PollReply (po_id p) (pe_event x) \<in> set (poll_replies (outbox (flushPendingPolls d ?st2)))"
    using flush_is_fifo_matching [of ?st2 d] d x assms(4) by (simp add: deliveries_def)
  moreover have "x \<in> set (pendingEvents ?st)"
    using x by (metis available_def filter_is_subset list.set_intros(1) srv.select_convs(1) srv.surjective
        srv.update_convs(5) subsetD)
  ultimately show ?thesis
    using timer d by (auto simp: d_def [symmetric] lease_timer_fires_def)
qed

section \<open>The queue as an interface\<close>

text \<open>An event that can be matched and acknowledged: its id and type are non-empty strings.\<close>

definition identified :: "jsval \<Rightarrow> bool" where
  "identified ev \<longleftrightarrow> is_string (get_prop ev ''id'') \<and> truthy (get_prop ev ''id'') \<and>
     is_string (get_prop ev ''type'')"

lemma same_key_self: "identified ev \<Longrightarrow> same_key ev ev"
  by (cases "get_prop ev ''id''"; cases "get_prop ev ''type''") (auto simp: identified_def same_key_def)

lemma same_key_trans: "same_key a b \<Longrightarrow> same_key b c \<Longrightarrow> same_key a c"
  by (auto simp: same_key_def dest: strict_eq_iff)

text \<open>
  What the clients of the queue (start-up recovery, the event and the reply handler) rely on:
  putting an identified event makes sure an event of its id and type is queued, nothing with an id
  is lost by a put, and an acknowledgement loses nothing of another id.
\<close>

locale work_queue =
  fixes inv :: "'q \<Rightarrow> bool"
    and items :: "'q \<Rightarrow> jsval set"
    and put :: "jsval \<Rightarrow> 'q \<Rightarrow> 'q"
    and ack :: "jsval \<Rightarrow> 'q \<Rightarrow> 'q"
  assumes inv_put: "inv q \<Longrightarrow> inv (put ev q)"
    and inv_ack: "inv q \<Longrightarrow> inv (ack i q)"
    and put_queued: "inv q \<Longrightarrow> identified ev \<Longrightarrow> \<exists>x \<in> items (put ev q). same_key x ev"
    and put_keeps: "inv q \<Longrightarrow> x \<in> items q \<Longrightarrow> truthy (get_prop x ''id'') \<Longrightarrow> x \<in> items (put ev q)"
    and ack_keeps: "inv q \<Longrightarrow> x \<in> items q \<Longrightarrow> truthy (get_prop x ''id'') \<Longrightarrow>
      \<not> strict_eq (get_prop x ''id'') i \<Longrightarrow> x \<in> items (ack i q)"
begin

lemma fold_put_keeps:
  "inv q \<Longrightarrow> inv (fold put evs q) \<and>
     (\<forall>x \<in> items q. truthy (get_prop x ''id'') \<longrightarrow> x \<in> items (fold put evs q))"
  by (induction evs arbitrary: q) (auto simp: inv_put put_keeps)

lemma same_key_id: "same_key x ev \<Longrightarrow> identified ev \<Longrightarrow> truthy (get_prop x ''id'')"
  by (auto simp: same_key_def identified_def dest: strict_eq_iff)

lemma fold_put_queued:
  "inv q \<Longrightarrow> ev \<in> set evs \<Longrightarrow> identified ev \<Longrightarrow> \<exists>x \<in> items (fold put evs q). same_key x ev"
proof (induction evs arbitrary: q)
  case (Cons e evs)
  show ?case
  proof (cases "ev = e")
    case True
    obtain x where x: "x \<in> items (put ev q)" "same_key x ev"
      using put_queued [OF Cons.prems(1,3)] by blast
    then show ?thesis
      using fold_put_keeps [OF inv_put [OF Cons.prems(1), of ev], of evs] same_key_id [OF x(2) Cons.prems(3)] True
      by auto
  next
    case False
    with Cons show ?thesis by (simp add: inv_put)
  qed
qed simp

text \<open>Putting and then acknowledging other ids leaves an event of the same key queued.\<close>

lemma put_survives_other_acks:
  assumes "inv q" "identified ev" "\<forall>i \<in> set is. \<not> strict_eq (get_prop ev ''id'') i"
  shows "\<exists>x \<in> items (fold ack is (put ev q)). same_key x ev"
proof -
  have "\<exists>x \<in> items (fold ack is q'). same_key x ev"
    if "inv q'" "x \<in> items q'" "same_key x ev" for q' x
    using that assms(3)
  proof (induction "is" arbitrary: q')
    case (Cons i js)
    have "get_prop x ''id'' = get_prop ev ''id''" "truthy (get_prop x ''id'')"
      using Cons.prems(3) assms(2) same_key_id by (auto simp: same_key_def dest: strict_eq_iff)
    then have "x \<in> items (ack i q')" using Cons.prems by (intro ack_keeps) auto
    with Cons show ?case by (simp add: inv_ack)
  qed auto
  then show ?thesis using put_queued [OF assms(1,2)] inv_put [OF assms(1)] by blast
qed

end

definition queued :: "srv \<Rightarrow> jsval set" where
  "queued st = pe_event ` set (pendingEvents st)"

lemma queued_contents: "queued st = snd ` set (contents st)"
  by (auto simp: queued_def contents_def content_def image_image)

lemma enqueue_keeps_mem:
  assumes "queue_inv st" "x \<in> queued st" "truthy (get_prop x ''id'')"
  shows "x \<in> queued (enqueueEvent now ev st)"
  using enqueue_contents [OF assms(1), of now ev] assms(2,3)
  by (auto simp: queued_contents dest: keeps_mem)

lemma enqueue_queued:
  assumes "queue_inv st" "identified ev"
  shows "\<exists>x \<in> queued (enqueueEvent now ev st). same_key x ev"
proof (cases "list_ex (\<lambda>e. same_key (pe_event e) ev) (pendingEvents st)")
  case True
  then obtain e where e: "e \<in> set (pendingEvents st)" "same_key (pe_event e) ev"
    by (auto simp: list_ex_iff)
  then have "truthy (get_prop (pe_event e) ''id'')"
    using assms(2) by (auto simp: same_key_def identified_def dest: strict_eq_iff)
  then show ?thesis
    using enqueue_keeps_mem [OF assms(1), of "pe_event e" now ev] e by (auto simp: queued_def)
next
  case False
  have tr: "truthy ev"
    using assms(2) by (cases ev) (auto simp: identified_def split: if_splits)
  let ?st = "st\<lparr>pendingEvents := pendingEvents st @
      [\<lparr>pe_event = ev, pe_leaseUntil = Some 0, pe_seq = nextEventSeq st\<rparr>], nextEventSeq := nextEventSeq st + 1\<rparr>"
  have "enqueueEvent now ev st = flushPendingPolls now ?st"
    using False tr by (auto simp: enqueueEvent_def same_key_def)
  moreover have "distinct (map pe_seq (pendingEvents ?st))"
    using assms by (auto simp: queue_inv_def)
  note flush_keeps [OF this, of now False]
  ultimately have "(nextEventSeq st, ev) \<in> set (contents (enqueueEvent now ev st))"
    using assms(2) by (auto simp: flushPendingPolls_def contents_def content_def identified_def
        dest: keeps_mem [of _ _ "(nextEventSeq st, ev)"])
  then show ?thesis using same_key_self [OF assms(2)] by (force simp: queued_contents)
qed

lemma ack_keeps_mem:
  assumes "queue_inv st" "x \<in> queued st" "\<not> strict_eq (get_prop x ''id'') i"
  shows "x \<in> queued (snd (acknowledgePendingEvent now i st))"
proof -
  obtain e where e: "e \<in> set (pendingEvents st)" "pe_event e = x" using assms(2) by (auto simp: queued_def)
  have "pe_seq y \<noteq> pe_seq e" if "entry_with_id i st = Some y" for y
  proof
    assume "pe_seq y = pe_seq e"
    moreover have y: "y \<in> set (pendingEvents st)" "strict_eq (get_prop (pe_event y) ''id'') i"
      using that by (auto simp: entry_with_id_def dest: find_Some_mem)
    ultimately have "y = e" using e assms(1) by (auto simp: queue_inv_def distinct_map dest: inj_onD)
    with y e assms(3) show False by simp
  qed
  moreover have "content e \<in> set (contents st)" using e by (simp add: contents_def)
  ultimately have "content e \<in> set (contents (snd (acknowledgePendingEvent now i st)))"
    using acknowledge_contents [of now i st] by (auto simp: content_def split: option.split)
  then show ?thesis using e(2) by (force simp: queued_contents content_def)
qed

interpretation wq: work_queue queue_inv queued "enqueueEvent now"
  "\<lambda>i st. snd (acknowledgePendingEvent now i st)" for now
proof
  show "queue_inv (enqueueEvent now ev q)" if "queue_inv q" for q ev
    using queue_inv_apply_op [OF that, of now "OpEnqueue ev"] by simp
  show "queue_inv (snd (acknowledgePendingEvent now i q))" if "queue_inv q" for q i
    using queue_inv_apply_op [OF that, of now "OpAcknowledge i"] by simp
qed (auto intro: enqueue_queued enqueue_keeps_mem ack_keeps_mem)

section \<open>Recovery at start-up\<close>

lemma restore_is_fold:
  "restorePendingEventsFromStore now active st =
     fold (enqueueEvent now) (filter truthy (map sn_pendingEvent active)) st"
  by (induction active arbitrary: st) (auto simp: restorePendingEventsFromStore_def)

text \<open>C28: At start-up, every active session's pending event is queued again: for each active snapshot
  whose pending event has an id and a type, the restored queue holds an event of that id and type.\<close>

theorem restart_requeues_pending:
  assumes "queue_inv st" "s \<in> set active" "identified (sn_pendingEvent s)"
  shows "\<exists>e \<in> set (pendingEvents (restorePendingEventsFromStore now active st)).
    same_key (pe_event e) (sn_pendingEvent s)"
proof -
  have "truthy (sn_pendingEvent s)"
    using assms(3) by (cases "sn_pendingEvent s") (auto simp: identified_def split: if_splits)
  then have "sn_pendingEvent s \<in> set (filter truthy (map sn_pendingEvent active))"
    using assms(2) by auto
  from wq.fold_put_queued [OF assms(1) this assms(3)] show ?thesis
    by (simp add: restore_is_fold queued_def)
qed

section \<open>A parked poll can be left behind\<close>

text \<open>
  An arriving poll that finds an event re-arms the lease timer for the deadlines still ahead. When
  leases have just run out and their timer is still due (it waits two milliseconds longer), the
  timer is lost, and a poll parked earlier stays parked beside an available event.
\<close>

definition stranding_run :: "(int \<times> srv_op) list" where
  "stranding_run =
     [(1000, OpEnqueue (JObj [(''type'', JStr ''generate''), (''id'', JStr ''a'')])),
      (1000, OpEnqueue (JObj [(''type'', JStr ''generate''), (''id'', JStr ''b'')])),
      (1000, OpPoll True 1 (Some 100)), (1000, OpPoll True 2 (Some 100)),
      (1050, OpPoll True 3 (Some 30000)), (1100, OpPoll True 4 (Some 30000))]"


section \<open>Witnesses\<close>

definition demo_queue :: srv where
  "demo_queue = run_ops (take 3 stranding_run) init_srv"

lemma demo_queue_inv: "queue_inv demo_queue"
  unfolding demo_queue_def by (rule queue_inv_run [OF queue_inv_init])

theorem queue_has_no_duplicates_witness:
  "\<exists>e. pendingEvents (run_ops (take 1 stranding_run) init_srv) = [e] \<and>
     (\<forall>e' \<in> set (pendingEvents (run_ops (take 1 stranding_run) init_srv)). e = e')"
proof -
  have "length (pendingEvents (run_ops (take 1 stranding_run) init_srv)) = 1"
    "list_all (\<lambda>e. truthy (get_prop (pe_event e) ''id'') \<and> same_key (pe_event e) (pe_event e))
       (pendingEvents (run_ops (take 1 stranding_run) init_srv))"
    by code_simp+
  then obtain e where e: "pendingEvents (run_ops (take 1 stranding_run) init_srv) = [e]"
    "truthy (get_prop (pe_event e) ''id'')" "same_key (pe_event e) (pe_event e)"
    by (cases "pendingEvents (run_ops (take 1 stranding_run) init_srv)") auto
  with queue_has_no_duplicates [of e "take 1 stranding_run" e] show ?thesis by simp
qed


text \<open>A queue with one parked poll and an event that became available, before it is flushed.\<close>

definition demo_unflushed :: srv where
  "demo_unflushed = run_ops stranding_run init_srv"

lemma demo_unflushed_ok:
  "queue_inv demo_unflushed" "\<forall>p \<in> set (pendingPolls demo_unflushed). positive_lease (po_leaseMs p)"
proof -
  show "queue_inv demo_unflushed"
    unfolding demo_unflushed_def by (rule queue_inv_run [OF queue_inv_init])
  have "list_all (\<lambda>p. positive_lease (po_leaseMs p)) (pendingPolls demo_unflushed)" by code_simp
  then show "\<forall>p \<in> set (pendingPolls demo_unflushed). positive_lease (po_leaseMs p)"
    by (simp add: list_all_iff)
qed

theorem flush_is_fifo_matching_witness:
  "pendingPolls (flushPendingPolls 1100 demo_unflushed) = []"
proof -
  have "length (available 1100 demo_unflushed) = 1" "length (pendingPolls demo_unflushed) = 1"
    by code_simp+
  with flush_is_fifo_matching [OF demo_unflushed_ok(1) _ demo_unflushed_ok(2), of 1100] show ?thesis
    by simp
qed

theorem expired_lease_wakes_first_poll_witness:
  "\<exists>d. leaseTimer (flushPendingPolls 1050 (run_ops (butlast stranding_run) init_srv)) = Some d \<and> 1050 < d"
proof -
  let ?st = "run_ops (butlast stranding_run) init_srv"
  have "list_all (\<lambda>p. positive_lease (po_leaseMs p)) (pendingPolls ?st)"
    "pendingEvents (flushPendingPolls 1050 ?st) \<noteq> []"
    by code_simp+
  moreover have "pendingPolls (flushPendingPolls 1050 ?st) \<noteq> []" by code_simp
  then obtain p ps where "pendingPolls (flushPendingPolls 1050 ?st) = p # ps"
    by (cases "pendingPolls (flushPendingPolls 1050 ?st)") auto
  ultimately show ?thesis
    using expired_lease_wakes_first_poll [OF queue_inv_run [OF queue_inv_init], of 1050 "butlast stranding_run" p ps]
    by (auto simp: list_all_iff)
qed

theorem restart_requeues_pending_witness:
  "\<exists>e \<in> set (pendingEvents (restorePendingEventsFromStore 5
      [(baseSnapshot ''ab'')\<lparr>sn_pendingEvent := JObj [(''type'', JStr ''steer''), (''id'', JStr ''ab'')]\<rparr>] init_srv)).
     same_key (pe_event e) (JObj [(''type'', JStr ''steer''), (''id'', JStr ''ab'')])"
  using restart_requeues_pending [OF queue_inv_init,
      of "(baseSnapshot ''ab'')\<lparr>sn_pendingEvent := JObj [(''type'', JStr ''steer''), (''id'', JStr ''ab'')]\<rparr>"
         "[(baseSnapshot ''ab'')\<lparr>sn_pendingEvent := JObj [(''type'', JStr ''steer''), (''id'', JStr ''ab'')]\<rparr>]" 5]
  by (simp add: identified_def)

end
