(* ===== verification/Paths.thy ===== *)
theory Paths
  imports Prelude
begin

text \<open>
  The operations of \<open>node:path\<close> (POSIX flavour) that the sources use, on absolute paths given as
  lists of segments and on path strings.
\<close>

text \<open>
  \<open>path.resolve(cwd, p)\<close> on POSIX, as a list of segments: empty and \<open>.\<close> segments are dropped,
  \<open>..\<close> takes one back.
\<close>

fun norm_segs :: "string list \<Rightarrow> string list \<Rightarrow> string list" where
  "norm_segs acc [] = rev acc"
| "norm_segs acc (s # ss) =
     (if s = [] \<or> s = ''.'' then norm_segs acc ss
      else if s = ''..'' then norm_segs (tl acc) ss
      else norm_segs (s # acc) ss)"

definition resolve_segs :: "string list \<Rightarrow> string \<Rightarrow> string list" where
  "resolve_segs cwd p =
     (if starts_with p ''/'' then norm_segs [] (split_on CHR ''/'' p)
      else norm_segs (rev cwd) (split_on CHR ''/'' p))"

text \<open>
  \<open>!rel || rel.startsWith('..')\<close> for \<open>rel = path.relative(cwd, full)\<close>, negated. A \<open>full\<close> outside
  \<open>cwd\<close> has a \<open>rel\<close> that starts with \<open>..\<close>.
\<close>

definition rel_inside :: "string list \<Rightarrow> string list \<Rightarrow> bool" where
  "rel_inside cwd full \<longleftrightarrow>
     take (length cwd) full = cwd \<and> length cwd < length full \<and>
     \<not> starts_with (full ! length cwd) ''..''"

definition path_string :: "string list \<Rightarrow> string" where
  "path_string segs = CHR ''/'' # join ''/'' segs"

definition is_absolute :: "string \<Rightarrow> bool" where
  "is_absolute p \<longleftrightarrow> starts_with p ''/''"

text \<open>\<open>path.resolve(root, p)\<close> for an absolute \<open>root\<close>.\<close>

definition path_resolve :: "string \<Rightarrow> string \<Rightarrow> string" where
  "path_resolve root p = path_string (resolve_segs (norm_segs [] (split_on CHR ''/'' root)) p)"

text \<open>\<open>path.relative(from, to)\<close> for absolute paths.\<close>

fun rel_segs :: "string list \<Rightarrow> string list \<Rightarrow> string list" where
  "rel_segs (a # as) (b # bs) =
     (if a = b then rel_segs as bs else replicate (Suc (length as)) ''..'' @ b # bs)"
| "rel_segs as bs = replicate (length as) ''..'' @ bs"

definition path_relative :: "string \<Rightarrow> string \<Rightarrow> string" where
  "path_relative from_p to_p =
     join ''/'' (rel_segs (norm_segs [] (split_on CHR ''/'' from_p)) (norm_segs [] (split_on CHR ''/'' to_p)))"

text \<open>The last segment and its extension: from the last dot, unless the dot comes first.\<close>

definition path_basename :: "string \<Rightarrow> string" where
  "path_basename p =
     (let segs = filter (\<lambda>s. s \<noteq> []) (split_on CHR ''/'' p) in if segs = [] then [] else last segs)"

definition path_extname :: "string \<Rightarrow> string" where
  "path_extname p =
     (let b = path_basename p; e = rev (takeWhile (\<lambda>c. c \<noteq> CHR ''.'') (rev b));
          stem = take (length b - length e) b
      in if length stem \<le> 1 \<or> b = ''..'' then [] else CHR ''.'' # e)"

definition path_dirname :: "string \<Rightarrow> string" where
  "path_dirname p =
     (let d = rev (dropWhile (\<lambda>c. c = CHR ''/'') (dropWhile (\<lambda>c. c \<noteq> CHR ''/'')
                (dropWhile (\<lambda>c. c = CHR ''/'') (rev p)))) in
      if d = [] then (if starts_with p ''/'' then ''/'' else ''.'') else d)"

end
