(* ===== verification/LiveServer.thy ===== *)
theory LiveServer
  imports EventQueue Paths
begin

text \<open>
  The two POST handlers of the live server (\<open>live-server.mjs\<close>) over the event queue and the session
  store: browser events (\<open>POST /events\<close>) and agent replies (\<open>POST /poll\<close>), and the helpers that map
  poll replies (\<open>live-poll.mjs\<close>, \<open>live/completion.mjs\<close>).

  A request body is what \<open>JSON.parse\<close> gives (\<open>None\<close>: it throws, which the handlers catch). A handler
  either leaves the server running or, where the code reads a property of null outside any \<open>try\<close>,
  ends the process (\<open>Down\<close>): there is no handler for uncaught exceptions.
\<close>

section \<open>State\<close>

record live =
  lv_token :: string
  lv_queue :: srv
  lv_store :: "store option"
  lv_activity :: jsval
  lv_nextActivity :: int

datatype outcome = Running live | Down

definition with_queue :: "(srv \<Rightarrow> srv) \<Rightarrow> live \<Rightarrow> live" where
  "with_queue f lv = lv\<lparr>lv_queue := f (lv_queue lv)\<rparr>"

definition respond :: "nat \<Rightarrow> nat \<Rightarrow> jsval \<Rightarrow> live \<Rightarrow> live" where
  "respond res status body = with_queue (emit (HttpReply res status body))"

definition error_body :: "string \<Rightarrow> jsval" where
  "error_body e = JObj [(''error'', JStr e)]"

definition ok_body :: jsval where
  "ok_body = JObj [(''ok'', JBool True)]"

definition recordManualEditActivity ::
  "jsval \<Rightarrow> string \<Rightarrow> (string \<times> jsval) list \<Rightarrow> live \<Rightarrow> live" where
  "recordManualEditActivity ts ty details lv =
     (let entry = spread (JObj [(''seq'', JInt (lv_nextActivity lv)), (''type'', JStr ty), (''ts'', ts)])
                    (JObj details)
      in with_queue (emit (Sse entry))
           (lv\<lparr>lv_activity := entry, lv_nextActivity := lv_nextActivity lv + 1\<rparr>))"

section \<open>POST /events\<close>

text \<open>The message is appended to its session's journal before it is queued.\<close>

definition store_event :: "jsval \<Rightarrow> jsval \<Rightarrow> live \<Rightarrow> string + live" where
  "store_event ts msg lv =
     (case lv_store lv of
        None \<Rightarrow> Inr lv
      | Some st \<Rightarrow>
          if \<not> truthy (get_prop msg ''id'') then Inr lv
          else (case appendEvent ts JUndef msg st of
                  Inl e \<Rightarrow> Inl e
                | Inr (s, st') \<Rightarrow> Inr (lv\<lparr>lv_store := Some st'\<rparr>)))"

definition handleEventsPost :: "int \<Rightarrow> jsval \<Rightarrow> nat \<Rightarrow> jsval option \<Rightarrow> live \<Rightarrow> outcome" where
  "handleEventsPost now ts res body lv =
     (case body of
        None \<Rightarrow> Running (respond res 400 (error_body ''Invalid JSON'') lv)
      | Some msg \<Rightarrow>
          if nullish msg then Down
          else if \<not> strict_eq (get_prop msg ''token'') (JStr (lv_token lv))
          then Running (respond res 401 (error_body ''Unauthorized'') lv)
          else if get_prop msg ''type'' = JStr ''manual_edits''
          then Running (respond res 400
                 (error_body ''manual_edits must POST to /manual-edit-stash, not /events'') lv)
          else if get_prop msg ''type'' = JStr ''manual_edit_apply''
          then Running (respond res 400
                 (error_body ''manual_edit_apply is disabled; use /manual-edit-stash then /manual-edit-commit'') lv)
          else case validateEvent msg of
                 Throws \<Rightarrow> Down
               | Rejected e \<Rightarrow> Running (respond res 400 (error_body e) lv)
               | Accepted \<Rightarrow>
                   (case store_event ts msg lv of
                      Inl e \<Rightarrow> Running (respond res 500
                        (JObj [(''error'', JStr ''session_store_append_failed''), (''message'', JStr e)]) lv)
                    | Inr lv1 \<Rightarrow>
                        Running (respond res 200 ok_body
                          (if get_prop msg ''type'' \<noteq> JStr ''checkpoint''
                           then with_queue (enqueueEvent now msg) lv1 else lv1))))"

section \<open>Files named in a reply\<close>

record file_meta =
  fm_file :: jsval
  fm_sourceFile :: jsval
  fm_previewFile :: jsval
  fm_previewMode :: jsval

text \<open>\<open>read\<close> is what parsing the file at the resolved path gives, \<open>None\<close> when reading or parsing throws.\<close>

definition sessionFileMetadataFromPollReply ::
  "string list \<Rightarrow> (string list \<Rightarrow> jsval option) \<Rightarrow> jsval \<Rightarrow> file_meta" where
  "sessionFileMetadataFromPollReply cwd read f =
     (if \<not> truthy f \<or> \<not> is_string f
      then \<lparr>fm_file = f, fm_sourceFile = JUndef, fm_previewFile = JUndef, fm_previewMode = JUndef\<rparr>
      else let normalized = str_of f;
               base = \<lparr>fm_file = JStr normalized, fm_sourceFile = JUndef, fm_previewFile = JUndef,
                       fm_previewMode = JUndef\<rparr>;
               full = resolve_segs cwd normalized in
        if \<not> ends_with normalized ''/manifest.json'' \<and> normalized \<noteq> ''manifest.json'' then base
        else if \<not> str_includes normalized ''node_modules/.impeccable-live/'' \<and>
                \<not> str_includes normalized ''src/lib/impeccable/'' then base
        else if \<not> rel_inside cwd full then base
        else case read full of
               None \<Rightarrow> base
             | Some manifest \<Rightarrow>
                 if get_prop manifest ''previewMode'' \<noteq> JStr ''svelte-component'' \<or>
                    \<not> truthy (get_prop manifest ''sourceFile'')
                 then base
                 else let src = JStr (to_str (get_prop manifest ''sourceFile'')) in
                   \<lparr>fm_file = src, fm_sourceFile = src, fm_previewFile = JStr normalized,
                    fm_previewMode = JStr ''svelte-component''\<rparr>)"

section \<open>POST /poll\<close>

definition reply_event_type :: "jsval \<Rightarrow> string" where
  "reply_event_type ty =
     (if ty = JStr ''steer_done'' then ''steer_done''
      else if ty = JStr ''discard'' \<or> ty = JStr ''discarded'' then ''discarded''
      else if ty = JStr ''complete'' then ''complete''
      else if ty = JStr ''error'' then ''agent_error''
      else ''agent_done'')"

definition reply_event :: "jsval \<Rightarrow> file_meta \<Rightarrow> jsval \<Rightarrow> jsval" where
  "reply_event msg meta acked =
     JObj [(''type'', JStr (reply_event_type (get_prop msg ''type''))),
       (''id'', get_prop msg ''id''),
       (''file'', fm_file meta), (''sourceFile'', fm_sourceFile meta),
       (''previewFile'', fm_previewFile meta), (''previewMode'', fm_previewMode meta),
       (''message'', get_prop msg ''message''),
       (''sourceEventType'', get_prop acked ''type''),
       (''carbonize'', JBool (get_prop (get_prop msg ''data'') ''carbonize'' = JBool True))]"

definition steer_done_without_content :: "jsval \<Rightarrow> jsval \<Rightarrow> bool" where
  "steer_done_without_content pending msg \<longleftrightarrow>
     get_prop pending ''type'' = JStr ''steer'' \<and> get_prop msg ''type'' = JStr ''steer_done'' \<and>
     \<not> truthy (get_prop msg ''file'') \<and>
     \<not> (is_string (get_prop msg ''message'') \<and> trim (str_of (get_prop msg ''message'')) \<noteq> [])"

text \<open>
  The session a reply belongs to when no queued event was acknowledged: looked up in the store,
  errors swallowed, a session never touched (\<open>updatedAt\<close> null) counts as none.
\<close>

definition existing_session :: "jsval \<Rightarrow> jsval \<Rightarrow> live \<Rightarrow> snapshot option \<times> live" where
  "existing_session ts i lv =
     (case lv_store lv of
        None \<Rightarrow> (None, lv)
      | Some st \<Rightarrow>
          if \<not> truthy i then (None, lv)
          else (case getSnapshot ts (to_str i) True st of
                  Inl e \<Rightarrow> (None, lv)
                | Inr (so, st') \<Rightarrow>
                    ((case so of None \<Rightarrow> None
                      | Some s \<Rightarrow> if truthy (sn_updatedAt s) then Some s else None),
                     lv\<lparr>lv_store := Some st'\<rparr>)))"

definition journal_reply :: "jsval \<Rightarrow> jsval \<Rightarrow> live \<Rightarrow> live" where
  "journal_reply ts ev lv =
     (case lv_store lv of
        None \<Rightarrow> lv
      | Some st \<Rightarrow>
          if \<not> truthy (get_prop ev ''id'') then lv
          else (case appendEvent ts JUndef ev st of
                  Inl e \<Rightarrow> lv
                | Inr (s, st') \<Rightarrow> lv\<lparr>lv_store := Some st'\<rparr>))"

definition reply_broadcast :: "jsval \<Rightarrow> file_meta \<Rightarrow> jsval" where
  "reply_broadcast msg meta =
     JObj [(''type'', js_or (get_prop msg ''type'') (JStr ''done'')), (''id'', get_prop msg ''id''),
       (''message'', get_prop msg ''message''), (''file'', get_prop msg ''file''),
       (''sourceFile'', fm_sourceFile meta), (''previewFile'', fm_previewFile meta),
       (''previewMode'', fm_previewMode meta), (''data'', get_prop msg ''data'')]"

text \<open>
  The part of \<open>handlePollPost\<close> that handles a reply whose id belongs to no manual-apply deferred and
  to no timed-out manual apply.
\<close>

definition handle_session_reply ::
  "string list \<Rightarrow> (string list \<Rightarrow> jsval option) \<Rightarrow> int \<Rightarrow> jsval \<Rightarrow> nat \<Rightarrow> jsval \<Rightarrow> live \<Rightarrow> live" where
  "handle_session_reply cwd read now ts res msg lv =
     (let i = get_prop msg ''id'' in
      if steer_done_without_content (findPendingEventById i (lv_queue lv)) msg
      then respond res 400 (JObj [(''error'', JStr ''steer_done_requires_file_or_message''),
             (''hint'', JStr ''Reply with --file after writing source, or include a message explaining an intentional no-op.'')]) lv
      else let (acked, q1) = acknowledgePendingEvent now i (lv_queue lv);
               lv1 = lv\<lparr>lv_queue := q1\<rparr>;
               (existing, lv2) = (if truthy acked then (None, lv1) else existing_session ts i lv1) in
        if \<not> truthy acked \<and> existing = None
        then respond res (if truthy i then 404 else 400)
               (JObj [(''error'', JStr (if truthy i then ''unknown_poll_reply_id'' else ''missing_poll_reply_id'')),
                      (''id'', i)])
               (recordManualEditActivity ts ''manual_edit_poll_reply_unknown''
                  [(''id'', js_or i JNull), (''type'', js_or (get_prop msg ''type'') JNull)] lv2)
        else let meta = sessionFileMetadataFromPollReply cwd read (get_prop msg ''file'');
                 skip = (case existing of None \<Rightarrow> False | Some s \<Rightarrow> completed_phase (sn_phase s));
                 lv3 = (if skip then lv2 else journal_reply ts (reply_event msg meta acked) lv2)
          in respond res 200 ok_body
               (with_queue (\<lambda>q. emit (Sse (reply_broadcast msg meta)) (flushPendingPolls now q)) lv3))"

section \<open>Poll client\<close>

text \<open>\<open>completionTypeForAcceptResult\<close> and the acknowledgement body built from it.\<close>

definition completionTypeForAcceptResult :: "jsval \<Rightarrow> jsval \<Rightarrow> string" where
  "completionTypeForAcceptResult eventType acceptResult =
     (let handled = (get_prop acceptResult ''handled'' = JBool True) in
      if eventType = JStr ''discard'' then (if handled then ''discarded'' else ''error'')
      else if handled \<and> get_prop acceptResult ''carbonize'' = JBool True then ''agent_done''
      else if handled then ''complete''
      else if get_prop acceptResult ''mode'' = JStr ''error'' then ''error''
      else if eventType = JStr ''accept'' \<and> get_prop acceptResult ''previewMode'' = JStr ''svelte-component''
      then ''error''
      else ''agent_done'')"

definition completionAckForAcceptResult :: "string \<Rightarrow> string \<Rightarrow> jsval \<Rightarrow> jsval" where
  "completionAckForAcceptResult eventId completionType acceptResult =
     (let ack = [(''ok'', JBool True), (''type'', JStr completionType)] in
      if get_prop acceptResult ''handled'' = JBool True \<and> get_prop acceptResult ''carbonize'' = JBool True
      then JObj (ack @ [(''final'', JBool False), (''requiresComplete'', JBool True),
             (''nextCommand'', JStr (''live-complete.mjs --id '' @ eventId)),
             (''message'', JStr ''Carbonize cleanup must be verified, then the session must be completed explicitly before polling again.'')])
      else JObj ack)"

section \<open>Lemmas on POST /events\<close>

lemma accepted_normalizes:
  assumes "validateEvent msg = Accepted" "get_prop msg ''id'' = JStr i" "i \<noteq> []"
  shows "normalizeEvent msg fb = Inr (i, msg)"
proof -
  have m: "truthy msg" "typeof_object msg" and
    ty: "truthy (get_prop msg ''type'')" "is_string (get_prop msg ''type'')"
    using validateEvent_cases(1,2,9) [OF assms(1)] by auto
  obtain kvs where kvs: "msg = JObj kvs"
    using assms(2) m by (cases msg) (auto split: if_splits)
  have "set_prop msg ''id'' (JStr i) = msg"
    using assms(2) by (simp add: kvs set_prop_def fields_set_same split: option.splits)
  then show ?thesis
    using m ty assms(2,3) by (simp add: normalizeEvent_def js_or_def)
qed

lemma accepted_identified:
  assumes "validateEvent msg = Accepted" "get_prop msg ''type'' \<in> session_kinds"
  obtains i where "get_prop msg ''id'' = JStr i" "i \<noteq> []" "safeSessionId i = Inr i"
    "normalizeEvent msg fb = Inr (i, msg)" "identified msg"
proof -
  obtain i where i: "get_prop msg ''id'' = JStr i" "i \<noteq> []" "safeSessionId i = Inr i"
    using valid_id_safe [OF accepted_id [OF assms]] by blast
  moreover have "identified msg"
    using i(1,2) assms(2) by (auto simp: identified_def session_kinds_def)
  ultimately show thesis using that accepted_normalizes [OF assms(1) i(1,2)] by blast
qed

lemma with_queue_fields [simp]:
  "lv_store (with_queue f lv) = lv_store lv" "lv_queue (with_queue f lv) = f (lv_queue lv)"
  "lv_token (with_queue f lv) = lv_token lv" "lv_activity (with_queue f lv) = lv_activity lv"
  "lv_nextActivity (with_queue f lv) = lv_nextActivity lv"
  by (simp_all add: with_queue_def)

lemma respond_fields [simp]:
  "lv_store (respond r c b lv) = lv_store lv" "lv_token (respond r c b lv) = lv_token lv"
  "pendingEvents (lv_queue (respond r c b lv)) = pendingEvents (lv_queue lv)"
  "nextEventSeq (lv_queue (respond r c b lv)) = nextEventSeq (lv_queue lv)"
  "outbox (lv_queue (respond r c b lv)) = outbox (lv_queue lv) @ [HttpReply r c b]"
  by (simp_all add: respond_def)

definition events_gate :: "jsval \<Rightarrow> live \<Rightarrow> bool" where
  "events_gate msg lv \<longleftrightarrow> strict_eq (get_prop msg ''token'') (JStr (lv_token lv)) \<and>
     get_prop msg ''type'' \<noteq> JStr ''manual_edits'' \<and>
     get_prop msg ''type'' \<noteq> JStr ''manual_edit_apply'' \<and> validateEvent msg = Accepted"

definition after_events_post :: "int \<Rightarrow> jsval \<Rightarrow> nat \<Rightarrow> live \<Rightarrow> live" where
  "after_events_post now msg res lv1 =
     respond res 200 ok_body
       (if get_prop msg ''type'' \<noteq> JStr ''checkpoint'' then with_queue (enqueueEvent now msg) lv1 else lv1)"

lemma events_post_gate:
  "events_gate msg lv \<Longrightarrow> store_event ts msg lv = Inr lv1 \<Longrightarrow>
     handleEventsPost now ts res (Some msg) lv = Running (after_events_post now msg res lv1)"
  unfolding handleEventsPost_def after_events_post_def events_gate_def
  by (cases "nullish msg") (auto simp: validateEvent_def nullish_def)

lemma store_event_accepted:
  assumes "validateEvent msg = Accepted" "get_prop msg ''id'' = JStr i" "i \<noteq> []" "safeSessionId i = Inr i"
    "lv_store lv = Some st"
  obtains s st' where "appendEvent ts JUndef msg st = Inr (s, st')"
    "store_event ts msg lv = Inr (lv\<lparr>lv_store := Some st'\<rparr>)"
proof -
  have "\<exists>s st'. appendEvent ts JUndef msg st = Inr (s, st')"
    using accepted_normalizes [OF assms(1-3)] assms(4) by (simp add: appendEvent_def split_def Let_def)
  then show thesis using that assms(2,3,5) by (auto simp: store_event_def)
qed

section \<open>Properties of POST /events\<close>


text \<open>C25: A \<open>POST /events\<close> request that is not accepted (bad JSON, wrong token, one of the two
  manual-edit types, or rejected by the validator) is answered with an error status and changes
  neither the session store nor the queue; every other request that is answered has passed all of
  these checks.\<close>

theorem events_post_rejection_changes_nothing:
  assumes "handleEventsPost now ts res body lv = Running lv'"
  shows "(\<exists>status b. 400 \<le> status \<and> lv' = respond res status b lv) \<or>
    (\<exists>msg lv1. body = Some msg \<and> events_gate msg lv \<and> store_event ts msg lv = Inr lv1 \<and>
       lv' = after_events_post now msg res lv1)"
proof (cases body)
  case None
  with assms show ?thesis by (intro disjI1) (auto simp: handleEventsPost_def)
next
  case (Some msg)
  show ?thesis
  proof (cases "events_gate msg lv")
    case True
    then show ?thesis
    proof (cases "store_event ts msg lv")
      case (Inl e)
      with True Some assms have "lv' = respond res 500
          (JObj [(''error'', JStr ''session_store_append_failed''), (''message'', JStr e)]) lv"
        by (auto simp: handleEventsPost_def events_gate_def split: if_splits)
      then show ?thesis by (intro disjI1 exI conjI) simp_all
    next
      case (Inr lv1)
      with True Some assms events_post_gate [OF True Inr] show ?thesis by auto
    qed
  next
    case False
    then have "(\<exists>c. lv' = respond res 400 c lv) \<or> (\<exists>c. lv' = respond res 401 c lv)"
      using Some assms
      by (auto simp: handleEventsPost_def events_gate_def split: if_splits verdict.splits)
    then show ?thesis
      by (elim disjE exE) (intro disjI1 exI conjI; simp; fail)+
  qed
qed

lemma load_primary: "st_primary (snd (loadCachedOrRebuild now st i)) = st_primary st"
  by (simp add: loadCachedOrRebuild_def Let_def split: option.split)

text \<open>The line an append adds, for an event that JSON carries unchanged.\<close>

lemma appended_line:
  assumes "normalizeEvent ev fb = Inr (i, nev)" "json_stable nev"
    "appendEvent (JStr t) fb ev st = Inr (s, st')"
  shows "\<exists>k. map_of (st_primary st') i =
    Some ((case readable_journal st i of None \<Rightarrow> [] | Some ls \<Rightarrow> ls) @ [JLine (make_entry k i (JStr t) nev)])"
proof -
  obtain ty where "get_prop nev ''type'' = JStr ty"
    using normalized_type(2) [OF assms(1)] by (cases "get_prop nev ''type''") auto
  then have "written_line (make_entry k i (JStr t) nev) = JLine (make_entry k i (JStr t) nev)" for k
    using assms(2) by (simp add: written_line_def make_entry_def json_stable_def)
  then show ?thesis
    using assms(1,3)
    by (auto simp: appendEvent_def Let_def split_def append_line_def load_primary migrate_primary
        AList.update_conv' split: sum.splits)
qed

lemma truthy_of_prop: "is_string (get_prop v k) \<Longrightarrow> truthy (get_prop v k) \<Longrightarrow> k \<noteq> ''length'' \<Longrightarrow> truthy v"
  by (cases v) (auto split: if_splits)

lemma queue_inv_respond [simp]: "queue_inv (lv_queue (respond r c b lv)) = queue_inv (lv_queue lv)"
  by (simp add: queue_inv_def contents_def)

lemma queued_respond [simp]: "queued (lv_queue (respond r c b lv)) = queued (lv_queue lv)"
  by (simp add: queued_def)

text \<open>What an accepted request of a session kind leaves behind.\<close>

lemma accepted_post:
  assumes gate: "events_gate msg lv" and kind: "get_prop msg ''type'' \<in> session_kinds"
    and st: "lv_store lv = Some st" and reach: "store_reach st"
    and q: "queue_inv (lv_queue lv)" and js: "json_stable msg"
  obtains i s st' lv' where "get_prop msg ''id'' = JStr i" "storable_event msg i msg" "identified msg"
    "appendEvent (JStr (c # cs)) JUndef msg st = Inr (s, st')" "safeSessionId i = Inr i"
    "handleEventsPost now (JStr (c # cs)) res (Some msg) lv = Running lv'"
    "lv_store lv' = Some st'" "store_reach st'" "queue_inv (lv_queue lv')"
    "get_prop msg ''type'' \<noteq> JStr ''checkpoint'' \<Longrightarrow> \<exists>x \<in> queued (lv_queue lv'). same_key x msg"
    "last (outbox (lv_queue lv')) = HttpReply res 200 ok_body"
proof -
  have v: "validateEvent msg = Accepted" using gate by (simp add: events_gate_def)
  obtain i where i: "get_prop msg ''id'' = JStr i" "i \<noteq> []" "safeSessionId i = Inr i"
    "normalizeEvent msg JUndef = Inr (i, msg)" "identified msg"
    using accepted_identified [OF v kind] by metis
  obtain s st' where a: "appendEvent (JStr (c # cs)) JUndef msg st = Inr (s, st')"
    "store_event (JStr (c # cs)) msg lv = Inr (lv\<lparr>lv_store := Some st'\<rparr>)"
    using store_event_accepted [OF v i(1-3) st] by metis
  have wb: "writes_back msg"
    using json_stable_writes_back [OF js] validateEvent_cases(1) [OF v] by simp
  then have storable: "storable_event msg i msg" using i(4) by (simp add: storable_event_def)
  let ?lv' = "after_events_post now msg res (lv\<lparr>lv_store := Some st'\<rparr>)"
  have "lv_store ?lv' = Some st'" "queue_inv (lv_queue ?lv')"
    "last (outbox (lv_queue ?lv')) = HttpReply res 200 ok_body"
    using q by (simp_all add: after_events_post_def wq.inv_put)
  moreover have "\<exists>x \<in> queued (lv_queue ?lv'). same_key x msg"
    if "get_prop msg ''type'' \<noteq> JStr ''checkpoint''"
    using that wq.put_queued [OF q i(5), of now] by (simp add: after_events_post_def)
  ultimately show thesis
    using events_post_gate [OF gate a(2), of now res] i(5) a(1)
      sl.append_ok [OF reach storable a(1)]
    by (intro that [OF i(1) storable _ _ i(3)]) auto
qed



section \<open>Agent replies\<close>

lemma json_fields_read:
  assumes "distinct (map fst kvs)" "\<forall>v \<in> snd ` set kvs. v = JUndef \<or> json_stable v"
  shows "get_prop (JObj (json_norm_fields kvs)) k = get_prop (JObj kvs) k"
proof -
  have sub: "fst ` set (json_norm_fields xs) \<subseteq> fst ` set xs" for xs
  proof (induction xs)
    case (Cons x xs)
    then show ?case by (cases x) (simp add: subset_insertI2 insert_mono split: option.splits)
  qed simp
  have "map_of (json_norm_fields kvs) k = (case map_of kvs k of Some JUndef \<Rightarrow> None | r \<Rightarrow> r)"
    using assms
  proof (induction kvs)
    case (Cons x kvs)
    obtain k' v where x: "x = (k', v)" by (cases x)
    have none: "map_of (json_norm_fields kvs) k' = None" "map_of kvs k' = None"
      using Cons.prems(1) sub [of kvs] by (auto simp: x map_of_eq_None_iff)
    show ?case
      using Cons none by (cases v) (auto simp: x json_stable_def split: option.splits)
  qed simp
  then show ?thesis by (cases "map_of kvs k") (auto split: jsval.splits)
qed

definition reply_storable :: "jsval \<Rightarrow> bool" where
  "reply_storable v \<longleftrightarrow> v = JUndef \<or> json_stable v"

lemma stable_elem: "json_norm_list xs = xs \<Longrightarrow> i < length xs \<Longrightarrow> json_stable (xs ! i)"
proof (induction xs arbitrary: i)
  case (Cons x xs)
  have "json_stable x"
    using Cons.prems(1) by (cases x) (auto simp: json_stable_def split: option.splits)
  with Cons show ?case by (cases i) auto
qed simp

lemma stable_field: "json_norm_fields kvs = kvs \<Longrightarrow> map_of kvs k = Some v \<Longrightarrow> json_stable v"
proof (induction kvs)
  case (Cons x kvs)
  obtain k' w where x: "x = (k', w)" by (cases x)
  have len: "length (json_norm_fields ys) \<le> length ys" for ys
    by (induction ys) (auto split: option.splits)
  have "json_stable w \<and> json_norm_fields kvs = kvs"
    using Cons.prems(1) len [of kvs] by (auto simp: x json_stable_def split: option.splits)
  with Cons x show ?case by (auto split: if_splits)
qed simp

lemma reply_storable_simps [simp]:
  "reply_storable JUndef" "reply_storable (JStr s)" "reply_storable (JBool b)" "json_stable v \<Longrightarrow> reply_storable v"
  by (auto simp: reply_storable_def)

lemma reply_event_writes_back:
  assumes "\<forall>v \<in> {get_prop msg ''id'', fm_file meta, fm_sourceFile meta, fm_previewFile meta, fm_previewMode meta,
      get_prop msg ''message'', get_prop acked ''type''}. reply_storable v"
  shows "writes_back (reply_event msg meta acked)"
proof -
  obtain kvs where ev: "reply_event msg meta acked = JObj kvs" and
    kvs: "distinct (map fst kvs)" "\<forall>v \<in> snd ` set kvs. v = JUndef \<or> json_stable v"
  proof
    show "reply_event msg meta acked = JObj (case reply_event msg meta acked of JObj xs \<Rightarrow> xs)"
      by (simp add: reply_event_def)
  qed (use assms in \<open>simp_all add: reply_event_def reply_storable_def\<close>)
  have "\<not> pending_kind (get_prop (reply_event msg meta acked) ''type'')"
    by (simp add: reply_event_def reply_event_type_def pending_kind_def)
  then show ?thesis
    using json_fields_read [OF kvs] by (simp add: writes_back_def ev)
qed

definition meta_storable :: "file_meta \<Rightarrow> bool" where
  "meta_storable m \<longleftrightarrow> reply_storable (fm_file m) \<and> reply_storable (fm_sourceFile m) \<and>
     reply_storable (fm_previewFile m) \<and> reply_storable (fm_previewMode m)"

lemma meta_storable_if:
  "meta_storable a \<Longrightarrow> meta_storable b \<Longrightarrow> meta_storable (if c then a else b)"
  "meta_storable a \<Longrightarrow> (\<And>v. meta_storable (f v)) \<Longrightarrow> meta_storable (case r of None \<Rightarrow> a | Some v \<Rightarrow> f v)"
  by (auto split: option.split)

lemma metadata_storable:
  "reply_storable f \<Longrightarrow> meta_storable (sessionFileMetadataFromPollReply cwd read f)"
  unfolding sessionFileMetadataFromPollReply_def Let_def
  by (intro meta_storable_if) (simp_all add: meta_storable_def)

lemma reply_event_settles: "settle_kind (get_prop (reply_event msg meta acked) ''type'')"
  by (simp add: reply_event_def reply_event_type_def settle_kind_def)

lemma reply_event_normalizes:
  "get_prop msg ''id'' = JStr i \<Longrightarrow> i \<noteq> [] \<Longrightarrow>
     normalizeEvent (reply_event msg meta acked) fb = Inr (i, reply_event msg meta acked)"
  by (simp add: normalizeEvent_def js_or_def reply_event_def set_prop_def reply_event_type_def)

lemma acknowledge_found:
  assumes "truthy i" "entry_with_id i st = Some e"
  shows "fst (acknowledgePendingEvent now i st) = pe_event e"
    "pendingEvents (snd (acknowledgePendingEvent now i st)) = remove_seq (pe_seq e) (pendingEvents st)"
  using assms by (simp_all add: acknowledgePendingEvent_def)

lemma flush_subset:
  assumes "distinct (map pe_seq (pendingEvents st))"
  shows "set (contents (flushPendingPolls now st)) \<subseteq> set (contents st)"
  using flush_keeps [OF assms, of now False] by (auto simp: flushPendingPolls_def dest: keeps_subset)


text \<open>A reply to an id that is neither queued nor a session with a journal is refused (404, or 400
  without an id): the queue keeps its events and every journal stays as it is.\<close>

theorem unknown_reply_refused:
  assumes "\<not> truthy (get_prop msg ''id'') \<or> entry_with_id (get_prop msg ''id'') (lv_queue lv) = None"
    and "lv_store lv = Some st"
    and "truthy (get_prop msg ''id'') \<longrightarrow> readable_journal st (to_str (get_prop msg ''id'')) = None"
  shows "\<exists>lv' st' b. lv' = handle_session_reply cwd read now ts res msg lv \<and>
    pendingEvents (lv_queue lv') = pendingEvents (lv_queue lv) \<and>
    lv_store lv' = Some st' \<and> st_primary st' = st_primary st \<and>
    last (outbox (lv_queue lv')) =
      HttpReply res (if truthy (get_prop msg ''id'') then 404 else 400) b"
proof -
  let ?i = "get_prop msg ''id''"
  have ack: "acknowledgePendingEvent now ?i (lv_queue lv) = (JBool False, lv_queue lv)"
    "findPendingEventById ?i (lv_queue lv) = JNull"
    using assms(1) by (auto simp: acknowledgePendingEvent_def findPendingEventById_def)
  have ex: "\<exists>st'. existing_session ts ?i (lv\<lparr>lv_queue := lv_queue lv\<rparr>) = (None, lv\<lparr>lv_store := Some st'\<rparr>) \<and>
      st_primary st' = st_primary st"
  proof (cases "truthy ?i")
    case False
    with assms(2) show ?thesis by (intro exI [of _ st]) (simp add: existing_session_def)
  next
    case True
    show ?thesis
    proof (cases "getSnapshot ts (to_str ?i) True st")
      case (Inl e)
      with True assms(2) show ?thesis by (intro exI [of _ st]) (simp add: existing_session_def)
    next
      case (Inr r)
      obtain so st' where r: "r = (so, st')" by (cases r)
      have "so = Some (baseSnapshot (to_str ?i))" "st_primary st' = st_primary st"
        using getSnapshot_effect(1,4) [OF Inr [unfolded r]] assms(3) True
        by (simp_all add: rebuildSnapshotFromJournal_def empty_rebuilt_def)
      with True assms(2) Inr r show ?thesis
        by (intro exI [of _ st']) (simp add: existing_session_def baseSnapshot_def)
    qed
  qed
  then obtain st' where ex: "existing_session ts ?i (lv\<lparr>lv_queue := lv_queue lv\<rparr>) = (None, lv\<lparr>lv_store := Some st'\<rparr>)"
    "st_primary st' = st_primary st" by blast
  have "steer_done_without_content JNull msg = False" by (simp add: steer_done_without_content_def)
  then show ?thesis
    using ex by (simp add: handle_session_reply_def ack Let_def recordManualEditActivity_def)
qed

section \<open>A reply can drop a request that came after the one it answers\<close>

definition demo_live :: live where
  "demo_live = \<lparr>lv_token = ''k'', lv_queue = init_srv, lv_store = Some demo_store,
     lv_activity = JNull, lv_nextActivity = 1\<rparr>"

definition demo_msg :: "string \<Rightarrow> (string \<times> jsval) list \<Rightarrow> jsval" where
  "demo_msg ty rest = JObj ([(''type'', JStr ty), (''id'', JStr ''0123abcd''), (''token'', JStr ''k'')] @ rest)"

definition demo_generate :: jsval where
  "demo_generate = demo_msg ''generate'' [(''action'', JStr ''bolder''), (''count'', JInt 2),
     (''element'', JObj [(''outerHTML'', JStr ''<p>a</p>'')])]"

definition demo_accept :: jsval where
  "demo_accept = demo_msg ''accept'' [(''variantId'', JStr ''1'')]"

definition running :: "outcome \<Rightarrow> live" where
  "running r = (case r of Running lv \<Rightarrow> lv | Down \<Rightarrow> demo_live)"

text \<open>
  The agent's poll takes \<open>generate\<close>; the browser accepts a variant it already sees; the agent's
  reply to \<open>generate\<close> arrives last.
\<close>

definition crossing_run :: live where
  "crossing_run =
     (let a = running (handleEventsPost 1000 (JStr ''t1'') 1 (Some demo_generate) demo_live);
          b = with_queue (handlePollGet 1001 True 2 (Some 30000)) a;
          c = running (handleEventsPost 1002 (JStr ''t2'') 3 (Some demo_accept) b)
      in handle_session_reply [''app''] (\<lambda>_. None) 1003 (JStr ''t3'') 4 (demo_msg ''done'' []) c)"

definition crossing_store :: store where
  "crossing_store = (case lv_store crossing_run of Some st \<Rightarrow> st | None \<Rightarrow> demo_store)"

text \<open>The loss, as a check of the run.\<close>

definition crossing_drops :: "live \<Rightarrow> bool" where
  "crossing_drops lv =
     (let st = (case lv_store lv of Some st \<Rightarrow> st | None \<Rightarrow> demo_store);
          view = restart_view st ''0123abcd'';
          r = listActiveSessions JNull (createLiveSessionStore (st_primary st) (st_legacy st) [])
      in map pe_event (pendingEvents (lv_queue lv)) = [demo_accept] \<and> sn_pendingEvent view = JNull \<and>
         sn_phase view = JStr ''variants_ready'' \<and> \<not> isl r \<and>
         pendingEvents (restorePendingEventsFromStore 2000 (fst (projr r)) init_srv) = [])"


section \<open>Witnesses\<close>

lemma demo_live_ok:
  "lv_store demo_live = Some demo_store" "queue_inv (lv_queue demo_live)" "store_reach demo_store"
  by (simp_all add: demo_live_def queue_inv_init demo_reach)

lemma demo_generate_ok:
  "events_gate demo_generate demo_live" "get_prop demo_generate ''type'' \<in> session_kinds"
  "json_stable demo_generate"
proof -
  show "events_gate demo_generate demo_live" by code_simp
  show "get_prop demo_generate ''type'' \<in> session_kinds" "json_stable demo_generate"
    by (simp_all add: demo_generate_def demo_msg_def session_kinds_def json_stable_def)
qed

theorem events_post_rejection_changes_nothing_witness:
  "\<exists>status b. (400::nat) \<le> status \<and>
     running (handleEventsPost 1 (JStr ''t'') 7 (Some (JObj [(''token'', JStr ''x'')])) demo_live) =
       respond 7 status b demo_live"
proof -
  have r: "handleEventsPost 1 (JStr ''t'') 7 (Some (JObj [(''token'', JStr ''x'')])) demo_live =
      Running (respond 7 401 (error_body ''Unauthorized'') demo_live)"
    by (simp add: handleEventsPost_def demo_live_def)
  have "\<not> events_gate (JObj [(''token'', JStr ''x'')]) demo_live"
    by (simp add: events_gate_def demo_live_def)
  with events_post_rejection_changes_nothing [OF r] show ?thesis by (auto simp: r running_def)
qed



definition demo_waiting :: live where
  "demo_waiting = demo_live\<lparr>lv_queue := enqueueEvent 1000 demo_generate init_srv\<rparr>"


theorem unknown_reply_refused_witness:
  "pendingEvents (lv_queue (handle_session_reply [] (\<lambda>_. None) 1 JNull 4 (demo_msg ''done'' []) demo_live)) = []"
proof -
  have "entry_with_id (get_prop (demo_msg ''done'' []) ''id'') (lv_queue demo_live) = None"
    "readable_journal demo_store (to_str (get_prop (demo_msg ''done'' []) ''id'')) = None"
    by (code_simp+)
  then show ?thesis
    using unknown_reply_refused [of "demo_msg ''done'' []" demo_live demo_store "[]" "\<lambda>_. None" 1 JNull 4]
    by (simp add: demo_live_def init_srv_def)
qed

end
