(* ===== verification/JsFloat.thy ===== *)
theory JsFloat
  imports Complex_Main Prelude JsValue
begin

text \<open>
  The finite arithmetic of JavaScript numbers (IEEE 754 double precision) as the sources use it:
  a finite double is its exact rational value, each operation is the exact one followed by
  rounding to 53 significant bits, ties to even. Values below the normal range are rounded as if
  the exponent range were unbounded, and \<open>is_finite\<close> says which results are representable; signed
  zeros are identified.
\<close>

section \<open>Rounding\<close>

definition pow2 :: "int \<Rightarrow> rat" where
  "pow2 e = (if 0 \<le> e then 2 ^ nat e else 1 / 2 ^ nat (- e))"

definition round_half_even :: "rat \<Rightarrow> int" where
  "round_half_even r =
     (let n = \<lfloor>r\<rfloor>; d = r - of_int n in
      if d < 1 / 2 then n else if 1 / 2 < d then n + 1 else if even n then n else n + 1)"

text \<open>The number of binary digits.\<close>

function bits :: "int \<Rightarrow> int" where
  "bits n = (if n \<le> 0 then 0 else 1 + bits (n div 2))"
  by pat_completeness auto
termination by (relation "measure nat") auto

declare bits.simps [simp del]

text \<open>The exponent of the last place: \<open>x * 2 ^ (- e)\<close> has 53 bits before the point.\<close>

definition last_place :: "rat \<Rightarrow> int" where
  "last_place x =
     (let (p, q) = quotient_of x; e = bits p - bits q - 53 in
      if pow2 (e + 53) \<le> x then e + 1 else e)"

definition rnd_pos :: "rat \<Rightarrow> rat" where
  "rnd_pos x = (let e = last_place x in of_int (round_half_even (x / pow2 e)) * pow2 e)"

definition rnd :: "rat \<Rightarrow> rat" where
  "rnd x = (if x = 0 then 0 else if 0 < x then rnd_pos x else - rnd_pos (- x))"

definition fadd :: "rat \<Rightarrow> rat \<Rightarrow> rat" where "fadd x y = rnd (x + y)"
definition fsub :: "rat \<Rightarrow> rat \<Rightarrow> rat" where "fsub x y = rnd (x - y)"
definition fmul :: "rat \<Rightarrow> rat \<Rightarrow> rat" where "fmul x y = rnd (x * y)"
definition fdiv :: "rat \<Rightarrow> rat \<Rightarrow> rat" where "fdiv x y = rnd (x / y)"

text \<open>The remainder \<open>x % y\<close> is exact and has the sign of \<open>x\<close>.\<close>

definition ftrunc :: "rat \<Rightarrow> int" where
  "ftrunc x = (if 0 \<le> x then \<lfloor>x\<rfloor> else - \<lfloor>- x\<rfloor>)"

definition fmod :: "rat \<Rightarrow> rat \<Rightarrow> rat" where
  "fmod x y = x - y * of_int (ftrunc (x / y))"

definition is_finite :: "rat \<Rightarrow> bool" where
  "is_finite x \<longleftrightarrow> \<bar>x\<bar> < 2 ^ 1024"

definition math_round :: "rat \<Rightarrow> int" where
  "math_round x = \<lfloor>x + 1 / 2\<rfloor>"

definition MATH_PI :: rat where
  "MATH_PI = 884279719003555 / 281474976710656"

text \<open>\<open>Number.parseFloat\<close> on an optional minus sign, digits, and an optional fraction.\<close>

definition parse_decimal :: "string \<Rightarrow> rat" where
  "parse_decimal s =
     (let neg = starts_with s ''-''; body = (if neg then tl s else s);
          ip = takeWhile is_digit body; fp = takeWhile is_digit (tl (dropWhile is_digit body));
          m = rnd (of_nat (digits_value 0 (ip @ fp)) / 10 ^ length fp)
      in if neg then - m else m)"

section \<open>Lemmas\<close>

lemma pow2_pos [simp]: "0 < pow2 e"
  by (simp add: pow2_def)

lemma round_half_even_le: "r \<le> of_int n \<Longrightarrow> round_half_even r \<le> n"
proof -
  assume le: "r \<le> of_int n"
  then have "\<lfloor>r\<rfloor> \<le> n" by linarith
  moreover have "\<lfloor>r\<rfloor> = n \<Longrightarrow> r - of_int \<lfloor>r\<rfloor> < 1 / 2" using le by simp
  ultimately show ?thesis by (cases "\<lfloor>r\<rfloor> = n") (auto simp: round_half_even_def Let_def)
qed

lemma round_half_even_nonneg: "0 \<le> r \<Longrightarrow> 0 \<le> round_half_even r"
  by (auto simp: round_half_even_def Let_def)

lemma rnd_nonneg: "0 \<le> x \<Longrightarrow> 0 \<le> rnd x"
  by (simp add: rnd_def rnd_pos_def Let_def round_half_even_nonneg less_imp_le)

lemma pow2_nat: "0 \<le> e \<Longrightarrow> pow2 e = of_int (2 ^ nat e)"
  by (simp add: pow2_def)

lemma pow2_minus: "pow2 (- e) * pow2 e = 1"
  by (auto simp: pow2_def)

text \<open>Rounding does not take a value past a power of two that its last place divides.\<close>

lemma rnd_le_pow2:
  assumes "0 < x" "x \<le> pow2 k" "last_place x \<le> k"
  shows "rnd x \<le> pow2 k"
proof -
  let ?e = "last_place x"
  have split: "pow2 k = of_int (2 ^ nat (k - ?e)) * pow2 ?e"
  proof (cases "0 \<le> ?e")
    case True
    then have "nat k = nat (k - ?e) + nat ?e" using assms(3) by simp
    then show ?thesis using True assms(3) by (simp add: pow2_def power_add)
  next
    case False
    show ?thesis
    proof (cases "0 \<le> k")
      case True
      then have "nat (k - ?e) = nat k + nat (- ?e)" using False by simp
      then show ?thesis using True False by (simp add: pow2_def power_add)
    next
      case k: False
      then have "nat (- ?e) = nat (k - ?e) + nat (- k)" using False assms(3) by simp
      then show ?thesis using k False by (simp add: pow2_def power_add)
    qed
  qed
  then have "x / pow2 ?e \<le> of_int (2 ^ nat (k - ?e))"
    using assms(2) by (simp add: pos_divide_le_eq)
  then have "round_half_even (x / pow2 ?e) \<le> 2 ^ nat (k - ?e)" by (rule round_half_even_le)
  then have "(of_int (round_half_even (x / pow2 ?e)) :: rat) \<le> of_int (2 ^ nat (k - ?e))"
    by (simp only: of_int_le_iff)
  then show ?thesis
    unfolding split using assms(1)
    by (simp add: rnd_def rnd_pos_def Let_def mult_right_mono less_imp_le)
qed

lemma bits_mono: "p \<le> q \<Longrightarrow> bits p \<le> bits q"
proof (induction q arbitrary: p rule: bits.induct)
  case (1 q)
  have nonneg: "0 \<le> bits n" for n
    by (induction n rule: bits.induct) (simp add: bits.simps)
  show ?case
    using 1 nonneg [of "q div 2"]
    by (cases "p \<le> 0"; cases "q \<le> 0") (auto simp: bits.simps [of p] bits.simps [of q] zdiv_mono1)
qed

lemma last_place_unit:
  assumes "0 < x" "x \<le> 1"
  shows "last_place x \<le> 0"
proof -
  obtain p q where pq: "quotient_of x = (p, q)" by (cases "quotient_of x")
  have q: "0 < q" using quotient_of_denom_pos [OF pq] .
  have x: "x = of_int p / of_int q" using quotient_of_div [OF pq] .
  have "p \<le> q" using assms(2) q by (simp add: x divide_le_eq)
  then have "bits p \<le> bits q" by (rule bits_mono)
  then show ?thesis by (simp add: last_place_def pq Let_def)
qed

lemma rnd_unit: "0 \<le> x \<Longrightarrow> x \<le> 1 \<Longrightarrow> 0 \<le> rnd x \<and> rnd x \<le> 1"
  using rnd_le_pow2 [of x 0] last_place_unit [of x]
  by (cases "x = 0") (simp_all add: rnd_nonneg pow2_def rnd_def [of 0])

lemma math_round_bounds:
  "of_int a \<le> x \<Longrightarrow> x \<le> of_int b \<Longrightarrow> a \<le> math_round x \<and> math_round x \<le> b"
  unfolding math_round_def by (intro conjI) linarith+

end
