(* ===== verification/IgnoreColor.thy ===== *)
theory IgnoreColor
  imports JsRegex JsFloat
begin

text \<open>
  The colour values of design-system waivers (\<open>lib/impeccable-config.mjs\<close>, repeated word for word
  in \<open>hook-lib.mjs\<close>): parsing of hex, \<open>rgb()\<close> and \<open>hsl()\<close> notations into channels, and the key two
  notations of one colour share. Text is lower case where the code lowers it first, so the
  patterns need no case folding.
\<close>

record color =
  cl_r :: int
  cl_g :: int
  cl_b :: int
  cl_a :: rat

section \<open>Hex notation\<close>

definition is_hex :: "char \<Rightarrow> bool" where
  "is_hex c \<longleftrightarrow> is_digit c \<or> (97 \<le> code c \<and> code c \<le> 102)"

definition hex_digit :: "char \<Rightarrow> int" where
  "hex_digit c = (if is_digit c then int (code c) - 48 else int (code c) - 87)"

text \<open>\<open>parseInt(s, 16)\<close> on hex digits.\<close>

fun parse_hex :: "int \<Rightarrow> string \<Rightarrow> int" where
  "parse_hex acc [] = acc"
| "parse_hex acc (c # cs) = parse_hex (16 * acc + hex_digit c) cs"

definition hex_color_re :: re where
  "hex_color_re =
     RSeqs [RBol, RChr CHR ''#'',
       RGrp 1 (RAlts [RRep True 3 (Some 4) (RCls is_hex), RRep True 6 (Some 6) (RCls is_hex),
                      RRep True 8 (Some 8) (RCls is_hex)]),
       REol]"

definition parseHexIgnoreColor :: "string \<Rightarrow> color" where
  "parseHexIgnoreColor hex =
     (if length hex = 3 \<or> length hex = 4
      then \<lparr>cl_r = parse_hex 0 [hex ! 0, hex ! 0], cl_g = parse_hex 0 [hex ! 1, hex ! 1],
            cl_b = parse_hex 0 [hex ! 2, hex ! 2],
            cl_a = (if length hex = 4 then fdiv (of_int (parse_hex 0 [hex ! 3, hex ! 3])) 255 else 1)\<rparr>
      else \<lparr>cl_r = parse_hex 0 (take 2 hex), cl_g = parse_hex 0 (take 2 (drop 2 hex)),
            cl_b = parse_hex 0 (take 2 (drop 4 hex)),
            cl_a = (if length hex = 8 then fdiv (of_int (parse_hex 0 (take 2 (drop 6 hex)))) 255 else 1)\<rparr>)"

section \<open>Functional notation\<close>

definition splitColorArgs :: "string \<Rightarrow> string list" where
  "splitColorArgs body =
     (let text = trim body in
      if text = [] then []
      else if CHR '','' \<in> set text
      then let parts = filter (\<lambda>p. p \<noteq> []) (map trim (split_on CHR '','' text)) in
           if parts \<noteq> [] \<and> CHR ''/'' \<in> set (last parts)
           then butlast parts @ filter (\<lambda>p. p \<noteq> []) (map trim (split_on CHR ''/'' (last parts)))
           else parts
      else filter (\<lambda>p. p \<noteq> [] \<and> p \<noteq> ''/'')
             (re_split (RPlus RSp)
               (re_replace_all (RSeqs [RStar RSp, RChr CHR ''/'', RStar RSp]) (\<lambda>_. '' / '') text)))"

text \<open>\<open>-?\d*\.?\d+\<close>.\<close>

definition number_re :: re where
  "number_re = RSeqs [ROpt (RChr CHR ''-''), RStar RDig, ROpt (RChr CHR ''.''), RPlus RDig]"

definition number_unit_re :: "re \<Rightarrow> re" where
  "number_unit_re u = RSeqs [RBol, RGrp 1 number_re, ROpt (RGrp 2 u), REol]"

text \<open>A number and its unit; \<open>None\<close> when the pattern fails or the number is not finite.\<close>

definition number_with_unit :: "re \<Rightarrow> string \<Rightarrow> (rat \<times> string option) option" where
  "number_with_unit u raw =
     (case re_exec (number_unit_re u) (trim raw) of
        None \<Rightarrow> None
      | Some m \<Rightarrow>
          let value = parse_decimal (case cap m 1 of None \<Rightarrow> [] | Some s \<Rightarrow> s) in
          if is_finite value then Some (value, cap m 2) else None)"

definition parseRgbChannel :: "string \<Rightarrow> int option" where
  "parseRgbChannel raw =
     (case number_with_unit (RChr CHR ''%'') raw of
        None \<Rightarrow> None
      | Some (value, u) \<Rightarrow>
          let scaled = (if u \<noteq> None then fmul value (rnd (255 / 100)) else value) in
          if scaled < 0 \<or> 255 < scaled then None else Some (math_round scaled))"

definition parseAlphaChannel :: "string \<Rightarrow> rat option" where
  "parseAlphaChannel raw =
     (case number_with_unit (RChr CHR ''%'') raw of
        None \<Rightarrow> None
      | Some (value, u) \<Rightarrow>
          let alpha = (if u \<noteq> None then fdiv value 100 else value) in
          if 0 \<le> alpha \<and> alpha \<le> 1 then Some alpha else None)"

definition parseHueChannel :: "string \<Rightarrow> rat option" where
  "parseHueChannel raw =
     (case number_with_unit (RAlts [RLit ''deg'', RLit ''rad'', RLit ''turn'', RLit ''grad'']) raw of
        None \<Rightarrow> None
      | Some (value, u) \<Rightarrow>
          Some (if u = Some ''turn'' then fmul value 360
                else if u = Some ''rad'' then fmul value (fdiv 180 MATH_PI)
                else if u = Some ''grad'' then fmul value (rnd (9 / 10))
                else value))"

definition parsePercentChannel :: "string \<Rightarrow> rat option" where
  "parsePercentChannel raw =
     (case re_exec (RSeqs [RBol, RGrp 1 number_re, RChr CHR ''%'', REol]) (trim raw) of
        None \<Rightarrow> None
      | Some m \<Rightarrow>
          let value = parse_decimal (case cap m 1 of None \<Rightarrow> [] | Some s \<Rightarrow> s) in
          if \<not> is_finite value then None
          else if 0 \<le> value \<and> value \<le> 100 then Some (fdiv value 100) else None)"

definition clampByte :: "int \<Rightarrow> int" where
  "clampByte v = min 255 (max 0 v)"

text \<open>One channel from the two HSL intermediates and a hue offset.\<close>

definition hsl_channel :: "rat \<Rightarrow> rat \<Rightarrow> rat \<Rightarrow> rat" where
  "hsl_channel p q t =
     (let c1 = (if t < 0 then fadd t 1 else t); c = (if 1 < c1 then fsub c1 1 else c1) in
      if c < fdiv 1 6 then fadd p (fmul (fmul (fsub q p) 6) c)
      else if c < fdiv 1 2 then q
      else if c < fdiv 2 3 then fadd p (fmul (fmul (fsub q p) (fsub (fdiv 2 3) c)) 6)
      else p)"

definition hslToRgb :: "rat \<Rightarrow> rat \<Rightarrow> rat \<Rightarrow> rat \<Rightarrow> color" where
  "hslToRgb hue s l alpha =
     (let h = fdiv (fmod (fadd (fmod hue 360) 360) 360) 360 in
      if s = 0
      then let gray = clampByte (math_round (fmul l 255)) in
           \<lparr>cl_r = gray, cl_g = gray, cl_b = gray, cl_a = alpha\<rparr>
      else let q = (if l < 1 / 2 then fmul l (fadd 1 s) else fsub (fadd l s) (fmul l s));
               p = fsub (fmul 2 l) q;
               ch = (\<lambda>t. clampByte (math_round (fmul (hsl_channel p q t) 255)))
           in \<lparr>cl_r = ch (fadd h (fdiv 1 3)), cl_g = ch h, cl_b = ch (fsub h (fdiv 1 3)), cl_a = alpha\<rparr>)"

section \<open>Any notation\<close>

definition function_re :: "string \<Rightarrow> re" where
  "function_re name =
     RSeqs [RBol, RLit name, ROpt (RChr CHR ''a''), RChr CHR ''('', RGrp 1 (RStar RAny), RChr CHR '')'', REol]"

text \<open>The alpha argument, when there is one.\<close>

definition alpha_arg :: "string list \<Rightarrow> rat option" where
  "alpha_arg parts = (if length parts \<le> 3 then Some 1 else parseAlphaChannel (parts ! 3))"

definition parse_rgb_args :: "string list \<Rightarrow> color option" where
  "parse_rgb_args parts =
     (if length parts < 3 \<or> 4 < length parts then None
      else case (parseRgbChannel (parts ! 0), parseRgbChannel (parts ! 1), parseRgbChannel (parts ! 2),
                 alpha_arg parts) of
             (Some r, Some g, Some b, Some a) \<Rightarrow> Some \<lparr>cl_r = r, cl_g = g, cl_b = b, cl_a = a\<rparr>
           | _ \<Rightarrow> None)"

definition parse_hsl_args :: "string list \<Rightarrow> color option" where
  "parse_hsl_args parts =
     (if length parts < 3 \<or> 4 < length parts then None
      else case (parseHueChannel (parts ! 0), parsePercentChannel (parts ! 1),
                 parsePercentChannel (parts ! 2), alpha_arg parts) of
             (Some h, Some s, Some l, Some a) \<Rightarrow> Some (hslToRgb h s l a)
           | _ \<Rightarrow> None)"

definition parseIgnoreColor :: "string \<Rightarrow> color option" where
  "parseIgnoreColor v =
     (let text = to_lower (trim v) in
      if text = [] then None
      else case re_exec hex_color_re text of
        Some m \<Rightarrow> Some (parseHexIgnoreColor (case cap m 1 of None \<Rightarrow> [] | Some s \<Rightarrow> s))
      | None \<Rightarrow>
          (case re_exec (function_re ''rgb'') text of
             Some m \<Rightarrow> parse_rgb_args (splitColorArgs (case cap m 1 of None \<Rightarrow> [] | Some s \<Rightarrow> s))
           | None \<Rightarrow>
               (case re_exec (function_re ''hsl'') text of
                  Some m \<Rightarrow> parse_hsl_args (splitColorArgs (case cap m 1 of None \<Rightarrow> [] | Some s \<Rightarrow> s))
                | None \<Rightarrow> None)))"

definition colorIgnoreKey :: "string \<Rightarrow> string" where
  "colorIgnoreKey v =
     (case parseIgnoreColor v of
        None \<Rightarrow> []
      | Some c \<Rightarrow> join '','' [int_digits (cl_r c), int_digits (cl_g c), int_digits (cl_b c),
                            int_digits (math_round (fmul (cl_a c) 255))])"

definition ignoreValueMatches :: "string \<Rightarrow> string \<Rightarrow> string \<Rightarrow> bool" where
  "ignoreValueMatches rule entryValue findingValue \<longleftrightarrow>
     entryValue = findingValue \<or>
     (rule = ''design-system-color'' \<and> colorIgnoreKey entryValue \<noteq> [] \<and>
      colorIgnoreKey entryValue = colorIgnoreKey findingValue)"

section \<open>Bounds of the channels\<close>

definition color_ok :: "color \<Rightarrow> bool" where
  "color_ok c \<longleftrightarrow> {cl_r c, cl_g c, cl_b c} \<subseteq> {0..255} \<and> 0 \<le> cl_a c \<and> cl_a c \<le> 1"

lemma hex_digit_bounds: "is_hex c \<Longrightarrow> 0 \<le> hex_digit c \<and> hex_digit c \<le> 15"
  by (auto simp: is_hex_def hex_digit_def is_digit_def)

lemma parse_hex_two:
  "is_hex c \<Longrightarrow> is_hex d \<Longrightarrow> 0 \<le> parse_hex 0 [c, d] \<and> parse_hex 0 [c, d] \<le> 255"
  using hex_digit_bounds [of c] hex_digit_bounds [of d] by simp

lemma hex_alpha_bounds:
  "0 \<le> n \<Longrightarrow> n \<le> 255 \<Longrightarrow> 0 \<le> fdiv (of_int n) 255 \<and> fdiv (of_int n) 255 \<le> 1"
  unfolding fdiv_def by (rule rnd_unit) auto

text \<open>A hex text of one of the accepted lengths is its digits.\<close>

lemma hex_text_cases:
  assumes "length s \<in> {3, 4, 6, 8}"
  obtains a b c where "s = [a, b, c]" | a b c d where "s = [a, b, c, d]"
    | a b c d e f where "s = [a, b, c, d, e, f]" | a b c d e f g h where "s = [a, b, c, d, e, f, g, h]"
proof -
  have "length s = 3 \<or> length s = 4 \<or> length s = 6 \<or> length s = 8" using assms by auto
  then show thesis
    by (elim disjE) (auto simp: numeral_eq_Suc length_Suc_conv intro: that)
qed

lemma hex_color_ok:
  assumes "length s \<in> {3, 4, 6, 8}" "list_all is_hex s"
  shows "color_ok (parseHexIgnoreColor s)"
  using assms(1)
proof (cases rule: hex_text_cases)
  case (1 a b c)
  then show ?thesis using assms(2) parse_hex_two [of a a] parse_hex_two [of b b] parse_hex_two [of c c]
    by (simp add: parseHexIgnoreColor_def color_ok_def)
next
  case (2 a b c d)
  then show ?thesis using assms(2) parse_hex_two [of a a] parse_hex_two [of b b] parse_hex_two [of c c]
      parse_hex_two [of d d] hex_alpha_bounds [of "parse_hex 0 [d, d]"]
    by (simp add: parseHexIgnoreColor_def color_ok_def)
next
  case (3 a b c d e f)
  then show ?thesis using assms(2) parse_hex_two [of a b] parse_hex_two [of c d] parse_hex_two [of e f]
    by (simp add: parseHexIgnoreColor_def color_ok_def)
next
  case (4 a b c d e f g h)
  then show ?thesis using assms(2) parse_hex_two [of a b] parse_hex_two [of c d] parse_hex_two [of e f]
      parse_hex_two [of g h] hex_alpha_bounds [of "parse_hex 0 [g, h]"]
    by (simp add: parseHexIgnoreColor_def color_ok_def)
qed

lemma parseRgbChannel_bounds: "parseRgbChannel raw = Some v \<Longrightarrow> 0 \<le> v \<and> v \<le> 255"
  by (auto simp: parseRgbChannel_def Let_def split: option.splits if_splits
      intro!: math_round_bounds [THEN conjunct1, of 0 _ 255] math_round_bounds [THEN conjunct2, of 0 _ 255])

lemma alpha_arg_bounds: "alpha_arg parts = Some a \<Longrightarrow> 0 \<le> a \<and> a \<le> 1"
  by (auto simp: alpha_arg_def parseAlphaChannel_def Let_def split: option.splits if_splits)

lemma clampByte_bounds: "0 \<le> clampByte v \<and> clampByte v \<le> 255"
  by (simp add: clampByte_def)

lemma rgb_args_ok: "parse_rgb_args parts = Some c \<Longrightarrow> color_ok c"
  by (auto simp: parse_rgb_args_def color_ok_def split: option.splits if_splits
      dest!: parseRgbChannel_bounds alpha_arg_bounds)

lemma hsl_args_ok: "parse_hsl_args parts = Some c \<Longrightarrow> color_ok c"
  by (auto simp: parse_hsl_args_def color_ok_def hslToRgb_def Let_def clampByte_bounds
      split: option.splits if_splits dest!: alpha_arg_bounds)

section \<open>The hex pattern\<close>

definition at_end :: "rpos \<Rightarrow> bool" where
  "at_end st \<longleftrightarrow> fst (snd st) = []"

lemma at_end_fun: "at_end = (\<lambda>st. fst (snd st) = [])"
  by (simp add: at_end_def fun_eq_iff)

lemma rmatch_then_end: "rmatch (RSeq r REol) st = filter at_end (rmatch r st)"
proof -
  have "concat (map (rmatch REol) xs) = filter at_end xs" for xs
    by (induction xs) (auto simp: at_end_def)
  then show ?thesis by simp
qed

lemma rmatch_chr_seq: "rmatch (RSeq (RChr c) r) (pv, c # s, g) = rmatch r (c # pv, s, g)"
  by (simp add: RChr_def)

lemma filter_unique:
  "filter (\<lambda>j. j = k) (rev [a..<b]) = (if a \<le> k \<and> k < b then [k] else [])"
proof -
  have "filter (\<lambda>j. j = k) [a..<b] = (if a \<le> k \<and> k < b then [k] else [])"
    by (induction b) auto
  then show ?thesis by (auto simp: rev_filter [symmetric])
qed

lemma exact_class:
  assumes "m \<le> n" "0 < m"
  shows "filter at_end (rmatch (RRep True m (Some n) (RCls p)) (pv, s, g)) =
    (if m \<le> length s \<and> length s \<le> n \<and> list_all p s then [(rev s @ pv, [], g)] else [])"
proof -
  let ?L = "min n (length (takeWhile p s))"
  have le: "length (takeWhile p s) \<le> length s" by (rule length_takeWhile_le)
  have "filter at_end (map (\<lambda>j. adv j (pv, s, g)) (rev [m..<Suc ?L])) =
      map (\<lambda>j. adv j (pv, s, g)) (filter (\<lambda>j. j = length s) (rev [m..<Suc ?L]))"
    unfolding filter_map o_def using le
    by (intro arg_cong [where f = "map _"] filter_cong) (auto simp: at_end_def adv_def simp del: upt_Suc)
  also have "\<dots> = (if m \<le> length s \<and> length s < Suc ?L then [adv (length s) (pv, s, g)] else [])"
    by (simp add: filter_unique del: upt_Suc)
  also have "length s < Suc ?L \<longleftrightarrow> length s \<le> n \<and> list_all p s"
    using takeWhile_len_iff [of s p] by auto
  finally show ?thesis
    using rmatch_class_rep [of "Some n" m p pv s g] assms by (simp add: rep_limit_def adv_def)
qed

lemma hex_color_exec:
  "re_exec hex_color_re (CHR ''#'' # s) =
     (if length s \<in> {3, 4, 6, 8} \<and> list_all is_hex s
      then Some \<lparr>m_before = [], m_text = CHR ''#'' # s, m_after = [], m_caps = [(1, s)]\<rparr> else None)"
proof -
  let ?r = "\<lambda>m n. RRep True m (Some n) (RCls is_hex)"
  let ?A = "RAlt (?r 3 4) (RAlt (?r 6 6) (?r 8 8))"
  let ?st = "([CHR ''#''], s, [])"
  have g: "filter at_end (rmatch (RGrp 1 ?A) ?st) =
      map (\<lambda>(pv', rest', g'). (pv', rest', set_cap 1 (take (length s - length rest') s) g'))
        (filter at_end (rmatch ?A ?st))"
    by (simp add: filter_map o_def at_end_fun split_def del: rmatch.simps(4,5))
  have "filter at_end (rmatch ?A ?st) =
      (if length s \<in> {3, 4, 6, 8} \<and> list_all is_hex s then [(rev s @ [CHR ''#''], [], [])] else [])"
    unfolding rmatch.simps(4) filter_append by (subst exact_class, simp, simp)+ auto
  then have "rmatch (RSeq (RChr CHR ''#'') (RSeq (RGrp 1 ?A) REol)) ([], CHR ''#'' # s, []) =
      (if length s \<in> {3, 4, 6, 8} \<and> list_all is_hex s then [(rev s @ [CHR ''#''], [], [(1, s)])] else [])"
    unfolding rmatch_chr_seq rmatch_then_end using g by (simp add: set_cap_def del: rmatch.simps)
  then show ?thesis
    unfolding re_exec_def hex_color_re_def RSeqs.simps RAlts.simps search_from_Bol_Nil
    by (simp add: match_here_def del: rmatch.simps)
qed

lemma hex_color_exec_other: "tx = [] \<or> hd tx \<noteq> CHR ''#'' \<Longrightarrow> re_exec hex_color_re tx = None"
  unfolding re_exec_def hex_color_re_def RSeqs.simps RAlts.simps search_from_Bol_Nil
  by (cases tx) (auto simp: match_here_def RChr_def simp del: rmatch.simps(4-6,9))

lemma hex_color_exec_Some:
  assumes "re_exec hex_color_re tx = Some m"
  obtains s where "tx = CHR ''#'' # s" "length s \<in> {3, 4, 6, 8}" "list_all is_hex s" "cap m 1 = Some s"
proof (cases tx)
  case Nil
  with assms show thesis using hex_color_exec_other [of tx] by simp
next
  case (Cons c s)
  with assms have c: "c = CHR ''#''" using hex_color_exec_other [of tx] by force
  then show thesis
    using assms Cons hex_color_exec [of s] by (intro that [of s]) (auto simp: cap_def split: if_splits)
qed

section \<open>Properties\<close>

text \<open>C32: Every colour the parser accepts has red, green and blue channels between 0 and 255 and an alpha
  between 0 and 1, whatever the notation: hex digits, numbers, percentages and hues out of range
  are rejected or clamped.\<close>

theorem parsed_color_in_range:
  assumes "parseIgnoreColor v = Some c"
  shows "{cl_r c, cl_g c, cl_b c} \<subseteq> {0..255} \<and> 0 \<le> cl_a c \<and> cl_a c \<le> 1"
proof -
  have "color_ok c"
    using assms
    by (auto simp: parseIgnoreColor_def Let_def split: if_splits option.splits
        elim!: hex_color_exec_Some intro: hex_color_ok rgb_args_ok hsl_args_ok)
  then show ?thesis by (simp add: color_ok_def)
qed

lemma hex_not_space: "is_hex c \<Longrightarrow> \<not> is_space c \<and> to_lower_char c = c"
  by (auto simp: is_hex_def is_space_def to_lower_char_def is_upper_def is_digit_def)

lemma trim_no_space:
  "list_all (\<lambda>c. \<not> is_space c) s \<Longrightarrow> trim s = s"
proof -
  have d: "list_all (\<lambda>c. \<not> is_space c) xs \<Longrightarrow> dropWhile is_space xs = xs" for xs
    by (cases xs) auto
  assume "list_all (\<lambda>c. \<not> is_space c) s"
  then show ?thesis using d [of s] d [of "rev s"] by (simp add: trim_def trim_start_def trim_end_def list_all_rev)
qed

lemma hex_text_stable:
  "list_all is_hex s \<Longrightarrow> to_lower (trim (CHR ''#'' # s)) = CHR ''#'' # s"
proof -
  assume h: "list_all is_hex s"
  have "trim (CHR ''#'' # s) = CHR ''#'' # s"
    using h hex_not_space by (intro trim_no_space) (auto simp: list_all_iff is_space_def code_def)
  moreover have "map to_lower_char s = s"
    using h hex_not_space by (auto simp: list_all_iff intro: map_idI)
  ultimately show ?thesis by (simp add: to_lower_def to_lower_char_def is_upper_def code_def)
qed

lemma parse_hex_color:
  "length s \<in> {3, 4, 6, 8} \<Longrightarrow> list_all is_hex s \<Longrightarrow>
     parseIgnoreColor (CHR ''#'' # s) = Some (parseHexIgnoreColor s)"
  unfolding parseIgnoreColor_def by (simp add: hex_text_stable hex_color_exec cap_def)

text \<open>A three or four digit hex colour and the six or eight digit form with every digit doubled are
  the same waiver value: a \<open>design-system-color\<close> waiver for the one matches a finding of the other.\<close>

theorem short_hex_matches_long:
  assumes "length s \<in> {3, 4}" "list_all is_hex s"
  shows "ignoreValueMatches ''design-system-color'' (CHR ''#'' # s)
    (CHR ''#'' # concat (map (\<lambda>c. [c, c]) s))"
proof -
  let ?d = "concat (map (\<lambda>c. [c, c]) s)"
  have len: "length (concat (map (\<lambda>c. [c, c]) x)) = 2 * length x" for x :: string by (induction x) auto
  have hex: "list_all is_hex ?d" using assms(2) by (simp add: list_all_iff)
  have "length s = 3 \<or> length s = 4" using assms(1) by auto
  then have "parseHexIgnoreColor ?d = parseHexIgnoreColor s"
    by (elim disjE) (auto simp: numeral_eq_Suc length_Suc_conv parseHexIgnoreColor_def)
  then have "parseIgnoreColor (CHR ''#'' # ?d) = parseIgnoreColor (CHR ''#'' # s)"
    using assms hex len [of s] by (auto simp: parse_hex_color)
  then have "colorIgnoreKey (CHR ''#'' # ?d) = colorIgnoreKey (CHR ''#'' # s)"
    by (simp add: colorIgnoreKey_def)
  moreover have "colorIgnoreKey (CHR ''#'' # s) \<noteq> []"
    using assms by (auto simp: colorIgnoreKey_def parse_hex_color)
  ultimately show ?thesis by (simp add: ignoreValueMatches_def)
qed

section \<open>Witnesses\<close>

theorem parsed_color_in_range_witness:
  "\<exists>c. parseIgnoreColor ''#0af8'' = Some c \<and> 0 \<le> cl_a c \<and> cl_a c \<le> 1"
proof -
  have "parseIgnoreColor ''#0af8'' \<noteq> None" by code_simp
  then show ?thesis using parsed_color_in_range by fastforce
qed

theorem short_hex_matches_long_witness:
  "ignoreValueMatches ''design-system-color'' ''#0af'' ''#00aaff''"
  using short_hex_matches_long [of "''0af''"] by (simp add: is_hex_def is_digit_def code_def)

end
