(* ===== verification/Globs.thy ===== *)
theory Globs
  imports JsRegex JsValue
begin

text \<open>
  The glob patterns of the ignore lists (\<open>lib/impeccable-config.mjs\<close>, repeated in \<open>hook-lib.mjs\<close>):
  \<open>globToRegex\<close> writes the source of a regular expression and compiles it. The model builds the
  compiled pattern; \<open>None\<close> is the \<open>SyntaxError\<close> of \<open>new RegExp\<close>. Inside braces \<open>*\<close> and \<open>?\<close> are
  not escaped by the code, so there they are the quantifiers of the regular expression.
\<close>

section \<open>Compilation\<close>

lemma shorter:
  "length (dropWhile P cs) - Suc 0 < Suc (length cs)" "length cs - n < Suc (length cs)"
  using length_dropWhile_le [of P cs] by simp_all

definition not_slash :: re where
  "not_slash = RCls (\<lambda>c. c \<noteq> CHR ''/'')"

text \<open>One alternative of a brace group, read as the regular expression it becomes.\<close>

fun brace_part :: "string \<Rightarrow> re list option" where
  "brace_part [] = Some []"
| "brace_part (c # cs) =
     (if c = CHR ''*'' \<or> c = CHR ''?'' then None
      else if starts_with cs ''*?'' then map_option ((#) (RLazy (RChr c))) (brace_part (drop 2 cs))
      else if starts_with cs ''*'' then map_option ((#) (RStar (RChr c))) (brace_part (drop 1 cs))
      else if starts_with cs ''??''
      then map_option ((#) (RRep False 0 (Some 1) (RChr c))) (brace_part (drop 2 cs))
      else if starts_with cs ''?'' then map_option ((#) (ROpt (RChr c))) (brace_part (drop 1 cs))
      else map_option ((#) (RChr c)) (brace_part cs))"

definition brace_group :: "string \<Rightarrow> re option" where
  "brace_group body =
     (let parts = map brace_part (split_on CHR '','' body) in
      if None \<in> set parts then None else Some (RAlts (map (RSeqs \<circ> the) parts)))"

function glob_items :: "string \<Rightarrow> re list option" where
  "glob_items glob =
     (case glob of
        [] \<Rightarrow> Some []
      | c # cs \<Rightarrow>
          if c = CHR ''*'' then
            (if starts_with cs ''*''
             then map_option ((#) (RStar RAny))
                    (glob_items (if starts_with (tl cs) ''/'' then drop 2 cs else drop 1 cs))
             else map_option ((#) (RStar not_slash)) (glob_items cs))
          else if c = CHR ''?'' then map_option ((#) not_slash) (glob_items cs)
          else if c = CHR ''{'' then
            (if CHR ''}'' \<notin> set cs then map_option ((#) (RChr c)) (glob_items cs)
             else case (brace_group (takeWhile (\<lambda>d. d \<noteq> CHR ''}'') cs),
                        glob_items (tl (dropWhile (\<lambda>d. d \<noteq> CHR ''}'') cs))) of
                    (Some r, Some rs) \<Rightarrow> Some (r # rs)
                  | _ \<Rightarrow> None)
          else map_option ((#) (RChr c)) (glob_items cs))"
  by pat_completeness auto
termination by (relation "measure length") (auto simp: shorter)

declare glob_items.simps [simp del]

definition globToRegex :: "string \<Rightarrow> re option" where
  "globToRegex glob = map_option (\<lambda>rs. RSeqs (RBol # rs @ [REol])) (glob_items glob)"

section \<open>Matching\<close>

text \<open>Paths use \<open>/\<close>, the separator the code normalises to.\<close>

definition glob_hits :: "string \<Rightarrow> string \<Rightarrow> bool" where
  "glob_hits normalized glob =
     (case globToRegex glob of
        None \<Rightarrow> False
      | Some r \<Rightarrow> re_test r normalized \<or> re_test r (last (split_on CHR ''/'' normalized)))"

definition matchesAnyGlob :: "string \<Rightarrow> string list \<Rightarrow> bool" where
  "matchesAnyGlob p globs \<longleftrightarrow> list_ex (glob_hits p) globs"

section \<open>The language of a glob\<close>

text \<open>
  What the patterns mean, as sets of strings: \<open>*\<close> any run without a slash, \<open>?\<close> one character that
  is not a slash, \<open>**\<close> (with a slash after it, if there is one) any run of characters that are not
  line terminators, braces one of the alternatives.
\<close>

definition conc :: "string set \<Rightarrow> string set \<Rightarrow> string set" where
  "conc A B = {u @ v | u v. u \<in> A \<and> v \<in> B}"

definition runs :: "(char \<Rightarrow> bool) \<Rightarrow> string set" where
  "runs p = {u. list_all p u}"

function glob_lang :: "string \<Rightarrow> string set" where
  "glob_lang glob =
     (case glob of
        [] \<Rightarrow> {[]}
      | c # cs \<Rightarrow>
          if c = CHR ''*'' then
            (if starts_with cs ''*''
             then conc (runs (\<lambda>c. \<not> is_line_term c))
                    (glob_lang (if starts_with (tl cs) ''/'' then drop 2 cs else drop 1 cs))
             else conc (runs (\<lambda>c. c \<noteq> CHR ''/'')) (glob_lang cs))
          else if c = CHR ''?'' then conc {[d] | d. d \<noteq> CHR ''/''} (glob_lang cs)
          else if c = CHR ''{'' \<and> CHR ''}'' \<in> set cs
          then conc (set (split_on CHR '','' (takeWhile (\<lambda>d. d \<noteq> CHR ''}'') cs)))
                 (glob_lang (tl (dropWhile (\<lambda>d. d \<noteq> CHR ''}'') cs)))
          else conc {[c]} (glob_lang cs))"
  by pat_completeness auto
termination by (relation "measure length") (auto simp: shorter)

declare glob_lang.simps [simp del]

text \<open>No wildcard stands between an opening brace and the next closing brace.\<close>

function plain_braces :: "string \<Rightarrow> bool" where
  "plain_braces glob =
     (case glob of
        [] \<Rightarrow> True
      | c # cs \<Rightarrow>
          if c = CHR ''{'' \<and> CHR ''}'' \<in> set cs
          then CHR ''*'' \<notin> set (takeWhile (\<lambda>d. d \<noteq> CHR ''}'') cs) \<and>
               CHR ''?'' \<notin> set (takeWhile (\<lambda>d. d \<noteq> CHR ''}'') cs) \<and>
               plain_braces (tl (dropWhile (\<lambda>d. d \<noteq> CHR ''}'') cs))
          else plain_braces cs)"
  by pat_completeness auto
termination by (relation "measure length") (auto simp: shorter)

declare plain_braces.simps [simp del]

section \<open>Compiled patterns and languages\<close>

text \<open>Where a pattern may leave the rest of the subject, whatever stands before it.\<close>

definition denotes :: "re \<Rightarrow> string set \<Rightarrow> bool" where
  "denotes r L \<longleftrightarrow>
     (\<forall>pv rest g v. (\<exists>st \<in> set (rmatch r (pv, rest, g)). fst (snd st) = v) \<longleftrightarrow> (\<exists>u \<in> L. u @ v = rest))"

lemma denotesD:
  "denotes r L \<Longrightarrow> (\<exists>st \<in> set (rmatch r (pv, rest, g)). fst (snd st) = v) \<longleftrightarrow> (\<exists>u \<in> L. u @ v = rest)"
  unfolding denotes_def by blast

lemma denotesI:
  assumes "\<And>pv rest g v. (\<exists>st \<in> set (rmatch r (pv, rest, g)). fst (snd st) = v) \<longleftrightarrow> (\<exists>u \<in> L. u @ v = rest)"
  shows "denotes r L"
  unfolding denotes_def using assms by blast

lemma denotes_class: "denotes (RCls p) {[c] | c. p c}"
proof (rule denotesI)
  show "(\<exists>st \<in> set (rmatch (RCls p) (pv, rest, g)). fst (snd st) = v) \<longleftrightarrow> (\<exists>u \<in> {[c] | c. p c}. u @ v = rest)"
    for pv rest v :: string and g by (cases rest) auto
qed

lemma denotes_seq:
  assumes "denotes r A" "denotes s B"
  shows "denotes (RSeq r s) (conc A B)"
proof (rule denotesI)
  fix pv rest v :: string and g :: caps
  have "(\<exists>st \<in> set (rmatch (RSeq r s) (pv, rest, g)). fst (snd st) = v) \<longleftrightarrow>
      (\<exists>st1 \<in> set (rmatch r (pv, rest, g)). \<exists>w \<in> B. w @ v = fst (snd st1))"
  proof -
    have "(\<exists>st \<in> set (rmatch s st1). fst (snd st) = v) \<longleftrightarrow> (\<exists>w \<in> B. w @ v = fst (snd st1))" for st1
      using denotesD [OF assms(2), of "fst st1" "fst (snd st1)" "snd (snd st1)" v] by simp
    then show ?thesis by auto
  qed
  also have "\<dots> \<longleftrightarrow> (\<exists>u \<in> A. \<exists>w \<in> B. u @ w @ v = rest)"
    using denotesD [OF assms(1), of pv rest g] by (metis (no_types, lifting))
  also have "\<dots> \<longleftrightarrow> (\<exists>u \<in> conc A B. u @ v = rest)"
    unfolding conc_def by (force simp flip: append_assoc)
  finally show "(\<exists>st \<in> set (rmatch (RSeq r s) (pv, rest, g)). fst (snd st) = v) \<longleftrightarrow>
      (\<exists>u \<in> conc A B. u @ v = rest)" .
qed

lemma denotes_eps: "denotes REps {[]}"
  by (rule denotesI) auto

lemma denotes_runs: "denotes (RStar (RCls p)) (runs p)"
proof (rule denotesI)
  fix pv rest v :: string and g :: caps
  let ?n = "length (takeWhile p rest)"
  have "(\<exists>st \<in> set (rmatch (RStar (RCls p)) (pv, rest, g)). fst (snd st) = v) \<longleftrightarrow>
      (\<exists>j \<le> ?n. drop j rest = v)"
    by (subst rmatch_class_rep) (auto simp: rep_limit_def adv_def less_Suc_eq_le simp del: upt_Suc)
  also have "\<dots> \<longleftrightarrow> (\<exists>u \<in> runs p. u @ v = rest)"
  proof
    assume "\<exists>j \<le> ?n. drop j rest = v"
    then obtain j where j: "j \<le> ?n" "drop j rest = v" by blast
    then have "take j rest = take j (takeWhile p rest)"
      by (metis append_eq_conv_conj min.absorb1 take_take takeWhile_eq_take)
    then have "list_all p (take j rest)"
      by (auto simp: list_all_iff dest!: in_set_takeD set_takeWhileD)
    then show "\<exists>u \<in> runs p. u @ v = rest"
      using j by (intro bexI [of _ "take j rest"]) (auto simp: runs_def)
  next
    assume "\<exists>u \<in> runs p. u @ v = rest"
    then obtain u where u: "list_all p u" "u @ v = rest" by (auto simp: runs_def)
    then have "length u \<le> ?n"
      by (auto simp: takeWhile_append2 list_all_iff)
    then show "\<exists>j \<le> ?n. drop j rest = v" using u(2) by auto
  qed
  finally show "(\<exists>st \<in> set (rmatch (RStar (RCls p)) (pv, rest, g)). fst (snd st) = v) \<longleftrightarrow>
      (\<exists>u \<in> runs p. u @ v = rest)" .
qed

lemma denotes_alts: "list_all2 denotes rs Ls \<Longrightarrow> denotes (RAlts rs) (\<Union>(set Ls))"
proof (induction rs Ls rule: list_all2_induct)
  case Nil
  then show ?case by (intro denotesI) (auto split: list.splits)
next
  case (Cons r rs L Ls)
  have un: "denotes (RAlt r s) (A \<union> B)" if "denotes r A" "denotes s B" for r s A B
    by (rule denotesI) (auto simp: bex_Un denotesD [OF that(1)] denotesD [OF that(2)])
  show ?case
  proof (cases rs)
    case Nil
    with Cons show ?thesis by auto
  next
    case (Cons r' rs')
    with Cons.IH un [OF Cons.hyps(1)] show ?thesis by simp
  qed
qed

fun conc_list :: "string set list \<Rightarrow> string set" where
  "conc_list [] = {[]}"
| "conc_list (A # As) = conc A (conc_list As)"

lemma conc_eps [simp]: "conc A {[]} = A" "conc {[]} A = A"
  by (auto simp: conc_def)

lemma denotes_seqs: "list_all2 denotes rs Ls \<Longrightarrow> denotes (RSeqs rs) (conc_list Ls)"
proof (induction rs Ls rule: list_all2_induct)
  case Nil
  then show ?case by (simp add: denotes_eps)
next
  case (Cons r rs L Ls)
  show ?case
  proof (cases rs)
    case Nil
    with Cons show ?thesis by auto
  next
    case (Cons r' rs')
    with Cons.IH denotes_seq [OF Cons.hyps(1)] show ?thesis by simp
  qed
qed

lemma RSeqs_end: "st' \<in> set (rmatch (RSeqs (rs @ [REol])) st) \<longleftrightarrow>
    st' \<in> set (rmatch (RSeqs rs) st) \<and> fst (snd st') = []"
proof (induction rs arbitrary: st)
  case Nil
  then show ?case by auto
next
  case (Cons r rs)
  show ?case
  proof (cases rs)
    case Nil
    then show ?thesis by (auto split: if_splits)
  next
    case (Cons r' rs')
    then have s: "RSeqs ((r # rs) @ [REol]) = RSeq r (RSeqs (rs @ [REol]))" "RSeqs (r # rs) = RSeq r (RSeqs rs)"
      by simp_all
    show ?thesis unfolding s using Cons.IH by auto
  qed
qed

text \<open>An anchored pattern tests membership in its language.\<close>

lemma anchored_test:
  assumes "list_all2 denotes rs Ls"
  shows "re_test (RSeqs (RBol # rs @ [REol])) s \<longleftrightarrow> s \<in> conc_list Ls"
proof -
  obtain q qs where q: "rs @ [REol] = q # qs" by (cases "rs @ [REol]") auto
  have "re_test (RSeqs (RBol # rs @ [REol])) s \<longleftrightarrow> match_here (RSeqs (rs @ [REol])) [] s \<noteq> None"
    unfolding q by (simp add: re_test_def re_exec_def search_from_Bol_Nil)
  also have "\<dots> \<longleftrightarrow> (\<exists>st' \<in> set (rmatch (RSeqs rs) ([], s, [])). fst (snd st') = [])"
    unfolding match_here_None using RSeqs_end [of _ rs "([], s, [])"]
    by (metis (no_types, lifting) list.set_intros(1) neq_Nil_conv empty_iff empty_set)
  also have "\<dots> \<longleftrightarrow> s \<in> conc_list Ls"
    using denotesD [OF denotes_seqs [OF assms]] by auto
  finally show ?thesis .
qed

section \<open>The compiled glob\<close>

lemma denotes_chr: "denotes (RChr c) {[c]}"
  using denotes_class [of "\<lambda>d. d = c"] by (simp add: RChr_def)

lemma brace_part_plain:
  "CHR ''*'' \<notin> set w \<Longrightarrow> CHR ''?'' \<notin> set w \<Longrightarrow> brace_part w = Some (map RChr w)"
proof (induction w)
  case (Cons c cs)
  have "\<not> starts_with cs ''*?'' \<and> \<not> starts_with cs ''*'' \<and> \<not> starts_with cs ''??'' \<and> \<not> starts_with cs ''?''"
    using Cons.prems by (cases cs) (auto simp: starts_with_def)
  with Cons show ?case by auto
qed simp

lemma denotes_literal: "denotes (RSeqs (map RChr w)) {w}"
proof -
  have "conc_list (map (\<lambda>c. {[c]}) w) = {w}"
    by (induction w) (auto simp: conc_def)
  moreover have "list_all2 denotes (map RChr w) (map (\<lambda>c. {[c]}) w)"
    by (simp add: list_all2_map1 list_all2_map2 denotes_chr list_all2_same)
  ultimately show ?thesis using denotes_seqs by fastforce
qed

lemma brace_group_plain:
  assumes "CHR ''*'' \<notin> set body" "CHR ''?'' \<notin> set body"
  shows "\<exists>r. brace_group body = Some r \<and> denotes r (set (split_on CHR '','' body))"
proof -
  let ?ws = "split_on CHR '','' body"
  have chars: "w \<in> set ?ws \<Longrightarrow> set w \<subseteq> set body" for w
  proof -
    have "set (join '','' ws) \<supseteq> \<Union>(set ` set ws)" for ws :: "string list"
      by (induction ws rule: induct_list012) auto
    then show "w \<in> set ?ws \<Longrightarrow> set w \<subseteq> set body"
      using join_split_on [of "CHR '',''" body] by fastforce
  qed
  then have "brace_part w = Some (map RChr w)" if "w \<in> set ?ws" for w
    using that assms by (intro brace_part_plain) auto
  then have "map brace_part ?ws = map (\<lambda>w. Some (map RChr w)) ?ws" by simp
  then have g: "brace_group body = Some (RAlts (map (\<lambda>w. RSeqs (map RChr w)) ?ws))"
    unfolding brace_group_def Let_def by (auto simp: o_def intro!: arg_cong [where f = RAlts] map_cong)
  have "denotes (RAlts (map (\<lambda>w. RSeqs (map RChr w)) ?ws)) (\<Union>(set (map (\<lambda>w. {w}) ?ws)))"
    by (intro denotes_alts) (simp add: list_all2_map1 list_all2_map2 denotes_literal list_all2_same)
  with g show ?thesis by simp
qed

lemma glob_step:
  assumes "denotes r A" "\<exists>rs Ls. gi = Some rs \<and> list_all2 denotes rs Ls \<and> conc_list Ls = B"
  shows "\<exists>rs Ls. map_option ((#) r) gi = Some rs \<and> list_all2 denotes rs Ls \<and> conc_list Ls = conc A B"
proof -
  obtain rs Ls where "gi = Some rs" "list_all2 denotes rs Ls" "conc_list Ls = B" using assms(2) by blast
  then show ?thesis using assms(1) by (intro exI [of _ "r # rs"] exI [of _ "A # Ls"]) simp
qed

lemma glob_items_denote:
  "plain_braces g \<Longrightarrow> \<exists>rs Ls. glob_items g = Some rs \<and> list_all2 denotes rs Ls \<and> conc_list Ls = glob_lang g"
proof (induction g rule: glob_items.induct)
  case (1 g)
  note any = denotes_runs [of "\<lambda>c. \<not> is_line_term c", folded RAny_def]
  note ns = denotes_class [of "\<lambda>c. c \<noteq> CHR ''/''", folded not_slash_def]
  show ?case
  proof (cases g)
    case Nil
    then show ?thesis by (simp add: glob_items.simps [of "[]"] glob_lang.simps [of "[]"])
  next
    case (Cons c cs)
    have plain: "plain_braces cs" if "c \<noteq> CHR ''{'' \<or> CHR ''}'' \<notin> set cs"
      using "1.prems" that by (auto simp: Cons plain_braces.simps [of "c # cs"])
    consider (dstar) "c = CHR ''*''" "starts_with cs ''*''" | (star) "c = CHR ''*''" "\<not> starts_with cs ''*''"
      | (qm) "c = CHR ''?''" | (brace) "c = CHR ''{''" "CHR ''}'' \<in> set cs"
      | (chr) "c \<noteq> CHR ''*''" "c \<noteq> CHR ''?''" "c \<noteq> CHR ''{'' \<or> CHR ''}'' \<notin> set cs"
      by blast
    then show ?thesis
    proof cases
      case dstar
      then obtain ds where cs: "cs = CHR ''*'' # ds" by (cases cs) (auto simp: starts_with_def)
      let ?r = "if starts_with (tl cs) ''/'' then drop 2 cs else drop 1 cs"
      have "plain_braces cs" using plain dstar by simp
      then have "plain_braces ds" by (simp add: cs plain_braces.simps [of "CHR ''*'' # _"])
      moreover from this have "starts_with ds ''/'' \<Longrightarrow> plain_braces (tl ds)"
        by (cases ds) (auto simp: starts_with_def plain_braces.simps [of "CHR ''/'' # _"])
      ultimately have "plain_braces ?r" by (auto simp: cs drop_Suc)
      from glob_step [OF any "1.IH"(1) [OF Cons dstar this]] dstar show ?thesis
        by (simp add: Cons glob_items.simps [of "_ # _"] glob_lang.simps [of "_ # _"])
    next
      case star
      from glob_step [OF denotes_runs "1.IH"(2) [OF Cons star plain]] star show ?thesis
        by (simp add: Cons glob_items.simps [of "_ # _"] glob_lang.simps [of "_ # _"] not_slash_def)
    next
      case qm
      then have "c \<noteq> CHR ''*''" by simp
      from glob_step [OF ns "1.IH"(3) [OF Cons this qm plain]] qm show ?thesis
        by (simp add: Cons glob_items.simps [of "_ # _"] glob_lang.simps [of "_ # _"])
    next
      case chr
      show ?thesis
      proof (cases "c = CHR ''{''")
        case True
        from glob_step [OF denotes_chr "1.IH"(4) [OF Cons chr(1,2) True _ plain]] True chr show ?thesis
          by (simp add: Cons glob_items.simps [of "_ # _"] glob_lang.simps [of "_ # _"])
      next
        case False
        from glob_step [OF denotes_chr "1.IH"(6) [OF Cons chr(1,2) False plain]] False chr show ?thesis
          by (simp add: Cons glob_items.simps [of "_ # _"] glob_lang.simps [of "_ # _"])
      qed
    next
      case brace
      let ?b = "takeWhile (\<lambda>d. d \<noteq> CHR ''}'') cs" and ?r = "tl (dropWhile (\<lambda>d. d \<noteq> CHR ''}'') cs)"
      have p: "CHR ''*'' \<notin> set ?b" "CHR ''?'' \<notin> set ?b" "plain_braces ?r"
        using "1.prems" brace by (auto simp: Cons plain_braces.simps [of "_ # _"])
      obtain r where r: "brace_group ?b = Some r" "denotes r (set (split_on CHR '','' ?b))"
        using brace_group_plain [OF p(1,2)] by blast
      have ne: "c \<noteq> CHR ''*''" "c \<noteq> CHR ''?''" "\<not> CHR ''}'' \<notin> set cs" using brace by auto
      obtain rs Ls where rs: "glob_items ?r = Some rs" "list_all2 denotes rs Ls" "conc_list Ls = glob_lang ?r"
        using "1.IH"(5) [OF Cons ne(1,2) brace(1) ne(3) p(3)] by blast
      have "glob_items g = Some (r # rs)" "glob_lang g = conc (set (split_on CHR '','' ?b)) (glob_lang ?r)"
        using brace r(1) rs(1) by (simp_all add: Cons glob_items.simps [of "_ # _"] glob_lang.simps [of "_ # _"])
      then show ?thesis
        using r(2) rs by (intro exI [of _ "r # rs"] exI [of _ "set (split_on CHR '','' ?b) # Ls"]) simp
    qed
  qed
qed

text \<open>C5: A glob whose brace groups hold no wildcards always compiles, and the compiled pattern accepts
  exactly the strings of its language: no path outside it is ignored and none inside it is missed.\<close>

theorem glob_regex_correct:
  assumes "plain_braces glob"
  shows "\<exists>r. globToRegex glob = Some r \<and> (\<forall>s. re_test r s \<longleftrightarrow> s \<in> glob_lang glob)"
proof -
  obtain rs Ls where rs: "glob_items glob = Some rs" "list_all2 denotes rs Ls" "conc_list Ls = glob_lang glob"
    using glob_items_denote [OF assms] by blast
  then show ?thesis using anchored_test [OF rs(2)] by (simp add: globToRegex_def)
qed

text \<open>A brace alternative that starts with a wildcard never matches anything: the code does not
  escape \<open>*\<close> and \<open>?\<close> inside braces, the pattern has a quantifier with nothing to repeat, and the
  \<open>SyntaxError\<close> is swallowed, so a waiver such as \<open>{*.ts,*.tsx}\<close> is silently without effect.\<close>

theorem brace_wildcard_ignored:
  assumes "c = CHR ''*'' \<or> c = CHR ''?''" "CHR ''}'' \<notin> set w"
  shows "\<not> glob_hits p (CHR ''{'' # c # w @ CHR ''}'' # rest)"
proof -
  have tw: "takeWhile (\<lambda>d. d \<noteq> CHR ''}'') (c # w @ CHR ''}'' # rest) = c # w"
    using assms by (auto simp: takeWhile_append)
  have "None \<in> set (map brace_part (split_on CHR '','' (c # w)))"
    using assms(1) by (cases "split_on CHR '','' w") auto
  then have "brace_group (c # w) = None" by (simp add: brace_group_def Let_def)
  then have "glob_items (CHR ''{'' # c # w @ CHR ''}'' # rest) = None"
    by (subst glob_items.simps) (simp add: tw del: takeWhile.simps dropWhile.simps)
  then show ?thesis by (simp add: glob_hits_def globToRegex_def)
qed

text \<open>C33: \<open>**/\<close> does not stop at a directory boundary: it stands for any run of characters, so
  \<open>**/name\<close> also ignores every path that merely ends in \<open>name\<close>.\<close>

theorem double_star_ignores_suffixes:
  assumes "plain_braces ds" "list_all (\<lambda>c. \<not> is_line_term c) u" "v \<in> glob_lang ds"
  shows "glob_hits (u @ v) (''**/'' @ ds)"
proof -
  have "plain_braces (''**/'' @ ds)"
    using assms(1) by (simp add: plain_braces.simps [of "_ # _"])
  then obtain rs Ls where rs: "glob_items (''**/'' @ ds) = Some rs" "list_all2 denotes rs Ls"
    "conc_list Ls = glob_lang (''**/'' @ ds)"
    using glob_items_denote by blast
  have "glob_lang (''**/'' @ ds) = conc (runs (\<lambda>c. \<not> is_line_term c)) (glob_lang ds)"
    by (subst glob_lang.simps) (simp add: starts_with_def)
  then have "u @ v \<in> conc_list Ls" using assms(2,3) rs(3) by (auto simp: conc_def runs_def)
  then show ?thesis using anchored_test [OF rs(2)] rs(1) by (simp add: glob_hits_def globToRegex_def)
qed

section \<open>Witnesses\<close>

theorem glob_regex_correct_witness:
  "\<exists>r. globToRegex ''src/**/*.{css,scss}'' = Some r \<and> (re_test r ''src/a/b.css'' \<longleftrightarrow> ''src/a/b.css'' \<in> glob_lang ''src/**/*.{css,scss}'')"
proof -
  have "plain_braces ''src/**/*.{css,scss}''" by code_simp
  from glob_regex_correct [OF this] show ?thesis by blast
qed

theorem brace_wildcard_ignored_witness: "\<not> glob_hits ''a.ts'' ''{*.ts,*.tsx}''"
  using brace_wildcard_ignored [of "CHR ''*''" "''.ts,*.tsx''" "''a.ts''" "[]"] by simp

theorem double_star_ignores_suffixes_witness: "glob_hits ''src/notvendor.js'' ''**/vendor.js''"
proof -
  have p: "plain_braces ''vendor.js''" by code_simp
  have l: "list_all (\<lambda>c. \<not> is_line_term c) ''src/not''" by code_simp
  have "''vendor.js'' \<in> glob_lang ''vendor.js''"
    by (auto simp: glob_lang.simps [of "_ # _"] glob_lang.simps [of "[]"] conc_def)
  from double_star_ignores_suffixes [OF p l this] show ?thesis by simp
qed

end
