(* ===== verification/IgnoreConfig.thy ===== *)
theory IgnoreConfig
  imports IgnoreColor Globs Paths
begin

text \<open>
  Reading, merging and writing the \<open>.impeccable\<close> configuration and filtering detector findings by it
  (\<open>lib/impeccable-config.mjs\<close>). A file's content is what \<open>JSON.parse\<close> gives, \<open>None\<close> when it is
  missing or does not parse. Waiver entries stay JavaScript objects, because the code normalises
  them again wherever it reads them.
\<close>

section \<open>Normalisation\<close>

text \<open>\<open>Array.from(new Set(xs))\<close>: the first occurrence of each element.\<close>

definition uniq :: "'a list \<Rightarrow> 'a list" where
  "uniq xs = rev (remdups (rev xs))"

definition uniqueStrings :: "jsval list \<Rightarrow> string list" where
  "uniqueStrings vs = uniq (map to_str vs)"

text \<open>\<open>String(v || '')\<close>.\<close>

definition str_or_empty :: "jsval \<Rightarrow> string" where
  "str_or_empty v = to_str (js_or v (JStr []))"

definition quote_ends_re :: re where
  "quote_ends_re =
     RAlts [RSeqs [RBol, ROneOf [CHR 0x22, CHR 0x27]], RSeqs [ROneOf [CHR 0x22, CHR 0x27], REol]]"

definition cleanIgnoreValueDisplay :: "string \<Rightarrow> string" where
  "cleanIgnoreValueDisplay s =
     (let s1 = re_replace_all quote_ends_re (\<lambda>_. []) (trim s);
          s2 = re_replace_all (RChr CHR ''+'') (\<lambda>_. '' '') s1
      in re_replace_all (RPlus RSp) (\<lambda>_. '' '') s2)"

definition normalizeIgnoreValue :: "jsval \<Rightarrow> string" where
  "normalizeIgnoreValue v =
     (let s1 = re_replace_all quote_ends_re (\<lambda>_. []) (trim (str_or_empty v));
          s2 = re_replace_all (RChr CHR ''+'') (\<lambda>_. '' '') s1
      in to_lower (re_replace_all (RPlus RSp) (\<lambda>_. '' '') s2))"

definition normalizeIgnoreRule :: "jsval \<Rightarrow> string" where
  "normalizeIgnoreRule rule = to_lower (trim (str_or_empty rule))"

definition nonblank :: "jsval \<Rightarrow> bool" where
  "nonblank v \<longleftrightarrow> is_string v \<and> trim (to_str v) \<noteq> []"

definition arr_of :: "jsval \<Rightarrow> jsval list" where
  "arr_of v = (case v of JArr xs \<Rightarrow> xs | _ \<Rightarrow> [])"

definition entry_files :: "jsval \<Rightarrow> string list" where
  "entry_files entry =
     uniq ((if nonblank (get_prop entry ''file'') then [trim (to_str (get_prop entry ''file''))] else []) @
           map (\<lambda>v. trim (to_str v)) (filter nonblank (arr_of (get_prop entry ''files''))))"

text \<open>One entry; \<open>None\<close>: it is skipped.\<close>

definition normalize_entry :: "jsval \<Rightarrow> jsval option" where
  "normalize_entry entry =
     (if \<not> truthy entry \<or> \<not> typeof_object entry then None
      else let rule = normalizeIgnoreRule (get_prop entry ''rule'');
               v = normalizeIgnoreValue (get_prop entry ''value'');
               files = entry_files entry;
               opt = (\<lambda>k. if nonblank (get_prop entry k) then [(k, JStr (trim (to_str (get_prop entry k))))] else [])
           in if rule = [] \<or> v = [] then None
              else Some (JObj ([(''rule'', JStr rule), (''value'', JStr v)] @
                     (if files = [] then [] else [(''files'', JArr (map JStr files))]) @
                     opt ''reason'' @ opt ''createdAt'')))"

definition normalizeIgnoreValueEntries :: "jsval \<Rightarrow> jsval list" where
  "normalizeIgnoreValueEntries entries = List.map_filter normalize_entry (arr_of entries)"

section \<open>Merging waiver entries\<close>

definition ignoreValueFilesKey :: "jsval \<Rightarrow> string" where
  "ignoreValueFilesKey files = join [CHR 0x1F] (to_str_list (arr_of files))"

text \<open>The key of the \<open>Map\<close>: rule, value and files, separated by NUL.\<close>

definition entry_key :: "jsval \<Rightarrow> string" where
  "entry_key e =
     to_str (get_prop e ''rule'') @ [CHR 0x00] @ to_str (get_prop e ''value'') @ [CHR 0x00] @
     ignoreValueFilesKey (get_prop e ''files'')"

text \<open>\<open>map.set\<close>: a known key keeps its place.\<close>

definition map_set :: "jsval \<Rightarrow> (string \<times> jsval) list \<Rightarrow> (string \<times> jsval) list" where
  "map_set e m = fields_set (entry_key e) e m"

definition mergeIgnoreValues :: "jsval list \<Rightarrow> jsval list \<Rightarrow> jsval list" where
  "mergeIgnoreValues existing incoming =
     map snd (fold map_set (normalizeIgnoreValueEntries (JArr incoming))
       (fold map_set (normalizeIgnoreValueEntries (JArr existing)) []))"

section \<open>Configuration\<close>

record detection_config =
  dc_ignoreRules :: "string list"
  dc_ignoreFiles :: "string list"
  dc_ignoreValues :: "jsval list"
  dc_designSystem :: bool

definition cloneDetectionConfig :: detection_config where
  "cloneDetectionConfig =
     \<lparr>dc_ignoreRules = [], dc_ignoreFiles = [], dc_ignoreValues = [], dc_designSystem = True\<rparr>"

definition plain_object :: "jsval \<Rightarrow> bool" where
  "plain_object v \<longleftrightarrow> truthy v \<and> typeof_object v \<and> \<not> is_array v"

definition safeReadJson :: "jsval option \<Rightarrow> jsval" where
  "safeReadJson jf = (case jf of Some raw \<Rightarrow> if plain_object raw then raw else JNull | None \<Rightarrow> JNull)"

definition hookSection :: "jsval \<Rightarrow> jsval" where
  "hookSection raw =
     (if truthy raw \<and> plain_object (get_prop raw ''hook'') then get_prop raw ''hook'' else JNull)"

definition detectorSection :: "jsval \<Rightarrow> jsval" where
  "detectorSection raw =
     (if truthy raw \<and> plain_object (get_prop raw ''detector'') then get_prop raw ''detector'' else JNull)"

definition applyDetectionConfigSource :: "jsval \<Rightarrow> detection_config \<Rightarrow> detection_config" where
  "applyDetectionConfigSource raw c =
     (if \<not> truthy raw \<or> \<not> typeof_object raw then c
      else
        let c1 = (if plain_object (get_prop raw ''designSystem'')
                  then c\<lparr>dc_designSystem := get_prop (get_prop raw ''designSystem'') ''enabled'' \<noteq> JBool False\<rparr>
                  else c);
            c2 = (if is_array (get_prop raw ''ignoreRules'')
                  then c1\<lparr>dc_ignoreRules :=
                         uniqueStrings (map JStr (dc_ignoreRules c1) @ arr_of (get_prop raw ''ignoreRules''))\<rparr>
                  else c1);
            c3 = (if is_array (get_prop raw ''ignoreFiles'')
                  then c2\<lparr>dc_ignoreFiles :=
                         uniqueStrings (map JStr (dc_ignoreFiles c2) @ arr_of (get_prop raw ''ignoreFiles''))\<rparr>
                  else c2)
        in if is_array (get_prop raw ''ignoreValues'')
           then c3\<lparr>dc_ignoreValues :=
                  mergeIgnoreValues (dc_ignoreValues c3) (arr_of (get_prop raw ''ignoreValues''))\<rparr>
           else c3)"

definition apply_file :: "jsval option \<Rightarrow> detection_config \<Rightarrow> detection_config" where
  "apply_file jf c =
     (let raw = safeReadJson jf in
      applyDetectionConfigSource (detectorSection raw) (applyDetectionConfigSource (hookSection raw) c))"

text \<open>The shared file first, then the local one.\<close>

definition readDetectionConfig :: "jsval option \<Rightarrow> jsval option \<Rightarrow> detection_config" where
  "readDetectionConfig shared local = apply_file local (apply_file shared cloneDetectionConfig)"

definition readRawDetectionConfig :: "jsval option \<Rightarrow> detection_config" where
  "readRawDetectionConfig jf = apply_file jf cloneDetectionConfig"

section \<open>Writing\<close>

definition DETECTOR_CONFIG_KEYS :: "string list" where
  "DETECTOR_CONFIG_KEYS = [''ignoreRules'', ''ignoreFiles'', ''ignoreValues'', ''designSystem'']"

definition stripDetectorKeys :: "jsval \<Rightarrow> jsval" where
  "stripDetectorKeys raw =
     (if plain_object raw
      then JObj (filter (\<lambda>(k, v). k \<notin> set DETECTOR_CONFIG_KEYS) (obj_fields raw)) else JNull)"

definition normalizeDetectionConfigForWrite :: "jsval \<Rightarrow> (string \<times> jsval) list" where
  "normalizeDetectionConfigForWrite config =
     (if is_array (get_prop config ''ignoreRules'')
      then [(''ignoreRules'', JArr (map JStr (uniq (filter (\<lambda>r. r \<noteq> [])
              (map normalizeIgnoreRule (arr_of (get_prop config ''ignoreRules'')))))))] else []) @
     (if is_array (get_prop config ''ignoreFiles'')
      then [(''ignoreFiles'', JArr (map JStr (uniq (map (\<lambda>v. trim (to_str v))
              (filter nonblank (arr_of (get_prop config ''ignoreFiles'')))))))] else []) @
     [(''ignoreValues'', JArr (normalizeIgnoreValueEntries (get_prop config ''ignoreValues'')))] @
     (if plain_object (get_prop config ''designSystem'')
      then [(''designSystem'', JObj [(''enabled'',
              JBool (get_prop (get_prop config ''designSystem'') ''enabled'' \<noteq> JBool False))])] else [])"

text \<open>The object \<open>writeDetectionConfig\<close> writes over the file it read.\<close>

definition next_config :: "jsval option \<Rightarrow> jsval \<Rightarrow> jsval" where
  "next_config jf config =
     (let existing = js_or (safeReadJson jf) (JObj []);
          nextHook = stripDetectorKeys (hookSection existing);
          nextDetector = spread (js_or (detectorSection existing) (JObj []))
                           (JObj (normalizeDetectionConfigForWrite config));
          nxt = set_prop existing ''detector'' nextDetector
      in if truthy nextHook \<and> obj_fields nextHook \<noteq> []
         then set_prop nxt ''hook'' nextHook else delete_prop nxt ''hook'')"

text \<open>The file afterwards, as the next reader parses it.\<close>

definition writeDetectionConfig :: "jsval option \<Rightarrow> jsval \<Rightarrow> jsval option" where
  "writeDetectionConfig jf config = json_norm (next_config jf config)"

section \<open>Which files are skipped\<close>

definition shouldIgnoreDetectionFile :: "string \<Rightarrow> jsval \<Rightarrow> detection_config \<Rightarrow> bool" where
  "shouldIgnoreDetectionFile base filePath config =
     (let globs = dc_ignoreFiles config; raw = trim (str_or_empty filePath) in
      if globs = [] \<or> raw = [] then False
      else if matchesAnyGlob raw globs then True
      else let ab = (if is_absolute raw then raw else path_resolve base raw) in
        if matchesAnyGlob ab globs then True
        else let rel = path_relative base ab in
          if rel \<noteq> [] \<and> \<not> starts_with rel ''..'' \<and> \<not> is_absolute rel
          then matchesAnyGlob rel globs else False)"

section \<open>The value a finding can be waived by\<close>

text \<open>
  \<open>decodeURIComponent\<close>: percent-encoded UTF-8. \<open>None\<close> is the \<open>URIError\<close>; code points above 255
  are outside the model and read as an error too.
\<close>

definition hex_any :: "char \<Rightarrow> int option" where
  "hex_any c = (if is_hex (to_lower_char c) then Some (hex_digit (to_lower_char c)) else None)"

fun decodeURIComponent :: "string \<Rightarrow> string option" where
  "decodeURIComponent [] = Some []"
| "decodeURIComponent (c # cs) =
     (if c \<noteq> CHR ''%'' then map_option ((#) c) (decodeURIComponent cs)
      else case cs of
        a # b # r \<Rightarrow>
          (case (hex_any a, hex_any b) of
             (Some x, Some y) \<Rightarrow>
               let n = 16 * x + y in
               if n < 128 then map_option ((#) (char_of (nat n))) (decodeURIComponent r)
               else if n = 194 \<or> n = 195
               then (case r of
                       p # d # e # r' \<Rightarrow>
                         (case (p = CHR ''%'', hex_any d, hex_any e) of
                            (True, Some u, Some v) \<Rightarrow>
                              let m = 16 * u + v in
                              if 128 \<le> m \<and> m < 192
                              then map_option ((#) (char_of (nat ((n - 192) * 64 + (m - 128)))))
                                     (decodeURIComponent r')
                              else None
                          | _ \<Rightarrow> None)
                     | _ \<Rightarrow> None)
               else None
           | _ \<Rightarrow> None)
      | _ \<Rightarrow> None)"

definition cap1 :: "rmatch_result \<Rightarrow> string" where
  "cap1 m = (case cap m 1 of None \<Rightarrow> [] | Some s \<Rightarrow> s)"

definition bounce_word_re :: re where
  "bounce_word_re =
     RAlts [RLitI ''bounce'', RLitI ''elastic'', RLitI ''wobble'', RLitI ''jiggle'', RLitI ''spring'']"

definition extractMotionIgnoreValue :: "string \<Rightarrow> string" where
  "extractMotionIgnoreValue t =
     (case re_exec (RSeqs [RWordB, RLitI ''animate-bounce'', RWordB]) t of
        Some m \<Rightarrow> cleanIgnoreValueDisplay (m_text m)
      | None \<Rightarrow>
          (case re_exec (RSeqs [RLitI ''cubic-bezier('', RPlus (RNot '')''), RChr CHR '')'']) t of
             Some m \<Rightarrow> cleanIgnoreValueDisplay (m_text m)
           | None \<Rightarrow>
               (case re_exec (RSeqs [RLitI ''animation'', ROpt (RLitI ''-name''), RStar RSp, RChr CHR '':'',
                        RStar RSp, RGrp 1 (RPlus (RNot (CHR '';'' # newline)))]) t of
                  None \<Rightarrow> []
                | Some m \<Rightarrow>
                    (case find (re_test bounce_word_re)
                            (re_split (RPlus (RCls (\<lambda>c. c = CHR '','' \<or> is_space c))) (cap1 m)) of
                       Some token \<Rightarrow> cleanIgnoreValueDisplay token
                     | None \<Rightarrow> []))))"

definition font_primary_re :: re where
  "font_primary_re =
     RSeqs [RLitI ''primary font:'', RStar RSp, RGrp 1 (RPlus (RNot (''();'' @ newline)))]"

definition font_family_re :: re where
  "font_family_re =
     RSeqs [RLitI ''font-family'', RStar RSp, RChr CHR '':'', RStar RSp,
       ROpt (ROneOf [CHR 0x22, CHR 0x27]), RGrp 1 (RPlus (RNot ([CHR 0x27, CHR 0x22] @ '',;'' @ newline)))]"

definition google_font_re :: re where
  "google_font_re =
     RSeqs [ROneOf ''?&'', RLitI ''family='', RGrp 1 (RPlus (RNot (''&:;'' @ newline)))]"

text \<open>What one candidate text gives; \<open>None\<close>: go on with the next one.\<close>

definition candidate_value :: "string \<Rightarrow> string \<Rightarrow> string option" where
  "candidate_value rule t =
     (if rule = ''bounce-easing''
      then (let motion = extractMotionIgnoreValue t in if motion \<noteq> [] then Some motion else None)
      else case re_exec font_primary_re t of
        Some m \<Rightarrow> Some (cleanIgnoreValueDisplay (cap1 m))
      | None \<Rightarrow>
          (case re_exec font_family_re t of
             Some m \<Rightarrow> Some (cleanIgnoreValueDisplay (cap1 m))
           | None \<Rightarrow>
               (case re_exec google_font_re t of
                  Some m \<Rightarrow> Some (cleanIgnoreValueDisplay
                              (case decodeURIComponent (cap1 m) of Some d \<Rightarrow> d | None \<Rightarrow> cap1 m))
                | None \<Rightarrow> None)))"

fun first_value :: "string \<Rightarrow> string list \<Rightarrow> string" where
  "first_value rule [] = []"
| "first_value rule (t # ts) =
     (case candidate_value rule t of Some v \<Rightarrow> v | None \<Rightarrow> first_value rule ts)"

definition extractFindingIgnoreValueRaw :: "jsval \<Rightarrow> string \<Rightarrow> string" where
  "extractFindingIgnoreValueRaw finding rule =
     (let direct = cleanIgnoreValueDisplay (str_or_empty
                     (js_or (get_prop finding ''ignoreValue'') (get_prop finding ''value'')))
      in if direct \<noteq> [] then direct
         else first_value rule (map to_str (filter (\<lambda>v. is_string v \<and> truthy v)
                [get_prop finding ''detail'', get_prop finding ''snippet''])))"

definition directValueRules :: "string list" where
  "directValueRules =
     [''overused-font'', ''bounce-easing'', ''design-system-font'', ''design-system-color'',
      ''design-system-radius'']"

definition finding_rule :: "jsval \<Rightarrow> string" where
  "finding_rule finding = normalizeIgnoreRule (get_prop finding ''antipattern'')"

definition extractFindingIgnoreValue :: "jsval \<Rightarrow> string" where
  "extractFindingIgnoreValue finding =
     (if \<not> truthy finding \<or> \<not> typeof_object finding then []
      else if finding_rule finding \<notin> set directValueRules then []
      else normalizeIgnoreValue (JStr (extractFindingIgnoreValueRaw finding (finding_rule finding))))"

section \<open>Filtering findings\<close>

fun suffixes_hit :: "string list \<Rightarrow> string list \<Rightarrow> bool" where
  "suffixes_hit globs [] = False"
| "suffixes_hit globs (p # ps) = (matchesAnyGlob (join ''/'' (p # ps)) globs \<or> suffixes_hit globs ps)"

definition findingMatchesScopedIgnoreFile :: "jsval \<Rightarrow> string list \<Rightarrow> bool" where
  "findingMatchesScopedIgnoreFile finding globs =
     (let filePath = trim (str_or_empty (get_prop finding ''file'')) in
      if filePath = [] then False
      else if matchesAnyGlob filePath globs then True
      else suffixes_hit globs (filter (\<lambda>s. s \<noteq> []) (split_on CHR ''/'' filePath)))"

definition entry_waives :: "jsval \<Rightarrow> string \<Rightarrow> string \<Rightarrow> jsval \<Rightarrow> bool" where
  "entry_waives finding rule v entry =
     (let ev = to_str (get_prop entry ''value''); wildcardValue = (ev = ''*'');
          files = map to_str (arr_of (get_prop entry ''files'')) in
      if to_str (get_prop entry ''rule'') \<noteq> rule \<or> (\<not> wildcardValue \<and> \<not> ignoreValueMatches rule ev v)
      then False
      else if files = [] then \<not> wildcardValue
      else findingMatchesScopedIgnoreFile finding files)"

definition isIgnoredFindingValue :: "jsval \<Rightarrow> jsval list \<Rightarrow> bool" where
  "isIgnoredFindingValue finding ignoreValues =
     (let rule = finding_rule finding; v = extractFindingIgnoreValue finding in
      if ignoreValues = [] then False
      else if rule = [] \<or> v = [] then False
      else list_ex (entry_waives finding rule v) ignoreValues)"

definition finding_kept :: "string list \<Rightarrow> jsval list \<Rightarrow> jsval \<Rightarrow> bool" where
  "finding_kept ignoreRules ignoreValues finding \<longleftrightarrow>
     truthy finding \<and> typeof_object finding \<and> finding_rule finding \<notin> set ignoreRules \<and>
     \<not> isIgnoredFindingValue finding ignoreValues"

definition filterDetectionFindings :: "jsval \<Rightarrow> detection_config \<Rightarrow> jsval list" where
  "filterDetectionFindings findings config =
     (let ignoreRules = map (\<lambda>r. normalizeIgnoreRule (JStr r)) (dc_ignoreRules config);
          ignoreValues = normalizeIgnoreValueEntries (JArr (dc_ignoreValues config))
      in filter (finding_kept ignoreRules ignoreValues) (arr_of findings))"

section \<open>Consent\<close>

definition consent_of :: "jsval option \<Rightarrow> jsval \<Rightarrow> jsval" where
  "consent_of jf prev =
     (let hook = hookSection (safeReadJson jf); c = get_prop hook ''consent'' in
      if truthy hook \<and> (c = JStr ''accepted'' \<or> c = JStr ''declined'') then c else prev)"

definition getHookConsent :: "jsval option \<Rightarrow> jsval option \<Rightarrow> jsval" where
  "getHookConsent shared local = consent_of local (consent_of shared JUndef)"

text \<open>The local file after \<open>setHookConsent\<close>.\<close>

definition setHookConsent :: "jsval option \<Rightarrow> jsval \<Rightarrow> jsval option" where
  "setHookConsent local v =
     (let existing = js_or (safeReadJson local) (JObj []);
          hook = js_or (hookSection existing) (JObj [])
      in json_norm (spread existing (JObj [(''hook'', spread hook (JObj [(''consent'', v)]))])))"

section \<open>The git exclude block\<close>

text \<open>
  The part of \<open>ensureConfigGitExclude\<close> and \<open>ensureHookGitExcludes\<close> that rewrites the exclude
  file: a block between two marker lines is replaced, or appended when there is none.
\<close>

definition marker_re :: "string \<Rightarrow> string \<Rightarrow> re" where
  "marker_re op cl = RSeqs [RLit op, RLazy RAll, RLit cl]"

definition EXCLUDE_OPEN :: string where "EXCLUDE_OPEN = ''# impeccable-config-ignore-start''"
definition EXCLUDE_CLOSE :: string where "EXCLUDE_CLOSE = ''# impeccable-config-ignore-end''"

definition exclude_block :: "string \<Rightarrow> string list \<Rightarrow> string \<Rightarrow> string" where
  "exclude_block op patterns cl = join newline ([op] @ patterns @ [cl])"

definition ensureConfigGitExclude :: "string \<Rightarrow> string" where
  "ensureConfigGitExclude existing =
     (let block = exclude_block EXCLUDE_OPEN [''.impeccable/config.local.json''] EXCLUDE_CLOSE;
          re = marker_re EXCLUDE_OPEN EXCLUDE_CLOSE in
      if re_test re existing then re_replace re (\<lambda>_. block) existing
      else let pre = (if existing = [] then []
                      else if ends_with existing newline then existing else existing @ newline)
           in pre @ block @ newline)"

section \<open>Lemmas\<close>

lemma set_uniq [simp]: "set (uniq xs) = set xs"
  by (simp add: uniq_def)

lemma distinct_uniq [simp]: "distinct (uniq xs)"
  by (simp add: uniq_def)

lemma uniq_Nil [simp]: "uniq [] = []"
  by (simp add: uniq_def)

lemma set_uniqueStrings: "set (uniqueStrings vs) = to_str ` set vs"
  by (simp add: uniqueStrings_def)

lemma set_map_filter: "set (List.map_filter f xs) = {y. \<exists>x \<in> set xs. f x = Some y}"
  by (induction xs) (auto simp: List.map_filter_def split: option.splits)

lemma fields_set_keys: "fst ` set (fields_set k v m) = insert k (fst ` set m)"
proof (induction m)
  case (Cons x m)
  then show ?case by (cases x) (simp add: insert_commute)
qed simp

lemma fields_set_values: "snd ` set (fields_set k v m) \<subseteq> insert v (snd ` set m)"
proof (induction m)
  case (Cons x m)
  then show ?case by (cases x) (simp, blast)
qed simp

lemma fields_set_distinct: "distinct (map fst m) \<Longrightarrow> distinct (map fst (fields_set k v m))"
proof (induction m)
  case (Cons x m)
  have "fst ` set (fields_set k v m) = insert k (fst ` set m)" by (rule fields_set_keys)
  with Cons show ?case by (cases x) auto
qed simp

text \<open>The map of entries: every value sits under its own key, and no key is lost.\<close>

definition keyed :: "(string \<times> jsval) list \<Rightarrow> bool" where
  "keyed m \<longleftrightarrow> (\<forall>(k, e) \<in> set m. k = entry_key e) \<and> distinct (map fst m)"

lemma keyed_map_set: "keyed m \<Longrightarrow> keyed (map_set e m)"
proof -
  assume k: "keyed m"
  have "(\<forall>x \<in> set m. fst x = entry_key (snd x)) \<Longrightarrow> \<forall>x \<in> set (fields_set (entry_key e) e m). fst x = entry_key (snd x)"
    for m by (induction m) (fastforce split: if_splits)+
  with k have "\<forall>x \<in> set (map_set e m). fst x = entry_key (snd x)"
    unfolding keyed_def map_set_def split_beta by blast
  with k show "keyed (map_set e m)"
    unfolding keyed_def map_set_def split_beta by (blast intro: fields_set_distinct)
qed

lemma fold_map_set:
  "keyed m \<Longrightarrow> keyed (fold map_set es m) \<and>
     fst ` set (fold map_set es m) = fst ` set m \<union> entry_key ` set es \<and>
     snd ` set (fold map_set es m) \<subseteq> snd ` set m \<union> set es"
proof (induction es arbitrary: m)
  case (Cons e es)
  have "keyed (map_set e m)" by (rule keyed_map_set [OF Cons.prems])
  note IH = Cons.IH [OF this]
  have v: "snd ` set (map_set e m) \<subseteq> insert e (snd ` set m)"
    unfolding map_set_def by (rule fields_set_values)
  have "fst ` set (map_set e m) = insert (entry_key e) (fst ` set m)"
    unfolding map_set_def by (rule fields_set_keys)
  note kk = this
  show ?case
  proof (intro conjI)
    show "keyed (fold map_set (e # es) m)" using IH by simp
    show "fst ` set (fold map_set (e # es) m) = fst ` set m \<union> entry_key ` set (e # es)"
      using IH kk by simp
    have "snd ` set (fold map_set (e # es) m) \<subseteq> snd ` set (map_set e m) \<union> set es" using IH by simp
    also have "\<dots> \<subseteq> insert e (snd ` set m) \<union> set es" using v by (intro Un_mono order_refl)
    also have "\<dots> = snd ` set m \<union> set (e # es)" by simp
    finally show "snd ` set (fold map_set (e # es) m) \<subseteq> snd ` set m \<union> set (e # es)" .
  qed
qed simp

lemma keyed_Nil: "keyed []"
  by (simp add: keyed_def)

lemma keyed_keys: "keyed m \<Longrightarrow> entry_key ` snd ` set m = fst ` set m"
  by (force simp: keyed_def)

text \<open>The keys after a merge are those of both inputs, normalised, each once.\<close>

lemma merge_keys:
  "entry_key ` set (mergeIgnoreValues es is) =
     entry_key ` set (normalizeIgnoreValueEntries (JArr es)) \<union>
     entry_key ` set (normalizeIgnoreValueEntries (JArr is))"
  "distinct (map entry_key (mergeIgnoreValues es is))"
  "set (mergeIgnoreValues es is) \<subseteq>
     set (normalizeIgnoreValueEntries (JArr es)) \<union> set (normalizeIgnoreValueEntries (JArr is))"
proof -
  let ?a = "fold map_set (normalizeIgnoreValueEntries (JArr es)) []"
  let ?b = "fold map_set (normalizeIgnoreValueEntries (JArr is)) ?a"
  have a: "keyed ?a" "fst ` set ?a = entry_key ` set (normalizeIgnoreValueEntries (JArr es))"
    "snd ` set ?a \<subseteq> set (normalizeIgnoreValueEntries (JArr es))"
    using fold_map_set [OF keyed_Nil, of "normalizeIgnoreValueEntries (JArr es)"] by simp_all
  have b: "keyed ?b" "fst ` set ?b = fst ` set ?a \<union> entry_key ` set (normalizeIgnoreValueEntries (JArr is))"
    "snd ` set ?b \<subseteq> snd ` set ?a \<union> set (normalizeIgnoreValueEntries (JArr is))"
    using fold_map_set [OF a(1), of "normalizeIgnoreValueEntries (JArr is)"] by simp_all
  show "entry_key ` set (mergeIgnoreValues es is) =
     entry_key ` set (normalizeIgnoreValueEntries (JArr es)) \<union>
     entry_key ` set (normalizeIgnoreValueEntries (JArr is))"
    using keyed_keys [OF b(1)] a(2) b(2) by (simp add: mergeIgnoreValues_def)
  show "set (mergeIgnoreValues es is) \<subseteq>
     set (normalizeIgnoreValueEntries (JArr es)) \<union> set (normalizeIgnoreValueEntries (JArr is))"
    using a(3) b(3) unfolding mergeIgnoreValues_def set_map by blast
  have "map entry_key (map snd ?b) = map fst ?b"
    using b(1) by (auto simp: keyed_def)
  then show "distinct (map entry_key (mergeIgnoreValues es is))"
    using b(1) by (simp add: mergeIgnoreValues_def keyed_def del: map_map)
qed

section \<open>Waivers by key\<close>

text \<open>
  What a waiver entry does depends only on rule, value and files: the three parts of its key. An
  entry's key determines them when none of them contains the separators.
\<close>

definition sep_free :: "string \<Rightarrow> bool" where
  "sep_free s \<longleftrightarrow> CHR 0x00 \<notin> set s \<and> CHR 0x1F \<notin> set s"

definition entry_parts :: "jsval \<Rightarrow> string \<times> string \<times> string list" where
  "entry_parts e = (to_str (get_prop e ''rule''), to_str (get_prop e ''value''),
     map to_str (arr_of (get_prop e ''files'')))"

definition clean_entry :: "jsval \<Rightarrow> bool" where
  "clean_entry e \<longleftrightarrow> (case entry_parts e of (r, v, fs) \<Rightarrow>
     sep_free r \<and> sep_free v \<and> list_all sep_free fs \<and> [] \<notin> set fs) \<and>
     list_all is_string (arr_of (get_prop e ''files''))"

lemma to_str_list_strings: "list_all is_string xs \<Longrightarrow> to_str_list xs = map to_str xs"
proof (induction xs)
  case (Cons x xs)
  then show ?case by (cases x) auto
qed simp

lemma split_at_sep:
  assumes "d \<notin> set a" "d \<notin> set b" "a @ d # x = b @ d # y"
  shows "a = b \<and> x = y"
proof -
  have "takeWhile (\<lambda>c. c \<noteq> d) (a @ d # x) = a" "takeWhile (\<lambda>c. c \<noteq> d) (b @ d # y) = b"
    using assms(1,2) by (auto simp: takeWhile_append)
  with assms(3) show ?thesis by simp
qed

lemma entry_key_parts:
  assumes "clean_entry a" "clean_entry b" "entry_key a = entry_key b"
  shows "entry_parts a = entry_parts b"
proof -
  have j: "fs = gs" if "join [CHR 0x1F] fs = join [CHR 0x1F] gs" "list_all sep_free fs" "list_all sep_free gs"
      "[] \<notin> set fs" "[] \<notin> set gs" for fs gs :: "string list"
  proof -
    have ne: "join [CHR 0x1F] hs = [] \<Longrightarrow> [] \<notin> set hs \<Longrightarrow> hs = []" for hs :: "string list"
      by (induction hs rule: induct_list012) auto
    show ?thesis
    proof (cases "fs = [] \<or> gs = []")
      case True
      then show ?thesis using that ne [of fs] ne [of gs] by auto
    next
      case False
      have sp: "hs \<noteq> [] \<Longrightarrow> list_all sep_free hs \<Longrightarrow> split_on CHR 0x1F (join [CHR 0x1F] hs) = hs" for hs
        by (rule split_on_join) (auto simp: list_all_iff sep_free_def)
      have "split_on CHR 0x1F (join [CHR 0x1F] fs) = fs" "split_on CHR 0x1F (join [CHR 0x1F] gs) = gs"
        using False sp [OF _ that(2)] sp [OF _ that(3)] by simp_all
      then show ?thesis using that(1) by metis
    qed
  qed
  have nul: "CHR 0x00 \<notin> set (to_str (get_prop a ''rule''))" "CHR 0x00 \<notin> set (to_str (get_prop b ''rule''))"
    "CHR 0x00 \<notin> set (to_str (get_prop a ''value''))" "CHR 0x00 \<notin> set (to_str (get_prop b ''value''))"
    using assms(1,2) unfolding clean_entry_def entry_parts_def sep_free_def split_conv by blast+
  have r: "to_str (get_prop a ''rule'') = to_str (get_prop b ''rule'')"
    "to_str (get_prop a ''value'') @ CHR 0x00 # ignoreValueFilesKey (get_prop a ''files'') =
     to_str (get_prop b ''value'') @ CHR 0x00 # ignoreValueFilesKey (get_prop b ''files'')"
    using split_at_sep [OF nul(1,2)] assms(3) by (simp_all add: entry_key_def)
  have v: "to_str (get_prop a ''value'') = to_str (get_prop b ''value'')"
    "ignoreValueFilesKey (get_prop a ''files'') = ignoreValueFilesKey (get_prop b ''files'')"
    using split_at_sep [OF nul(3,4) r(2)] by auto
  have "map to_str (arr_of (get_prop a ''files'')) = map to_str (arr_of (get_prop b ''files''))"
    using v(2) assms(1,2)
    by (intro j) (auto simp: ignoreValueFilesKey_def clean_entry_def entry_parts_def to_str_list_strings)
  with r(1) v(1) show ?thesis by (simp add: entry_parts_def)
qed

lemma entry_waives_parts:
  "entry_parts a = entry_parts b \<Longrightarrow> entry_waives f r v a = entry_waives f r v b"
  unfolding entry_waives_def entry_parts_def by simp

section \<open>Waivers accumulate\<close>

lemma normalize_entry_Some:
  assumes "normalize_entry e = Some e'"
  shows "get_prop e' ''rule'' = JStr (normalizeIgnoreRule (get_prop e ''rule''))"
    "get_prop e' ''value'' = JStr (normalizeIgnoreValue (get_prop e ''value''))"
    "arr_of (get_prop e' ''files'') = map JStr (entry_files e)" "get_prop e' ''file'' = JUndef"
    "normalizeIgnoreRule (get_prop e ''rule'') \<noteq> []" "normalizeIgnoreValue (get_prop e ''value'') \<noteq> []"
    "truthy e'" "typeof_object e'"
  using assms by (auto simp: normalize_entry_def Let_def arr_of_def split: if_splits)

lemma entry_parts_normal:
  "normalize_entry e = Some e' \<Longrightarrow> entry_parts e' =
     (normalizeIgnoreRule (get_prop e ''rule''), normalizeIgnoreValue (get_prop e ''value''), entry_files e)"
  by (simp add: entry_parts_def normalize_entry_Some comp_def)

text \<open>An entry the code has normalised once has the same parts as a settled one only if it is settled too.\<close>

lemma settled_parts:
  assumes "normalize_entry e0 = Some e0" "normalize_entry i = Some e1" "entry_parts e1 = entry_parts e0"
  shows "\<exists>e2. normalize_entry e1 = Some e2 \<and> entry_parts e2 = entry_parts e0"
proof -
  note n0 = normalize_entry_Some [OF assms(1)] and n1 = normalize_entry_Some [OF assms(2)]
  have p: "get_prop e1 ''rule'' = get_prop e0 ''rule''" "get_prop e1 ''value'' = get_prop e0 ''value''"
    "arr_of (get_prop e1 ''files'') = arr_of (get_prop e0 ''files'')"
    using assms(3) n0(1-3) n1(1-3) entry_parts_normal [OF assms(1)] entry_parts_normal [OF assms(2)] by auto
  then have "entry_files e1 = entry_files e0"
    unfolding entry_files_def n0(4) n1(4) by simp
  with p n0(5,6) n1(7,8) have "normalize_entry e1 \<noteq> None"
    by (simp add: normalize_entry_def Let_def)
  then obtain e2 where e2: "normalize_entry e1 = Some e2" by blast
  then have "entry_parts e2 = entry_parts e0"
    using entry_parts_normal [OF e2] entry_parts_normal [OF assms(1)] p \<open>entry_files e1 = entry_files e0\<close> by simp
  with e2 show ?thesis by blast
qed

definition settled :: "jsval list \<Rightarrow> bool" where
  "settled es \<longleftrightarrow> (\<forall>e \<in> set es. normalize_entry e = Some e \<and> clean_entry e)"

lemma settled_normal: "settled es \<Longrightarrow> normalizeIgnoreValueEntries (JArr es) = es"
  by (induction es) (auto simp: settled_def normalizeIgnoreValueEntries_def List.map_filter_def arr_of_def)

lemma merge_keeps_waivers:
  assumes "settled es" "\<forall>e \<in> set (normalizeIgnoreValueEntries (JArr is)). clean_entry e"
    and "isIgnoredFindingValue f es"
  shows "isIgnoredFindingValue f (normalizeIgnoreValueEntries (JArr (mergeIgnoreValues es is)))"
proof -
  let ?r = "finding_rule f" and ?v = "extractFindingIgnoreValue f" and ?m = "mergeIgnoreValues es is"
  obtain e0 where e0: "e0 \<in> set es" "entry_waives f ?r ?v e0" and rv: "?r \<noteq> []" "?v \<noteq> []"
    using assms(3) by (auto simp: isIgnoredFindingValue_def Let_def list_ex_iff split: if_splits)
  have s0: "normalize_entry e0 = Some e0" "clean_entry e0" using assms(1) e0(1) by (auto simp: settled_def)
  have "entry_key e0 \<in> entry_key ` set ?m"
    using e0(1) by (auto simp: merge_keys(1) settled_normal [OF assms(1)])
  then obtain e1 where e1: "e1 \<in> set ?m" "entry_key e1 = entry_key e0" by auto
  then have "e1 \<in> set es \<or> e1 \<in> set (normalizeIgnoreValueEntries (JArr is))"
    using merge_keys(3) [of es "is"] by (auto simp: settled_normal [OF assms(1)])
  then have c1: "clean_entry e1" and "\<exists>i. normalize_entry i = Some e1"
    using assms(1,2) by (auto simp: settled_def normalizeIgnoreValueEntries_def set_map_filter)
  then obtain i where i: "normalize_entry i = Some e1" by blast
  obtain e2 where e2: "normalize_entry e1 = Some e2" "entry_parts e2 = entry_parts e0"
    using settled_parts [OF s0(1) i entry_key_parts [OF c1 s0(2) e1(2)]] by blast
  have "e2 \<in> set (normalizeIgnoreValueEntries (JArr ?m))"
    using e1(1) e2(1) by (auto simp: normalizeIgnoreValueEntries_def set_map_filter arr_of_def)
  moreover have "entry_waives f ?r ?v e2"
    using e0(2) entry_waives_parts [OF e2(2), of f ?r ?v] by simp
  ultimately show ?thesis
    using rv by (auto simp: isIgnoredFindingValue_def Let_def list_ex_iff)
qed

lemma source_rules: "set (dc_ignoreRules c) \<subseteq> set (dc_ignoreRules (applyDetectionConfigSource raw c))"
  by (auto simp: applyDetectionConfigSource_def Let_def set_uniqueStrings image_Un image_image)

lemma source_values:
  "dc_ignoreValues (applyDetectionConfigSource raw c) =
     (if truthy raw \<and> typeof_object raw \<and> is_array (get_prop raw ''ignoreValues'')
      then mergeIgnoreValues (dc_ignoreValues c) (arr_of (get_prop raw ''ignoreValues''))
      else dc_ignoreValues c)"
  by (simp add: applyDetectionConfigSource_def Let_def)

text \<open>C22: Applying one more configuration source never brings a finding back: whatever \<open>ignoreRules\<close> and
  \<open>ignoreValues\<close> the source holds, every finding filtered out before is filtered out after. The entries
  known before are normalised ones (as every read leaves them), and no entry has a separator
  character of the merge key in its rule, value or files.\<close>

theorem source_only_adds_waivers:
  assumes "settled (dc_ignoreValues c)"
    and "\<forall>e \<in> set (normalizeIgnoreValueEntries (get_prop raw ''ignoreValues'')). clean_entry e"
  shows "set (filterDetectionFindings findings (applyDetectionConfigSource raw c)) \<subseteq>
    set (filterDetectionFindings findings c)"
proof -
  let ?c' = "applyDetectionConfigSource raw c"
  have "isIgnoredFindingValue f (normalizeIgnoreValueEntries (JArr (dc_ignoreValues ?c')))"
    if "isIgnoredFindingValue f (dc_ignoreValues c)" for f
  proof (cases "truthy raw \<and> typeof_object raw \<and> is_array (get_prop raw ''ignoreValues'')")
    case True
    then obtain xs where "get_prop raw ''ignoreValues'' = JArr xs" by (cases "get_prop raw ''ignoreValues''") auto
    then show ?thesis
      using True merge_keeps_waivers [OF assms(1) _ that, of xs] assms(2) by (simp add: source_values arr_of_def)
  next
    case False
    then have v: "dc_ignoreValues ?c' = dc_ignoreValues c" by (simp only: source_values if_False)
    show ?thesis unfolding v settled_normal [OF assms(1)] by (rule that)
  qed
  then have "\<not> finding_kept (map (\<lambda>r. normalizeIgnoreRule (JStr r)) (dc_ignoreRules c)) (dc_ignoreValues c) f \<Longrightarrow>
      \<not> finding_kept (map (\<lambda>r. normalizeIgnoreRule (JStr r)) (dc_ignoreRules ?c'))
          (normalizeIgnoreValueEntries (JArr (dc_ignoreValues ?c'))) f" for f
    using source_rules [of c raw] unfolding finding_kept_def by auto
  then show ?thesis
    unfolding filterDetectionFindings_def Let_def settled_normal [OF assms(1)] by auto
qed

text \<open>A waiver for every value (\<open>*\<close>) needs a list of files: without one it suppresses nothing, so no
  entry can switch off a rule for the whole project through \<open>ignoreValues\<close>.\<close>

theorem wildcard_needs_files:
  assumes "\<forall>e \<in> set es. to_str (get_prop e ''value'') = ''*'' \<and> arr_of (get_prop e ''files'') = []"
  shows "\<not> isIgnoredFindingValue f es"
  using assms by (auto simp: isIgnoredFindingValue_def Let_def list_ex_iff entry_waives_def)

section \<open>Writing and reading back\<close>

lemma plain_get: "plain_object v \<Longrightarrow> \<exists>kvs. v = JObj kvs"
  by (cases v) (auto simp: plain_object_def)

lemma stable_fields: "json_norm_fields kvs = kvs \<longleftrightarrow> (\<forall>v \<in> snd ` set kvs. json_stable v)"
proof (induction kvs)
  case (Cons x kvs)
  obtain k v where x: "x = (k, v)" by (cases x)
  have len: "length (json_norm_fields ys) \<le> length ys" for ys
    by (induction ys) (auto split: option.splits)
  show ?case
    using Cons.IH len [of kvs] by (cases "json_norm v") (auto simp: x json_stable_def)
qed simp

lemma stable_list: "json_norm_list xs = xs \<longleftrightarrow> (\<forall>v \<in> set xs. json_stable v \<or> v = JNull)"
proof (induction xs)
  case (Cons x xs)
  then show ?case by (cases x) (auto simp: json_stable_def split: option.splits)
qed simp

lemma json_stable_obj: "json_stable (JObj kvs) \<longleftrightarrow> (\<forall>v \<in> snd ` set kvs. json_stable v)"
  unfolding stable_fields [symmetric] by (simp add: json_stable_def)

lemma json_stable_arr: "json_stable (JArr xs) \<longleftrightarrow> (\<forall>v \<in> set xs. json_stable v \<or> v = JNull)"
  unfolding stable_list [symmetric] by (simp add: json_stable_def)

lemma map_of_fold_fields_set:
  "map_of (fold (\<lambda>(k, v) kvs. fields_set k v kvs) xs m) = map_of m ++ map_of (rev xs)"
  by (induction xs arbitrary: m) (auto simp: map_add_def fun_eq_iff split: option.splits)

lemma fold_fields_set_values:
  "snd ` set (fold (\<lambda>(k, v) kvs. fields_set k v kvs) xs m) \<subseteq> snd ` set m \<union> snd ` set xs"
proof (induction xs arbitrary: m)
  case (Cons x xs)
  obtain k v where x: "x = (k, v)" by (cases x)
  show ?case using Cons.IH [of "fields_set k v m"] fields_set_values [of k v m] unfolding x by simp blast
qed simp

lemma stable_spread:
  "json_stable (JObj a) \<Longrightarrow> json_stable (JObj b) \<Longrightarrow> json_stable (spread (JObj a) (JObj b))"
proof -
  assume "json_stable (JObj a)" "json_stable (JObj b)"
  then have "\<forall>v \<in> snd ` set a \<union> snd ` set b. json_stable v" unfolding json_stable_obj by (meson UnE)
  then show ?thesis
    unfolding spread_def json_stable_obj obj_fields.simps by (meson fold_fields_set_values subsetD)
qed

lemma stable_set_prop: "json_stable (JObj a) \<Longrightarrow> json_stable v \<Longrightarrow> json_stable (set_prop (JObj a) k v)"
  using fields_set_values [of k v a] unfolding set_prop_def json_stable_obj obj_fields.simps by blast

lemma stable_filter: "json_stable (JObj a) \<Longrightarrow> json_stable (JObj (filter P a))"
  unfolding json_stable_obj by auto

lemma stable_get: "json_stable (JObj a) \<Longrightarrow> get_prop (JObj a) k = JUndef \<or> json_stable (get_prop (JObj a) k)"
  unfolding json_stable_obj by (auto split: option.splits dest!: map_of_SomeD)

lemma stable_entry: "normalize_entry e = Some e' \<Longrightarrow> json_stable e'"
  by (auto simp: normalize_entry_def Let_def json_stable_obj json_stable_arr split: if_splits)

lemma stable_written: "json_stable (JObj (normalizeDetectionConfigForWrite config))"
  by (auto simp: normalizeDetectionConfigForWrite_def json_stable_obj json_stable_arr
      normalizeIgnoreValueEntries_def set_map_filter dest: stable_entry)

lemma written_keys: "distinct (map fst (normalizeDetectionConfigForWrite config))"
  by (simp add: normalizeDetectionConfigForWrite_def)

lemma plain_object_obj [simp]: "plain_object (JObj kvs)"
  by (simp add: plain_object_def)

lemma section_cases:
  "hookSection v = JNull \<or> (\<exists>kvs. hookSection v = JObj kvs \<and> get_prop v ''hook'' = JObj kvs)"
  "detectorSection v = JNull \<or> (\<exists>kvs. detectorSection v = JObj kvs \<and> get_prop v ''detector'' = JObj kvs)"
  "safeReadJson jf = JNull \<or> (\<exists>kvs. safeReadJson jf = JObj kvs \<and> jf = Some (JObj kvs))"
  by (auto simp: hookSection_def detectorSection_def safeReadJson_def split: option.splits dest: plain_get)

text \<open>The parts of the object written: the base object, its detector section and its hook section.\<close>

definition base_object :: "jsval option \<Rightarrow> (string \<times> jsval) list" where
  "base_object jf = obj_fields (safeReadJson jf)"

lemma next_config_fields:
  obtains ex det where "base_object jf = ex" "detectorSection (JObj ex) = JNull \<and> det = [] \<or> detectorSection (JObj ex) = JObj det"
    "next_config jf config =
       (let nxt = set_prop (JObj ex) ''detector'' (spread (JObj det) (JObj (normalizeDetectionConfigForWrite config)));
            h = filter (\<lambda>(k, v). k \<notin> set DETECTOR_CONFIG_KEYS) (obj_fields (hookSection (JObj ex)))
        in if h \<noteq> [] then set_prop nxt ''hook'' (JObj h) else delete_prop nxt ''hook'')"
proof -
  let ?ex = "base_object jf"
  have ex: "js_or (safeReadJson jf) (JObj []) = JObj ?ex"
    using section_cases(3) [of jf] by (auto simp: base_object_def js_or_def)
  obtain det where det: "detectorSection (JObj ?ex) = JNull \<and> det = [] \<or> detectorSection (JObj ?ex) = JObj det"
    using section_cases(2) [of "JObj ?ex"] by blast
  then have "js_or (detectorSection (JObj ?ex)) (JObj []) = JObj det" by (auto simp: js_or_def)
  moreover have "stripDetectorKeys (hookSection (JObj ?ex)) =
      (if hookSection (JObj ?ex) = JNull then JNull
       else JObj (filter (\<lambda>(k, v). k \<notin> set DETECTOR_CONFIG_KEYS) (obj_fields (hookSection (JObj ?ex)))))"
    using section_cases(1) [of "JObj ?ex"] by (auto simp: stripDetectorKeys_def plain_object_def)
  ultimately show thesis
    using that [OF refl det] ex by (auto simp: next_config_def Let_def)
qed

lemma no_detector_source:
  "\<forall>k \<in> set DETECTOR_CONFIG_KEYS. get_prop raw k = JUndef \<Longrightarrow> applyDetectionConfigSource raw c = c"
  by (simp add: applyDetectionConfigSource_def DETECTOR_CONFIG_KEYS_def plain_object_def Let_def)

lemma stripped_get:
  "get_prop (JObj (filter (\<lambda>(k, v). k \<notin> set ks) kvs)) k = (if k \<in> set ks then JUndef else get_prop (JObj kvs) k)"
proof -
  have "map_of (filter (\<lambda>(k, v). k \<notin> set ks) kvs) k = (if k \<in> set ks then None else map_of kvs k)"
    by (induction kvs) auto
  then show ?thesis by simp
qed

lemma uniq_distinct: "distinct xs \<Longrightarrow> uniq xs = xs"
  by (simp add: uniq_def distinct_remdups_id)

lemma written_get:
  assumes "is_array (get_prop config ''ignoreRules'')"
  shows "map_of (rev (normalizeDetectionConfigForWrite config)) ''ignoreRules'' =
    Some (JArr (map JStr (uniq (filter (\<lambda>r. r \<noteq> []) (map normalizeIgnoreRule (arr_of (get_prop config ''ignoreRules'')))))))"
  using assms by (simp add: normalizeDetectionConfigForWrite_def)

lemma written_file:
  assumes "jf = None \<or> (\<exists>v. jf = Some v \<and> json_stable v)"
  obtains w ex det where "writeDetectionConfig jf config = Some w" "\<exists>wf. w = JObj wf"
    "safeReadJson jf = JObj ex \<or> safeReadJson jf = JNull \<and> ex = []"
    "detectorSection w = spread (JObj det) (JObj (normalizeDetectionConfigForWrite config))"
    "\<And>k. k \<noteq> ''hook'' \<Longrightarrow> k \<noteq> ''detector'' \<Longrightarrow> get_prop w k = get_prop (JObj ex) k"
    "\<And>k. get_prop (hookSection w) k = (if k \<in> set DETECTOR_CONFIG_KEYS then JUndef
        else get_prop (hookSection (JObj ex)) k)"
proof -
  obtain ex det where ex: "base_object jf = ex"
    and det: "detectorSection (JObj ex) = JNull \<and> det = [] \<or> detectorSection (JObj ex) = JObj det"
    and nxt: "next_config jf config =
       (let nxt = set_prop (JObj ex) ''detector'' (spread (JObj det) (JObj (normalizeDetectionConfigForWrite config)));
            h = filter (\<lambda>(k, v). k \<notin> set DETECTOR_CONFIG_KEYS) (obj_fields (hookSection (JObj ex)))
        in if h \<noteq> [] then set_prop nxt ''hook'' (JObj h) else delete_prop nxt ''hook'')"
    by (rule next_config_fields)
  define D where "D = spread (JObj det) (JObj (normalizeDetectionConfigForWrite config))"
  define h where "h = filter (\<lambda>(k, v). k \<notin> set DETECTOR_CONFIG_KEYS) (obj_fields (hookSection (JObj ex)))"
  define w where "w = next_config jf config"
  have w: "w = (if h \<noteq> [] then set_prop (set_prop (JObj ex) ''detector'' D) ''hook'' (JObj h)
      else delete_prop (set_prop (JObj ex) ''detector'' D) ''hook'')"
    by (simp add: w_def nxt D_def h_def Let_def)
  have safe: "safeReadJson jf = JObj ex \<or> (safeReadJson jf = JNull \<and> ex = [])"
    using section_cases(3) [of jf] ex by (auto simp: base_object_def)
  have st_ex: "json_stable (JObj ex)"
    using assms ex section_cases(3) [of jf] by (auto simp: base_object_def json_stable_def)
  have hook_get: "hookSection (JObj ex) = JNull \<or> (\<exists>kvs. hookSection (JObj ex) = JObj kvs \<and> json_stable (JObj kvs))"
    using section_cases(1) [of "JObj ex"] stable_get [OF st_ex, of "''hook''"] by auto
  have st_det: "json_stable (JObj det)"
    using det section_cases(2) [of "JObj ex"] stable_get [OF st_ex, of "''detector''"] by (auto simp: json_stable_def)
  have st_h: "json_stable (JObj h)"
    using hook_get unfolding h_def by (intro stable_filter) (auto simp: json_stable_def)
  have st_D: "json_stable D" unfolding D_def by (rule stable_spread [OF st_det stable_written])
  obtain e1 where e1: "set_prop (JObj ex) ''detector'' D = JObj e1" by (simp add: set_prop_def)
  have st_e1: "json_stable (JObj e1)" using stable_set_prop [OF st_ex st_D, of "''detector''"] e1 by simp
  have "json_stable w"
    unfolding w e1 delete_prop_def using stable_set_prop [OF st_e1 st_h, of "''hook''"] stable_filter [OF st_e1] by simp
  then have wr: "writeDetectionConfig jf config = Some w"
    by (simp add: writeDetectionConfig_def w_def json_stable_def)
  have get: "get_prop w k = (if k = ''hook'' then (if h = [] then JUndef else JObj h)
      else if k = ''detector'' then D else get_prop (JObj ex) k)" for k
    by (auto simp: w set_prop_def delete_prop_def map_of_filter_neq)
  have "\<exists>wf. w = JObj wf" by (simp add: w set_prop_def delete_prop_def)
  then obtain wf where wf: "w = JObj wf" by blast
  have D_obj: "plain_object D" by (simp add: D_def spread_def)
  have hs: "hookSection w = (if h = [] then JNull else JObj h)" "detectorSection w = D"
    using D_obj by (simp_all add: hookSection_def detectorSection_def get) (simp_all add: wf plain_object_def)
  have hk: "get_prop (hookSection w) k = (if k \<in> set DETECTOR_CONFIG_KEYS then JUndef
      else get_prop (hookSection (JObj ex)) k)" for k
  proof (cases "hookSection (JObj ex) = JNull")
    case True
    then show ?thesis by (simp add: hs h_def)
  next
    case False
    then obtain kvs where kvs: "hookSection (JObj ex) = JObj kvs" using hook_get by auto
    have "get_prop (JObj h) k = (if k \<in> set DETECTOR_CONFIG_KEYS then JUndef else get_prop (JObj kvs) k)"
      unfolding h_def kvs obj_fields.simps by (rule stripped_get)
    then show ?thesis by (cases "h = []") (auto simp: hs kvs split: if_splits)
  qed
  show ?thesis
    by (rule that[OF wr _ safe]) (use wf hs(2) get hk in \<open>simp_all add: D_def\<close>)
qed

text \<open>C23: Writing a configuration and reading the file back gives the rules that were written, normalised
  and each once: filters that an old file kept under \<open>hook\<close> no longer count. Keys of the file other
  than \<open>detector\<close> and \<open>hook\<close> are left alone, and so are the other settings under \<open>hook\<close>.\<close>

theorem write_then_read:
  assumes "jf = None \<or> (\<exists>v. jf = Some v \<and> json_stable v)" "is_array (get_prop config ''ignoreRules'')"
  shows "\<exists>w. writeDetectionConfig jf config = Some w \<and>
    dc_ignoreRules (readRawDetectionConfig (Some w)) =
      uniq (filter (\<lambda>r. r \<noteq> []) (map normalizeIgnoreRule (arr_of (get_prop config ''ignoreRules'')))) \<and>
    (\<forall>k. k \<noteq> ''detector'' \<longrightarrow> k \<noteq> ''hook'' \<longrightarrow> get_prop w k = get_prop (safeReadJson jf) k) \<and>
    (\<forall>k. k \<notin> set DETECTOR_CONFIG_KEYS \<longrightarrow>
       get_prop (hookSection w) k = get_prop (hookSection (safeReadJson jf)) k)"
proof -
  obtain w ex det where w: "writeDetectionConfig jf config = Some w" "\<exists>wf. w = JObj wf"
    "safeReadJson jf = JObj ex \<or> safeReadJson jf = JNull \<and> ex = []"
    "detectorSection w = spread (JObj det) (JObj (normalizeDetectionConfigForWrite config))"
    and get: "\<And>k. k \<noteq> ''hook'' \<Longrightarrow> k \<noteq> ''detector'' \<Longrightarrow> get_prop w k = get_prop (JObj ex) k"
    and hk: "\<And>k. get_prop (hookSection w) k = (if k \<in> set DETECTOR_CONFIG_KEYS then JUndef
        else get_prop (hookSection (JObj ex)) k)"
    by (rule written_file[OF assms(1), of config]) (rule that; assumption)
  define D where "D = spread (JObj det) (JObj (normalizeDetectionConfigForWrite config))"
  note w(4)[folded D_def]
  have "apply_file (Some w) cloneDetectionConfig = applyDetectionConfigSource D cloneDetectionConfig"
  proof -
    obtain wf where wf: "w = JObj wf" using w(2) by blast
    have "safeReadJson (Some w) = w" by (simp add: safeReadJson_def wf plain_object_def)
    then show ?thesis
      using no_detector_source [of "hookSection w"] hk \<open>detectorSection w = D\<close>
      by (simp add: apply_file_def Let_def del: get_prop.simps)
  qed
  moreover have "get_prop D ''ignoreRules'' = JArr (map JStr (uniq (filter (\<lambda>r. r \<noteq> [])
      (map normalizeIgnoreRule (arr_of (get_prop config ''ignoreRules''))))))"
    using written_get [OF assms(2)] by (simp add: D_def spread_def map_of_fold_fields_set)
  moreover have "truthy D" "typeof_object D" by (simp_all add: D_def spread_def)
  ultimately have "dc_ignoreRules (readRawDetectionConfig (Some w)) =
      uniq (filter (\<lambda>r. r \<noteq> []) (map normalizeIgnoreRule (arr_of (get_prop config ''ignoreRules''))))"
    by (simp add: readRawDetectionConfig_def applyDetectionConfigSource_def Let_def cloneDetectionConfig_def
        arr_of_def uniqueStrings_def uniq_distinct comp_def)
  moreover have "hookSection (safeReadJson jf) = hookSection (JObj ex)"
    using w(3) by (auto simp: hookSection_def plain_object_def)
  moreover have "get_prop (safeReadJson jf) k = get_prop (JObj ex) k" for k using w(3) by auto
  ultimately show ?thesis
    using w(1) get hk by (intro exI [of _ w]) (simp del: get_prop.simps)
qed

section \<open>Witnesses\<close>

definition demo_source :: jsval where
  "demo_source = JObj [(''ignoreRules'', JArr [JStr ''side-tab'']),
     (''ignoreValues'', JArr [JObj [(''rule'', JStr ''design-system-color''), (''value'', JStr ''#0af'')]])]"

definition demo_config :: detection_config where
  "demo_config = cloneDetectionConfig\<lparr>dc_ignoreValues := [JObj [(''rule'', JStr ''overused-font''), (''value'', JStr ''inter'')]]\<rparr>"

theorem source_only_adds_waivers_witness:
  "set (filterDetectionFindings (JArr [JObj [(''antipattern'', JStr ''side-tab'')]])
     (applyDetectionConfigSource demo_source demo_config)) \<subseteq>
   set (filterDetectionFindings (JArr [JObj [(''antipattern'', JStr ''side-tab'')]]) demo_config)"
proof (rule source_only_adds_waivers)
  have "list_all (\<lambda>e. normalize_entry e = Some e \<and> clean_entry e) (dc_ignoreValues demo_config)" by code_simp
  then show "settled (dc_ignoreValues demo_config)" by (simp add: settled_def list_all_iff)
  have "list_all clean_entry (normalizeIgnoreValueEntries (get_prop demo_source ''ignoreValues''))" by code_simp
  then show "\<forall>e \<in> set (normalizeIgnoreValueEntries (get_prop demo_source ''ignoreValues'')). clean_entry e"
    by (simp add: list_all_iff)
qed

theorem wildcard_needs_files_witness:
  "\<not> isIgnoredFindingValue (JObj [(''antipattern'', JStr ''overused-font''), (''value'', JStr ''Inter'')])
     [JObj [(''rule'', JStr ''overused-font''), (''value'', JStr ''*'')]]"
  by (rule wildcard_needs_files) (simp add: arr_of_def)

theorem write_then_read_witness:
  "\<exists>w. writeDetectionConfig (Some (JObj [(''hook'', JObj [(''quiet'', JBool True), (''ignoreRules'', JArr [JStr ''x''])])]))
        (JObj [(''ignoreRules'', JArr [JStr '' Side-Tab ''])]) = Some w \<and>
     dc_ignoreRules (readRawDetectionConfig (Some w)) = [''side-tab'']"
proof -
  have s: "json_stable (JObj [(''hook'', JObj [(''quiet'', JBool True), (''ignoreRules'', JArr [JStr ''x''])])])"
    by (simp add: json_stable_def)
  have u: "uniq (filter (\<lambda>r. r \<noteq> []) (map normalizeIgnoreRule (arr_of (get_prop
      (JObj [(''ignoreRules'', JArr [JStr '' Side-Tab ''])]) ''ignoreRules'')))) = [''side-tab'']" by code_simp
  show ?thesis
    using write_then_read [of "Some (JObj [(''hook'', JObj [(''quiet'', JBool True), (''ignoreRules'', JArr [JStr ''x''])])])"
        "JObj [(''ignoreRules'', JArr [JStr '' Side-Tab ''])]"] s u by auto
qed

section \<open>Marker blocks\<close>

lemma rmatch_lit:
  "rmatch (RLit w) (pv, rest, g) =
     (if starts_with rest w then [(rev w @ pv, drop (length w) rest, g)] else [])"
proof (induction w arbitrary: pv rest rule: RLit.induct)
  case 1
  then show ?case by (simp add: starts_with_def)
next
  case (2 c)
  then show ?case by (cases rest) (auto simp: RChr_def starts_with_def)
next
  case (3 c d cs)
  then show ?case by (cases rest) (auto simp: RChr_def starts_with_def)
qed

lemma rrep_lazy_all:
  assumes "length rest \<le> k"
  shows "rrep (\<lambda>(pv, rest, g). rmatch RAll (pv, rest, reset_caps [] g)) False k 0 None (pv, rest, g) =
    map (\<lambda>j. adv j (pv, rest, g)) [0..<Suc (length rest)]"
  using assms
proof (induction k arbitrary: pv rest)
  case 0
  then show ?case by simp
next
  case (Suc k)
  show ?case
  proof (cases rest)
    case Nil
    then show ?thesis by (simp add: RAll_def Let_def)
  next
    case (Cons c cs)
    have "rrep (\<lambda>(pv, rest, g). rmatch RAll (pv, rest, reset_caps [] g)) False k 0 None (c # pv, cs, g) =
        map (\<lambda>j. adv j (c # pv, cs, g)) [0..<Suc (length cs)]"
      by (rule Suc.IH) (use Suc.prems Cons in simp)
    moreover have "[0..<Suc (Suc (length cs))] = 0 # map Suc [0..<Suc (length cs)]"
      by (simp only: map_Suc_upt) (simp add: upt_conv_Cons del: upt_Suc)
    ultimately show ?thesis
      using Cons by (simp add: Let_def RAll_def comp_def del: upt_Suc)
  qed
qed

lemma rmatch_lazy_all:
  "rmatch (RLazy RAll) (pv, rest, g) = map (\<lambda>j. adv j (pv, rest, g)) [0..<Suc (length rest)]"
  using rrep_lazy_all [of rest "length rest" pv g]
  by (simp add: RAll_def del: upt_Suc)

text \<open>Where the lazy middle first meets the closing marker.\<close>

definition lazy_ends :: "string \<Rightarrow> string \<Rightarrow> string \<Rightarrow> caps \<Rightarrow> rpos list" where
  "lazy_ends w pv r g = concat (map (\<lambda>j. rmatch (RLit w) (adv j (pv, r, g))) [0..<Suc (length r)])"

lemma lazy_ends_Cons:
  "lazy_ends w pv (c # cs) g = rmatch (RLit w) (pv, c # cs, g) @ lazy_ends w (c # pv) cs g"
proof -
  have up: "[0..<Suc (Suc (length cs))] = 0 # map Suc [0..<Suc (length cs)]"
    by (simp only: map_Suc_upt) (simp add: upt_conv_Cons del: upt_Suc)
  show ?thesis
    unfolding lazy_ends_def list.size(4) add_Suc_right add_0_right up by (simp add: comp_def del: upt_Suc)
qed

lemma lazy_first:
  "(case lazy_ends w pv r g of
      [] \<Rightarrow> index_of r w = None
    | st # _ \<Rightarrow> (\<exists>i. index_of r w = Some i \<and> st = adv (i + length w) (pv, r, g)))"
proof (induction r arbitrary: pv)
  case Nil
  then show ?case by (auto simp: lazy_ends_def rmatch_lit starts_with_def adv_def)
next
  case (Cons c cs)
  show ?case
  proof (cases "starts_with (c # cs) w")
    case True
    then have "take (length w) (c # cs) = w" by (simp add: starts_with_def)
    with True show ?thesis by (simp add: lazy_ends_Cons rmatch_lit adv_def)
  next
    case False
    then show ?thesis using Cons.IH [of "c # pv"]
      by (auto simp: lazy_ends_Cons rmatch_lit split: list.splits)
  qed
qed

definition block_match :: "string \<Rightarrow> string \<Rightarrow> string \<Rightarrow> nat option" where
  "block_match op cl rest =
     (if starts_with rest op
      then map_option (\<lambda>i. length op + i + length cl) (index_of (drop (length op) rest) cl) else None)"

lemma marker_match:
  "match_here (marker_re op cl) pv rest =
     map_option (\<lambda>n. \<lparr>m_before = rev pv, m_text = take n rest, m_after = drop n rest, m_caps = []\<rparr>)
       (block_match op cl rest)"
proof (cases "starts_with rest op")
  case False
  then show ?thesis by (simp add: match_here_def marker_re_def rmatch_lit block_match_def)
next
  case True
  let ?r = "drop (length op) rest" and ?pv = "rev op @ pv"
  have m: "rmatch (marker_re op cl) (pv, rest, []) =
      lazy_ends cl ?pv ?r []"
    using True rmatch_lazy_all [of ?pv ?r "[]"]
    by (simp add: marker_re_def rmatch_lit comp_def lazy_ends_def del: rmatch.simps(5) upt_Suc)
  have len: "n \<le> length rest" if "block_match op cl rest = Some n" for n
    using that True index_of_take [of ?r cl]
    by (auto simp: block_match_def starts_with_prefix dest!: prefix_length_le)
  show ?thesis
  proof (cases "rmatch (marker_re op cl) (pv, rest, [])")
    case Nil
    then show ?thesis
      using lazy_first [of ?r cl ?pv "[]"] True m
      by (simp add: match_here_def block_match_def)
  next
    case (Cons st sts)
    then obtain i where i: "index_of ?r cl = Some i" "st = adv (i + length cl) (?pv, ?r, [])"
      using lazy_first [of ?r cl ?pv "[]"] m by auto
    then have n: "block_match op cl rest = Some (length op + i + length cl)" using True by (simp add: block_match_def)
    show ?thesis
      using len [OF n] by (simp add: match_here_def Cons n i(2) adv_def add.commute add.left_commute)
  qed
qed

text \<open>The first position at which a block starts decides.\<close>

lemma marker_exec_at:
  assumes "\<And>k. k < length b \<Longrightarrow> block_match op cl (drop k b @ rest) = None"
    and "block_match op cl rest = Some n"
  shows "re_exec (marker_re op cl) (b @ rest) =
    Some \<lparr>m_before = b, m_text = take n rest, m_after = drop n rest, m_caps = []\<rparr>"
proof -
  have "search_from (marker_re op cl) pv (b @ rest) =
      Some \<lparr>m_before = rev pv @ b, m_text = take n rest, m_after = drop n rest, m_caps = []\<rparr>" for pv
    using assms(1)
  proof (induction b arbitrary: pv)
    case Nil
    then show ?case using assms(2) by (cases rest) (simp_all add: marker_match)
  next
    case (Cons c b)
    have "block_match op cl (c # b @ rest) = None" using Cons.prems [of 0] by simp
    moreover have "search_from (marker_re op cl) (c # pv) (b @ rest) =
        Some \<lparr>m_before = rev (c # pv) @ b, m_text = take n rest, m_after = drop n rest, m_caps = []\<rparr>"
      by (rule Cons.IH) (use Cons.prems [of "Suc _"] in auto)
    ultimately show ?case by (simp add: marker_match)
  qed
  then show ?thesis by (simp add: re_exec_def)
qed

lemma marker_exec_Some:
  assumes "re_exec (marker_re op cl) s = Some m"
  shows "\<exists>n. s = m_before m @ m_text m @ m_after m \<and>
    (\<forall>k < length (m_before m). block_match op cl (drop k (m_before m) @ m_text m @ m_after m) = None) \<and>
    block_match op cl (m_text m @ m_after m) = Some n"
proof -
  have "search_from (marker_re op cl) pv s = Some m \<Longrightarrow>
      \<exists>w n. m_before m = rev pv @ w \<and> s = w @ m_text m @ m_after m \<and>
        (\<forall>k < length w. block_match op cl (drop k w @ m_text m @ m_after m) = None) \<and>
        block_match op cl (m_text m @ m_after m) = Some n" for pv
  proof (induction s arbitrary: pv)
    case Nil
    then show ?case by (auto simp: marker_match)
  next
    case (Cons c s)
    show ?case
    proof (cases "block_match op cl (c # s)")
      case None
      then obtain w n where w: "m_before m = rev (c # pv) @ w" "s = w @ m_text m @ m_after m"
        "\<forall>k < length w. block_match op cl (drop k w @ m_text m @ m_after m) = None"
        "block_match op cl (m_text m @ m_after m) = Some n"
        using Cons.IH [of "c # pv"] Cons.prems by (auto simp: marker_match)
      have "\<forall>k < length (c # w). block_match op cl (drop k (c # w) @ m_text m @ m_after m) = None"
        using w(2,3) None by (auto simp: less_Suc_eq_0_disj)
      with w show ?thesis by (intro exI [of _ "c # w"] exI [of _ n]) simp
    next
      case (Some n)
      with Cons.prems show ?thesis by (auto simp: marker_match intro!: exI [of _ "[]"])
    qed
  qed
  from this [of "[]"] assms show ?thesis unfolding re_exec_def by auto
qed

lemma marker_exec_None: "re_exec (marker_re op cl) s = None \<Longrightarrow> k \<le> length s \<Longrightarrow> block_match op cl (drop k s) = None"
proof -
  have "search_from (marker_re op cl) pv s = None \<Longrightarrow> k \<le> length s \<Longrightarrow> block_match op cl (drop k s) = None" for pv
  proof (induction s arbitrary: pv k)
    case Nil
    then show ?case by (simp add: marker_match)
  next
    case (Cons c s)
    then show ?case by (cases k) (auto simp: marker_match split: option.splits)
  qed
  then show "re_exec (marker_re op cl) s = None \<Longrightarrow> k \<le> length s \<Longrightarrow> block_match op cl (drop k s) = None"
    by (simp add: re_exec_def)
qed

text \<open>
  Markers that start with a character they do not repeat cannot overlap themselves or a block.
\<close>

definition marker_ok :: "string \<Rightarrow> string \<Rightarrow> string \<Rightarrow> bool" where
  "marker_ok op cl mid \<longleftrightarrow> op \<noteq> [] \<and> cl \<noteq> [] \<and> hd op \<notin> set (tl op) \<and> hd cl \<notin> set mid"

lemma index_of_first:
  "w \<noteq> [] \<Longrightarrow> hd w \<notin> set u \<Longrightarrow> index_of (u @ w @ v) w = Some (length u)"
proof (induction u)
  case Nil
  then show ?case by (cases w) (auto simp: starts_with_def)
next
  case (Cons c u)
  then have "\<not> starts_with (c # u @ w @ v) w" by (cases w) (auto simp: starts_with_def)
  with Cons show ?case by simp
qed

lemma index_of_append: "index_of v w \<noteq> None \<Longrightarrow> index_of (u @ v) w \<noteq> None"
proof (induction u)
  case (Cons c u)
  then show ?case by auto
qed simp

lemma index_of_occurs: "index_of (u @ w @ v) w \<noteq> None"
proof -
  have "index_of (w @ v) w = Some 0" by (cases w; cases v) (auto simp: starts_with_def)
  then show ?thesis using index_of_append [of "w @ v" w u] by simp
qed

lemma block_at_block:
  "marker_ok op cl mid \<Longrightarrow>
     block_match op cl ((op @ mid @ cl) @ a) = Some (length (op @ mid @ cl))"
  using index_of_first [of cl mid a] by (simp add: block_match_def marker_ok_def)

text \<open>Putting a block where one was found leaves the text before it without a match.\<close>

lemma no_earlier_block:
  assumes ok: "marker_ok op cl mid" and c: "c \<noteq> []"
    and old: "starts_with (c @ old) op \<Longrightarrow> length op \<le> length c \<Longrightarrow> False"
  shows "block_match op cl (c @ (op @ mid @ cl) @ a) = None"
proof -
  have "\<not> starts_with (c @ (op @ mid @ cl) @ a) op"
  proof
    assume s: "starts_with (c @ (op @ mid @ cl) @ a) op"
    show False
    proof (cases "length op \<le> length c")
      case True
      then have "starts_with (c @ old) op" using s by (simp add: starts_with_def)
      then show False using old True by blast
    next
      case False
      then have "op ! length c = (c @ (op @ mid @ cl) @ a) ! length c"
        using s by (metis nth_take not_le starts_with_def)
      also have "\<dots> = hd op" using ok by (simp add: nth_append marker_ok_def hd_conv_nth)
      finally have "hd op = tl op ! (length c - 1)" using c False by (cases op) (auto simp: nth_Cons')
      moreover have "length c - 1 < length (tl op)" using c False by (cases c) auto
      ultimately show False using ok by (metis marker_ok_def nth_mem)
    qed
  qed
  then show ?thesis by (simp add: block_match_def)
qed

lemma replace_settled:
  assumes "re_exec (marker_re op cl) (b @ (op @ mid @ cl) @ a) =
     Some \<lparr>m_before = b, m_text = op @ mid @ cl, m_after = a, m_caps = []\<rparr>"
  shows "re_test (marker_re op cl) (b @ (op @ mid @ cl) @ a)"
    "re_replace (marker_re op cl) (\<lambda>_. op @ mid @ cl) (b @ (op @ mid @ cl) @ a) = b @ (op @ mid @ cl) @ a"
  using assms by (simp_all add: re_test_def re_replace_def)

text \<open>After a replacement the block is found again, in the same place.\<close>

lemma exec_after_replace:
  assumes ok: "marker_ok op cl mid" and m: "re_exec (marker_re op cl) s = Some m"
  shows "re_exec (marker_re op cl) (m_before m @ (op @ mid @ cl) @ m_after m) =
    Some \<lparr>m_before = m_before m, m_text = op @ mid @ cl, m_after = m_after m, m_caps = []\<rparr>"
proof -
  obtain n where n: "block_match op cl (m_text m @ m_after m) = Some n"
    and none: "\<forall>k < length (m_before m). block_match op cl (drop k (m_before m) @ m_text m @ m_after m) = None"
    using marker_exec_Some [OF m] by blast
  have cl: "index_of (drop (length op) (m_text m @ m_after m)) cl \<noteq> None"
    using n by (auto simp: block_match_def split: if_splits)
  have nb: "block_match op cl (drop k (m_before m) @ (op @ mid @ cl) @ m_after m) = None"
    if k: "k < length (m_before m)" for k
  proof (rule no_earlier_block [OF ok])
    show "drop k (m_before m) \<noteq> []" using k by simp
    assume s: "starts_with (drop k (m_before m) @ m_text m @ m_after m) op"
      and len: "length op \<le> length (drop k (m_before m))"
    have "index_of (m_text m @ m_after m) cl \<noteq> None"
      using index_of_append [OF cl, of "take (length op) (m_text m @ m_after m)"]
      unfolding append_take_drop_id .
    then have "index_of (drop (length op) (drop k (m_before m)) @ m_text m @ m_after m) cl \<noteq> None"
      by (rule index_of_append)
    then have "block_match op cl (drop k (m_before m) @ m_text m @ m_after m) \<noteq> None"
      using s len by (simp add: block_match_def)
    then show False using none [rule_format, OF k] by contradiction
  qed
  show ?thesis
    using marker_exec_at [of "m_before m", OF nb block_at_block [OF ok]] by simp
qed

text \<open>The same for a block appended to a text in which the opening marker does not occur.\<close>

lemma exec_after_append:
  assumes ok: "marker_ok op cl mid" and no: "\<not> str_includes b op"
  shows "re_exec (marker_re op cl) (b @ (op @ mid @ cl) @ a) =
    Some \<lparr>m_before = b, m_text = op @ mid @ cl, m_after = a, m_caps = []\<rparr>"
proof -
  have nb: "block_match op cl (drop k b @ (op @ mid @ cl) @ a) = None" if k: "k < length b" for k
  proof (rule no_earlier_block [OF ok, where old = "[]"])
    show "drop k b \<noteq> []" using k by simp
    assume "starts_with (drop k b @ []) op"
    then obtain v where "drop k b = op @ v" by (auto simp: starts_with_prefix prefix_def)
    then have "b = take k b @ op @ v" by (metis append_take_drop_id)
    then show False using no index_of_occurs [of "take k b" op v] by (simp add: str_includes_def)
  qed
  show ?thesis using marker_exec_at [of b, OF nb block_at_block [OF ok]] by simp
qed

lemma newline_char: "newline = [CHR 0x0A]"
  by code_simp

lemma includes_append_newline:
  "str_includes (s @ newline) op \<Longrightarrow> CHR 0x0A \<notin> set op \<Longrightarrow> op \<noteq> [] \<Longrightarrow> str_includes s op"
proof -
  assume inc: "str_includes (s @ newline) op" and nl: "CHR 0x0A \<notin> set op" and ne: "op \<noteq> []"
  obtain i where i: "index_of (s @ newline) op = Some i" using inc by (auto simp: str_includes_def)
  note nls = newline_char
  obtain v where v: "drop i (s @ newline) = op @ v" "i \<le> length (s @ newline)"
    using index_of_take [OF i] by (auto simp: starts_with_prefix prefix_def)
  then have "s @ newline = (take i (s @ newline) @ op) @ v" by (metis append_assoc append_take_drop_id)
  moreover have "v \<noteq> []"
  proof
    assume "v = []"
    then have "last (s @ newline) = last op" using calculation ne by simp
    then show False using nl ne by (simp add: nls)
  qed
  ultimately have "s = take i (s @ newline) @ op @ butlast v"
    by (metis append_assoc butlast_append butlast_snoc nls)
  then show ?thesis using index_of_occurs [of "take i (s @ newline)" op "butlast v"] by (simp add: str_includes_def)
qed

lemma exclude_markers_ok:
  "exclude_block EXCLUDE_OPEN [''.impeccable/config.local.json''] EXCLUDE_CLOSE =
     EXCLUDE_OPEN @ (newline @ ''.impeccable/config.local.json'' @ newline) @ EXCLUDE_CLOSE"
  "marker_ok EXCLUDE_OPEN EXCLUDE_CLOSE (newline @ ''.impeccable/config.local.json'' @ newline)"
  "CHR 0x0A \<notin> set EXCLUDE_OPEN" "EXCLUDE_OPEN \<noteq> []"
  by (simp_all add: exclude_block_def marker_ok_def EXCLUDE_OPEN_def EXCLUDE_CLOSE_def newline_char)

lemma exclude_replaces:
  "re_exec (marker_re EXCLUDE_OPEN EXCLUDE_CLOSE) s = Some m \<Longrightarrow>
     ensureConfigGitExclude s = m_before m @
       exclude_block EXCLUDE_OPEN [''.impeccable/config.local.json''] EXCLUDE_CLOSE @ m_after m"
  by (simp add: ensureConfigGitExclude_def re_test_def re_replace_def Let_def)

text \<open>Running the exclude update twice gives what running it once gives, provided an opening marker in the
  file is closed: the block is replaced in place, whatever surrounds it, and never added a second
  time.\<close>

theorem exclude_idempotent:
  assumes "str_includes s EXCLUDE_OPEN \<longrightarrow> re_test (marker_re EXCLUDE_OPEN EXCLUDE_CLOSE) s"
  shows "ensureConfigGitExclude (ensureConfigGitExclude s) = ensureConfigGitExclude s"
proof -
  let ?re = "marker_re EXCLUDE_OPEN EXCLUDE_CLOSE" and ?mid = "newline @ ''.impeccable/config.local.json'' @ newline"
  let ?block = "EXCLUDE_OPEN @ ?mid @ EXCLUDE_CLOSE"
  have once: "\<exists>b a. ensureConfigGitExclude s = b @ ?block @ a \<and>
      re_exec ?re (b @ ?block @ a) = Some \<lparr>m_before = b, m_text = ?block, m_after = a, m_caps = []\<rparr>"
  proof (cases "re_exec ?re s")
    case (Some m)
    then have "ensureConfigGitExclude s = m_before m @ ?block @ m_after m"
      by (simp add: exclude_replaces exclude_markers_ok(1))
    then show ?thesis using exec_after_replace [OF exclude_markers_ok(2) Some] by blast
  next
    case None
    then have no: "\<not> str_includes s EXCLUDE_OPEN" using assms by (auto simp: re_test_def)
    define b where "b = (if s = [] then [] else if ends_with s newline then s else s @ newline)"
    have "\<not> str_includes [] EXCLUDE_OPEN" by (simp add: str_includes_def exclude_markers_ok(4))
    moreover have "\<not> str_includes (s @ newline) EXCLUDE_OPEN"
      using includes_append_newline[OF _ exclude_markers_ok(3,4)] no by blast
    ultimately have "\<not> str_includes b EXCLUDE_OPEN" using no by (simp add: b_def)
    note exec_after_append [OF exclude_markers_ok(2) this, of newline]
    moreover have "ensureConfigGitExclude s = b @ ?block @ newline"
      using None by (simp add: ensureConfigGitExclude_def exclude_markers_ok(1) re_test_def b_def Let_def)
    ultimately show ?thesis by blast
  qed
  then obtain b a where ba: "ensureConfigGitExclude s = b @ ?block @ a"
    "re_exec ?re (b @ ?block @ a) = Some \<lparr>m_before = b, m_text = ?block, m_after = a, m_caps = []\<rparr>"
    by blast
  show ?thesis
    unfolding ba(1) using replace_settled [OF ba(2)]
    by (simp add: ensureConfigGitExclude_def [of "_ @ _"] exclude_markers_ok(1) Let_def)
qed

definition dangling_exclude :: string where
  "dangling_exclude = EXCLUDE_OPEN @ newline @ ''secret.txt'' @ newline"


theorem exclude_idempotent_witness:
  "ensureConfigGitExclude (ensureConfigGitExclude ''*.log'') = ensureConfigGitExclude ''*.log''"
proof (rule exclude_idempotent)
  have "\<not> str_includes ''*.log'' EXCLUDE_OPEN" by code_simp
  then show "str_includes ''*.log'' EXCLUDE_OPEN \<longrightarrow> re_test (marker_re EXCLUDE_OPEN EXCLUDE_CLOSE) ''*.log''"
    by blast
qed

end
