(* ===== verification/JsJson.thy ===== *)
theory JsJson
  imports JsValue
begin

text \<open>
  JSON text. \<open>json_text\<close> is what \<open>JSON.stringify\<close> writes, with the indentation argument
  (0 for none), and \<open>json_parse\<close> what \<open>JSON.parse\<close> reads; \<open>None\<close> is the SyntaxError. The
  theorem \<open>json_parse_text\<close> is their round trip for the values JSON carries.

  A \<open>\u\<close> escape above \<open>\u00ff\<close> is outside the model's strings and reads as an error.
\<close>

section \<open>Writing\<close>

definition hex_char :: "nat \<Rightarrow> char" where
  "hex_char n = (if n < 10 then char_of (48 + n) else char_of (87 + n))"

definition json_escape :: "char \<Rightarrow> string" where
  "json_escape c =
     (let n = code c in
      if n = 34 then [CHR 0x5C, CHR 0x22]
      else if n = 92 then [CHR 0x5C, CHR 0x5C]
      else if n = 8 then [CHR 0x5C, CHR ''b'']
      else if n = 12 then [CHR 0x5C, CHR ''f'']
      else if n = 10 then [CHR 0x5C, CHR ''n'']
      else if n = 13 then [CHR 0x5C, CHR ''r'']
      else if n = 9 then [CHR 0x5C, CHR ''t'']
      else if n < 32 then [CHR 0x5C, CHR ''u'', CHR ''0'', CHR ''0'', hex_char (n div 16), hex_char (n mod 16)]
      else [c])"

definition json_quote :: "string \<Rightarrow> string" where
  "json_quote s = CHR 0x22 # concat (map json_escape s) @ [CHR 0x22]"

text \<open>A line break and the indentation, when there is an indentation.\<close>

definition json_nl :: "nat \<Rightarrow> nat \<Rightarrow> string" where
  "json_nl gap depth = (if gap = 0 then [] else newline @ replicate (gap * depth) CHR '' '')"

definition json_colon :: "nat \<Rightarrow> string" where
  "json_colon gap = (if gap = 0 then '':'' else '': '')"

fun json_text :: "nat \<Rightarrow> nat \<Rightarrow> jsval \<Rightarrow> string"
  and json_items :: "nat \<Rightarrow> nat \<Rightarrow> jsval list \<Rightarrow> string"
  and json_members :: "nat \<Rightarrow> nat \<Rightarrow> (string \<times> jsval) list \<Rightarrow> string" where
  "json_text gap d (JStr s) = json_quote s"
| "json_text gap d (JArr []) = ''[]''"
| "json_text gap d (JArr (x # xs)) =
     ''['' @ json_nl gap (Suc d) @ json_text gap (Suc d) x @ json_items gap (Suc d) xs @ json_nl gap d @ '']''"
| "json_text gap d (JObj []) = ''{}''"
| "json_text gap d (JObj ((k, x) # kvs)) =
     ''{'' @ json_nl gap (Suc d) @ json_quote k @ json_colon gap @ json_text gap (Suc d) x @
       json_members gap (Suc d) kvs @ json_nl gap d @ ''}''"
| "json_text gap d v = to_str v"
| "json_items gap d [] = []"
| "json_items gap d (x # xs) = '','' @ json_nl gap d @ json_text gap d x @ json_items gap d xs"
| "json_members gap d [] = []"
| "json_members gap d ((k, x) # kvs) =
     '','' @ json_nl gap d @ json_quote k @ json_colon gap @ json_text gap d x @ json_members gap d kvs"

text \<open>\<open>JSON.stringify(v, null, gap)\<close>; \<open>None\<close> is the result \<open>undefined\<close>.\<close>

definition json_stringify :: "nat \<Rightarrow> jsval \<Rightarrow> string option" where
  "json_stringify gap v = map_option (json_text gap 0) (json_norm v)"

section \<open>Reading\<close>

definition is_json_space :: "char \<Rightarrow> bool" where
  "is_json_space c \<longleftrightarrow> code c = 32 \<or> code c = 9 \<or> code c = 10 \<or> code c = 13"

definition skip_ws :: "string \<Rightarrow> string" where
  "skip_ws s = dropWhile is_json_space s"

definition hex_value :: "char \<Rightarrow> nat option" where
  "hex_value c =
     (if is_digit c then Some (code c - 48)
      else if 97 \<le> code c \<and> code c \<le> 102 then Some (code c - 87)
      else if 65 \<le> code c \<and> code c \<le> 70 then Some (code c - 55) else None)"

definition simple_escape :: "char \<Rightarrow> char option" where
  "simple_escape e =
     map_of [(CHR 0x22, CHR 0x22), (CHR 0x5C, CHR 0x5C), (CHR ''/'', CHR ''/''), (CHR ''b'', char_of (8::nat)),
       (CHR ''f'', char_of (12::nat)), (CHR ''n'', char_of (10::nat)), (CHR ''r'', char_of (13::nat)),
       (CHR ''t'', char_of (9::nat))] e"

text \<open>The characters of a string after its opening quote.\<close>

fun parse_chars :: "string \<Rightarrow> (string \<times> string) option" where
  "parse_chars [] = None"
| "parse_chars (c # cs) =
     (if c = CHR 0x22 then Some ([], cs)
      else if c = CHR 0x5C then
        (case cs of
           [] \<Rightarrow> None
         | e # r \<Rightarrow>
             if e = CHR ''u'' then
               (case r of
                  a # b # x # y # r' \<Rightarrow>
                    (case (hex_value a, hex_value b, hex_value x, hex_value y) of
                       (Some 0, Some 0, Some h, Some l) \<Rightarrow>
                         map_option (apfst ((#) (char_of (16 * h + l)))) (parse_chars r')
                     | _ \<Rightarrow> None)
                | _ \<Rightarrow> None)
             else
               (case simple_escape e of
                  None \<Rightarrow> None
                | Some d \<Rightarrow> map_option (apfst ((#) d)) (parse_chars r)))
      else if code c < 32 then None
      else map_option (apfst ((#) c)) (parse_chars cs))"

definition sign_of :: "bool \<Rightarrow> nat \<Rightarrow> int" where
  "sign_of neg n = (if neg then - int n else int n)"

text \<open>The value of a number with the decimal exponent \<open>x\<close>.\<close>

definition scaled_number :: "int \<Rightarrow> nat \<Rightarrow> int \<Rightarrow> jsval" where
  "scaled_number m e x =
     (if int e \<le> x then JInt (m * 10 ^ nat (x - int e)) else mk_dec m (nat (int e - x)))"

text \<open>The exponent part, if any; \<open>None\<close> when it has no digits.\<close>

definition parse_exponent :: "string \<Rightarrow> (int \<times> string) option" where
  "parse_exponent s =
     (case s of
        c # r \<Rightarrow>
          if c = CHR ''e'' \<or> c = CHR ''E'' then
            (let neg = (r \<noteq> [] \<and> hd r = CHR ''-'');
                 r1 = (if r \<noteq> [] \<and> (hd r = CHR ''-'' \<or> hd r = CHR ''+'') then tl r else r);
                 ds = takeWhile is_digit r1 in
             if ds = [] then None
             else Some (sign_of neg (digits_value 0 ds), dropWhile is_digit r1))
          else Some (0, s)
      | [] \<Rightarrow> Some (0, []))"

text \<open>The rest of a number whose integer part is \<open>ip\<close>.\<close>

definition parse_fraction :: "bool \<Rightarrow> string \<Rightarrow> string \<Rightarrow> (jsval \<times> string) option" where
  "parse_fraction neg ip r =
     (let point = (r \<noteq> [] \<and> hd r = CHR ''.'');
          fp = (if point then takeWhile is_digit (tl r) else []);
          r2 = (if point then dropWhile is_digit (tl r) else r) in
      if point \<and> fp = [] then None
      else (case parse_exponent r2 of
              None \<Rightarrow> None
            | Some (x, r3) \<Rightarrow>
                Some (scaled_number (sign_of neg (digits_value 0 (ip @ fp))) (length fp) x, r3)))"

text \<open>A number: no leading zero, at least one digit on either side of the point.\<close>

definition parse_number :: "string \<Rightarrow> (jsval \<times> string) option" where
  "parse_number s0 =
     (let neg = (s0 \<noteq> [] \<and> hd s0 = CHR ''-'');
          s = (if neg then tl s0 else s0);
          ip = takeWhile is_digit s; r = dropWhile is_digit s in
      if ip = [] \<or> (hd ip = CHR ''0'' \<and> tl ip \<noteq> []) then None else parse_fraction neg ip r)"

text \<open>
  One value. Every second call passes at least one character, so twice the length of the text
  is enough fuel.
\<close>

fun parse_value :: "nat \<Rightarrow> string \<Rightarrow> (jsval \<times> string) option"
  and parse_items :: "nat \<Rightarrow> string \<Rightarrow> (jsval list \<times> string) option"
  and parse_members :: "nat \<Rightarrow> string \<Rightarrow> ((string \<times> jsval) list \<times> string) option" where
  "parse_value 0 s = None"
| "parse_value (Suc n) s =
     (case skip_ws s of
        [] \<Rightarrow> None
      | c # cs \<Rightarrow>
          if c = CHR 0x22 then map_option (apfst JStr) (parse_chars cs)
          else if c = CHR ''['' then
            (case skip_ws cs of
               [] \<Rightarrow> None
             | d # ds \<Rightarrow>
                 if d = CHR '']'' then Some (JArr [], ds)
                 else (case parse_value n (d # ds) of
                         None \<Rightarrow> None
                       | Some (v, r) \<Rightarrow> map_option (apfst (\<lambda>vs. JArr (v # vs))) (parse_items n r)))
          else if c = CHR ''{'' then
            (case skip_ws cs of
               [] \<Rightarrow> None
             | d # ds \<Rightarrow>
                 if d = CHR ''}'' then Some (JObj [], ds)
                 else map_option (apfst (\<lambda>kvs. JObj (fold (\<lambda>(k, v) m. fields_set k v m) kvs [])))
                        (parse_members n ('','' @ d # ds)))
          else if starts_with (c # cs) ''true'' then Some (JBool True, drop 4 (c # cs))
          else if starts_with (c # cs) ''false'' then Some (JBool False, drop 5 (c # cs))
          else if starts_with (c # cs) ''null'' then Some (JNull, drop 4 (c # cs))
          else parse_number (c # cs))"
| "parse_items 0 s = None"
| "parse_items (Suc n) s =
     (case skip_ws s of
        [] \<Rightarrow> None
      | c # cs \<Rightarrow>
          if c = CHR '']'' then Some ([], cs)
          else if c = CHR '','' then
            (case parse_value n cs of
               None \<Rightarrow> None
             | Some (v, r) \<Rightarrow> map_option (apfst ((#) v)) (parse_items n r))
          else None)"
| "parse_members 0 s = None"
| "parse_members (Suc n) s =
     (case skip_ws s of
        [] \<Rightarrow> None
      | c # cs \<Rightarrow>
          if c = CHR ''}'' then Some ([], cs)
          else if c = CHR '','' then
            (case skip_ws cs of
               [] \<Rightarrow> None
             | q # qs \<Rightarrow>
                 if q \<noteq> CHR 0x22 then None
                 else (case parse_chars qs of
                         None \<Rightarrow> None
                       | Some (k, r) \<Rightarrow>
                           (case skip_ws r of
                              [] \<Rightarrow> None
                            | col # r' \<Rightarrow>
                                if col \<noteq> CHR '':'' then None
                                else (case parse_value n r' of
                                        None \<Rightarrow> None
                                      | Some (v, r2) \<Rightarrow> map_option (apfst ((#) (k, v))) (parse_members n r2)))))
          else None)"

definition json_parse :: "string \<Rightarrow> jsval option" where
  "json_parse s =
     (case parse_value (2 * length s + 2) s of
        Some (v, r) \<Rightarrow> if skip_ws r = [] then Some v else None
      | None \<Rightarrow> None)"

section \<open>The round trip\<close>

fun json_wf :: "jsval \<Rightarrow> bool" where
  "json_wf JUndef = False"
| "json_wf (JInf p) = False"
| "json_wf JNaN = False"
| "json_wf (JDec m e) = (0 < e \<and> m mod 10 \<noteq> 0)"
| "json_wf (JArr xs) = list_all json_wf xs"
| "json_wf (JObj kvs) = (distinct (map fst kvs) \<and> list_all (\<lambda>kv. json_wf (snd kv)) kvs)"
| "json_wf v = True"

text \<open>What may follow a number.\<close>

definition num_end :: "string \<Rightarrow> bool" where
  "num_end r \<longleftrightarrow> r = [] \<or> \<not> is_digit (hd r) \<and> hd r \<notin> {CHR ''.'', CHR ''e'', CHR ''E''}"

lemma hex_round: "n < 16 \<Longrightarrow> hex_value (hex_char n) = Some n"
  by (auto simp: hex_value_def hex_char_def is_digit_def code_def of_char_of)

lemma simple_escapes:
  "simple_escape (CHR 0x22) = Some (CHR 0x22)" "simple_escape (CHR 0x5C) = Some (CHR 0x5C)"
  "simple_escape (CHR ''b'') = Some (char_of (8::nat))" "simple_escape (CHR ''f'') = Some (char_of (12::nat))"
  "simple_escape (CHR ''n'') = Some (char_of (10::nat))" "simple_escape (CHR ''r'') = Some (char_of (13::nat))"
  "simple_escape (CHR ''t'') = Some (char_of (9::nat))"
  by (simp_all add: simple_escape_def)

lemma char_codes:
  "char_of (34::nat) = CHR 0x22" "char_of (92::nat) = CHR 0x5C" "char_of (48::nat) = CHR ''0''"
  "char_of (10::nat) = CHR 0x0A"
  by code_simp+

lemma code_inject: "code c = n \<Longrightarrow> c = char_of n"
  by (auto simp: code_def)

lemma code_quote: "c = CHR 0x22 \<longleftrightarrow> code c = 34" "c = CHR 0x5C \<longleftrightarrow> code c = 92"
  using code_inject[of c 34] code_inject[of c 92] by (auto simp: char_codes code_def)

lemma hex_zero: "hex_value (CHR ''0'') = Some 0"
  by (simp add: hex_value_def is_digit_def code_def)

lemma parse_escape: "parse_chars (json_escape c @ r) = map_option (apfst ((#) c)) (parse_chars r)"
proof -
  consider "code c \<in> {34, 92, 8, 12, 10, 13, 9}" | "code c \<notin> {34, 92, 8, 12, 10, 13, 9}" "code c < 32"
    | "code c \<noteq> 34" "code c \<noteq> 92" "\<not> code c < 32" by auto
  then show ?thesis
  proof cases
    case 1
    then show ?thesis
      by (auto simp: json_escape_def Let_def simple_escapes char_codes code_def dest!: code_inject[unfolded code_def])
  next
    case 2
    then show ?thesis
      by (simp add: json_escape_def Let_def hex_zero hex_round code_inject [OF refl, symmetric] mult.commute)
  next
    case 3
    then show ?thesis
      by (simp add: json_escape_def Let_def code_quote)
  qed
qed

lemma parse_chars_quote: "parse_chars (concat (map json_escape s) @ CHR 0x22 # r) = Some (s, r)"
  by (induction s) (simp_all add: parse_escape)

lemma is_json_space_simps [simp]:
  "\<not> is_json_space (CHR 0x22)" "\<not> is_json_space (CHR '','')" "\<not> is_json_space (CHR '']'')"
  "\<not> is_json_space (CHR ''}'')" "\<not> is_json_space (CHR ''['')" "\<not> is_json_space (CHR ''{'')"
  "\<not> is_json_space (CHR '':'')" "is_json_space (CHR '' '')"
  by (simp_all add: is_json_space_def code_def)

lemma skip_ws_Cons [simp]: "\<not> is_json_space c \<Longrightarrow> skip_ws (c # s) = c # s"
  by (simp add: skip_ws_def)

lemma skip_ws_nl [simp]: "skip_ws (json_nl g d @ s) = skip_ws s"
proof -
  have "is_json_space (char_of (10::nat))" by (simp add: is_json_space_def code_def)
  moreover have "dropWhile is_json_space (replicate n (CHR '' '') @ s) = dropWhile is_json_space s" for n
    by (induction n) auto
  ultimately show ?thesis
    by (simp add: skip_ws_def json_nl_def newline_def)
qed

lemma skip_ws_idem [simp]: "skip_ws (skip_ws s) = skip_ws s"
  by (simp add: skip_ws_def dropWhile_idem)

lemma parse_value_skip: "parse_value n (skip_ws s) = parse_value n s"
  by (cases n) simp_all

text \<open>Digits.\<close>

lemma digit_char_props: "d < 10 \<Longrightarrow> is_digit (digit_char d) \<and> code (digit_char d) = 48 + d"
  by (simp add: is_digit_def digit_char_def code_def of_char_of)

lemma nat_digits_digits: "list_all is_digit (nat_digits n)"
proof (induction n rule: nat_digits.induct)
  case (1 n)
  then show ?case by (subst nat_digits.simps) (simp add: digit_char_props)
qed

lemma digits_value_append: "digits_value acc (xs @ ys) = digits_value (digits_value acc xs) ys"
  by (induction xs arbitrary: acc) simp_all

lemma digits_value_nat_digits: "digits_value 0 (nat_digits n) = n"
proof (induction n rule: nat_digits.induct)
  case (1 n)
  show ?case
  proof (cases "n < 10")
    case True
    then show ?thesis by (subst nat_digits.simps) (simp add: digit_char_props)
  next
    case False
    then show ?thesis
      using 1 by (subst nat_digits.simps) (simp add: digits_value_append digit_char_props)
  qed
qed

lemma nat_digits_lead: "nat_digits n \<noteq> [] \<and> (hd (nat_digits n) = CHR ''0'' \<longrightarrow> n = 0)"
proof (induction n rule: nat_digits.induct)
  case (1 n)
  have z: "d < 10 \<Longrightarrow> digit_char d = CHR ''0'' \<Longrightarrow> d = 0" for d
    using digit_char_props[of d] by (auto simp: code_def)
  show ?case
  proof (cases "n < 10")
    case True
    then show ?thesis using z by (subst (1 2) nat_digits.simps) simp
  next
    case False
    then show ?thesis using 1 by (subst (1 2) nat_digits.simps) auto
  qed
qed

lemma nat_digits_0: "nat_digits 0 = ''0''"
  by (simp add: nat_digits.simps digit_char_def char_codes)

lemma nat_digits_single: "hd (nat_digits n) = CHR ''0'' \<Longrightarrow> tl (nat_digits n) = []"
  using nat_digits_lead[of n] by (simp add: nat_digits_0)

lemma nat_digits_length: "0 < e \<Longrightarrow> n < 10 ^ e \<Longrightarrow> length (nat_digits n) \<le> e"
proof (induction n arbitrary: e rule: nat_digits.induct)
  case (1 n)
  show ?case
  proof (cases "n < 10")
    case True
    then show ?thesis using 1 by (subst nat_digits.simps) simp
  next
    case False
    then have "e \<noteq> 1" using 1(3) by auto
    then obtain e' where e: "e = Suc e'" "0 < e'" using 1(2) by (cases e) auto
    then have "n div 10 < 10 ^ e'" using 1(3) by (simp add: less_mult_imp_div_less)
    then show ?thesis using 1(1)[of e'] False e by (subst nat_digits.simps) simp
  qed
qed

lemma takeWhile_digits:
  assumes "list_all is_digit xs" "num_end r \<or> (r \<noteq> [] \<and> \<not> is_digit (hd r))"
  shows "takeWhile is_digit (xs @ r) = xs" "dropWhile is_digit (xs @ r) = r"
  using assms by (induction xs) (cases r; auto simp: num_end_def)+

lemma zeros_digits: "list_all is_digit (zeros n)" "length (zeros n) = n" "digits_value 0 (zeros n) = 0"
  by (induction n) (simp_all add: is_digit_def code_def)

lemma not_digit_marks [simp]: "\<not> is_digit (CHR ''.'')" "\<not> is_digit (CHR ''-'')"
  by (simp_all add: is_digit_def code_def)

lemma parse_exponent_end: "num_end r \<Longrightarrow> parse_exponent r = Some (0, r)"
  by (cases r) (auto simp: parse_exponent_def num_end_def)

lemma nat_digits_hd: "hd (nat_digits n @ r) \<noteq> CHR ''-''"
  using nat_digits_digits[of n] nat_digits_lead[of n] by (cases "nat_digits n") (auto simp: is_digit_def code_def)

lemma mk_dec_id: "0 < e \<Longrightarrow> m mod 10 \<noteq> 0 \<Longrightarrow> mk_dec m e = JDec m e"
  by (cases e) simp_all

definition signed_text :: "bool \<Rightarrow> string \<Rightarrow> string" where
  "signed_text neg s = (if neg then ''-'' else []) @ s"

lemma parse_number_signed:
  assumes "ip \<noteq> []" "list_all is_digit ip" "hd ip = CHR ''0'' \<longrightarrow> tl ip = []" "r = [] \<or> \<not> is_digit (hd r)"
  shows "parse_number (signed_text neg ip @ r) = parse_fraction neg ip r"
proof -
  have tw: "takeWhile is_digit (ip @ r) = ip" "dropWhile is_digit (ip @ r) = r"
    using assms(2,4) by (auto simp: takeWhile_digits num_end_def)
       (cases r; simp add: takeWhile_append list_all_iff dropWhile_append)+
  have "hd (ip @ r) \<noteq> CHR ''-''" using assms(1,2) by (cases ip) auto
  then show ?thesis
    using assms(1,3) tw by (cases neg) (auto simp: parse_number_def signed_text_def)
qed

lemma parse_number_int:
  assumes "num_end r"
  shows "parse_number (signed_text neg (nat_digits n) @ r) = Some (JInt (sign_of neg n), r)"
proof -
  have "parse_number (signed_text neg (nat_digits n) @ r) = parse_fraction neg (nat_digits n) r"
    using assms nat_digits_lead nat_digits_single nat_digits_digits
    by (intro parse_number_signed) (auto simp: num_end_def)
  moreover have "\<not> (r \<noteq> [] \<and> hd r = CHR ''.'')" using assms by (auto simp: num_end_def)
  ultimately show ?thesis
    using assms by (simp add: parse_fraction_def parse_exponent_end scaled_number_def digits_value_nat_digits)
qed

lemma digits_value_shift: "digits_value k xs = k * 10 ^ length xs + digits_value 0 xs"
proof (induction xs arbitrary: k)
  case (Cons c cs)
  define n where "n = code c - 48"
  have "digits_value (10 * k + n) cs = (10 * k + n) * 10 ^ length cs + digits_value 0 cs"
    and "digits_value n cs = n * 10 ^ length cs + digits_value 0 cs" by (rule Cons)+
  then show ?case by (simp add: n_def[symmetric] algebra_simps)
qed simp

definition fraction_digits :: "nat \<Rightarrow> nat \<Rightarrow> string" where
  "fraction_digits a e = zeros (e - length (nat_digits (a mod 10 ^ e))) @ nat_digits (a mod 10 ^ e)"

lemma fraction_digits:
  assumes "0 < e"
  shows "length (fraction_digits a e) = e" "list_all is_digit (fraction_digits a e)"
    "digits_value 0 (nat_digits (a div 10 ^ e) @ fraction_digits a e) = a"
proof -
  have "length (nat_digits (a mod 10 ^ e)) \<le> e" using assms by (intro nat_digits_length) auto
  then show l: "length (fraction_digits a e) = e" by (simp add: fraction_digits_def zeros_digits)
  show "list_all is_digit (fraction_digits a e)"
    by (simp add: fraction_digits_def zeros_digits nat_digits_digits)
  have "digits_value 0 (fraction_digits a e) = a mod 10 ^ e"
    by (simp add: fraction_digits_def digits_value_append zeros_digits digits_value_nat_digits)
  then show "digits_value 0 (nat_digits (a div 10 ^ e) @ fraction_digits a e) = a"
    using l by (simp add: digits_value_append digits_value_nat_digits digits_value_shift[of "a div 10 ^ e"] div_mult_mod_eq)
qed

lemma parse_number_dec:
  assumes "num_end r" "0 < e" "sign_of neg a mod 10 \<noteq> 0"
  shows "parse_number (signed_text neg (nat_digits (a div 10 ^ e) @ ''.'' @ fraction_digits a e) @ r) =
    Some (JDec (sign_of neg a) e, r)"
proof -
  let ?ip = "nat_digits (a div 10 ^ e)" let ?fp = "fraction_digits a e"
  have "parse_number (signed_text neg ?ip @ (CHR ''.'' # ?fp @ r)) = parse_fraction neg ?ip (CHR ''.'' # ?fp @ r)"
    using nat_digits_lead nat_digits_single nat_digits_digits by (intro parse_number_signed) auto
  moreover have "takeWhile is_digit (?fp @ r) = ?fp" "dropWhile is_digit (?fp @ r) = r"
    using takeWhile_digits[of ?fp r] assms fraction_digits by blast+
  moreover have "?fp \<noteq> []" using fraction_digits(1)[OF assms(2), of a] assms(2) by auto
  ultimately show ?thesis
    using assms fraction_digits[OF assms(2), of a]
    by (simp add: signed_text_def parse_fraction_def parse_exponent_end scaled_number_def mk_dec_id)
qed

text \<open>The first character of a text.\<close>

definition value_head :: "string \<Rightarrow> bool" where
  "value_head s \<longleftrightarrow> s \<noteq> [] \<and> \<not> is_json_space (hd s) \<and> hd s \<noteq> CHR '']''"

lemma digit_head: "is_digit c \<Longrightarrow> \<not> is_json_space c \<and> c \<noteq> CHR '']'' \<and> c \<noteq> CHR 0x22 \<and> c \<noteq> CHR ''['' \<and>
    c \<noteq> CHR ''{'' \<and> c \<noteq> CHR ''t'' \<and> c \<noteq> CHR ''f'' \<and> c \<noteq> CHR ''n''"
  by (auto simp: is_digit_def is_json_space_def code_def)

lemma int_digits_signed: "int_digits i = signed_text (i < 0) (nat_digits (nat \<bar>i\<bar>))"
  by (simp add: int_digits_def signed_text_def)

lemma sign_of_abs: "sign_of (i < 0) (nat \<bar>i\<bar>) = i"
  by (simp add: sign_of_def)

lemma dec_digits_signed:
  "dec_digits m e = signed_text (m < 0) (nat_digits (nat \<bar>m\<bar> div 10 ^ e) @ ''.'' @ fraction_digits (nat \<bar>m\<bar>) e)"
  by (simp add: dec_digits_def signed_text_def fraction_digits_def Let_def)

lemma signed_digits_head: "\<exists>c t. signed_text neg (nat_digits n @ r) = c # t \<and> (is_digit c \<or> c = CHR ''-'')"
  using nat_digits_lead[of n] nat_digits_digits[of n]
  by (cases neg; cases "nat_digits n") (auto simp: signed_text_def)

text \<open>A number is read by \<open>parse_number\<close>.\<close>

lemma parse_value_number:
  assumes "is_digit c \<or> c = CHR ''-''"
  shows "parse_value (Suc n) (c # s) = parse_number (c # s)"
proof -
  have "\<not> is_json_space c \<and> c \<noteq> CHR 0x22 \<and> c \<noteq> CHR ''['' \<and> c \<noteq> CHR ''{'' \<and>
      c \<noteq> CHR ''t'' \<and> c \<noteq> CHR ''f'' \<and> c \<noteq> CHR ''n''"
    using assms digit_head by (auto simp: is_json_space_def code_def)
  then show ?thesis by (simp add: starts_with_def)
qed

lemma json_text_head: "json_wf v \<Longrightarrow> value_head (json_text g d v @ s)"
proof (cases v)
  case (JInt i)
  then show ?thesis
    using signed_digits_head[of "i < 0" "nat \<bar>i\<bar>" "[]"] digit_head
    by (auto simp: value_head_def int_digits_signed is_json_space_def code_def)
next
  case (JDec m e)
  then show ?thesis
    using signed_digits_head[of "m < 0" "nat \<bar>m\<bar> div 10 ^ e" "''.'' @ fraction_digits (nat \<bar>m\<bar>) e"] digit_head
    by (auto simp: value_head_def dec_digits_signed is_json_space_def code_def)
next
  case (JArr xs)
  then show ?thesis by (cases xs) (auto simp: value_head_def)
next
  case (JObj kvs)
  then show ?thesis by (cases kvs) (auto simp: value_head_def)
qed (auto simp: value_head_def json_quote_def is_json_space_def code_def)

lemma fold_fields_set:
  "distinct (map fst (m @ kvs)) \<Longrightarrow> fold (\<lambda>(k, v) m. fields_set k v m) kvs m = m @ kvs"
proof (induction kvs arbitrary: m)
  case (Cons kv kvs)
  have "k \<notin> fst ` set m \<Longrightarrow> fields_set k v m = m @ [(k, v)]" for k v
    by (induction m) auto
  then show ?case using Cons by (cases kv) auto
qed simp

lemma num_end_marks [simp]: "num_end (json_nl g d @ CHR '']'' # r)" "num_end (json_nl g d @ CHR ''}'' # r)"
  "num_end (CHR '','' # r)" "num_end []"
  by (auto simp: num_end_def json_nl_def newline_def char_codes is_digit_def code_def)

lemma num_end_items [simp]: "num_end r \<Longrightarrow> num_end (json_items g d xs @ r)"
  by (cases xs) auto

lemma num_end_members [simp]: "num_end r \<Longrightarrow> num_end (json_members g d kvs @ r)"
  by (cases kvs) auto

lemma parse_value_array:
  assumes "parse_value n (json_text g d x @ s) = Some (x, s)" "json_wf x" "parse_items n s = Some (xs, r)"
  shows "parse_value (Suc n) (''['' @ json_nl g d @ json_text g d x @ s) = Some (JArr (x # xs), r)"
proof -
  obtain c t where c: "json_text g d x @ s = c # t" "\<not> is_json_space c" "c \<noteq> CHR '']''"
    using json_text_head[OF assms(2), of g d s] by (cases "json_text g d x @ s") (auto simp: value_head_def)
  then show ?thesis using assms(1,3) by simp
qed

lemma parse_value_object:
  assumes "parse_members n ('','' @ json_quote k @ s) = Some (kvs, r)" "distinct (map fst kvs)"
  shows "parse_value (Suc n) (''{'' @ json_nl g d @ json_quote k @ s) = Some (JObj kvs, r)"
proof -
  obtain q where "json_quote k @ s = CHR 0x22 # q" by (simp add: json_quote_def)
  moreover have "fold (\<lambda>(k, v) m. fields_set k v m) kvs [] = kvs" using fold_fields_set[of "[]"] assms(2) by simp
  ultimately show ?thesis using assms(1) by simp
qed

lemma parse_items_Cons:
  assumes "parse_value n (json_text g d x @ s) = Some (x, s)" "parse_items n s = Some (xs, r)"
  shows "parse_items (Suc n) ('','' @ json_nl g d @ json_text g d x @ s) = Some (x # xs, r)"
proof -
  have "parse_value n (json_nl g d @ json_text g d x @ s) = parse_value n (json_text g d x @ s)"
    by (metis parse_value_skip skip_ws_nl)
  then show ?thesis using assms by simp
qed

lemma parse_members_Cons:
  assumes "\<And>t. skip_ws (w @ t) = skip_ws t" and "parse_value n (json_text g d x @ s) = Some (x, s)" "parse_members n s = Some (kvs, r)"
  shows "parse_members (Suc n) ('','' @ w @ json_quote k @ json_colon g @ json_text g d x @ s) =
    Some ((k, x) # kvs, r)"
proof -
  let ?v = "json_text g d x @ s"
  have q: "json_quote k @ t = CHR 0x22 # concat (map json_escape k) @ CHR 0x22 # t" for t
    by (simp add: json_quote_def)
  have "parse_value n (CHR '' '' # ?v) = parse_value n ?v"
    by (metis append_Cons append_Nil is_json_space_simps(8) parse_value_skip skip_ws_def dropWhile.simps(2))
  then have "\<exists>w. json_colon g @ ?v = CHR '':'' # w \<and> parse_value n w = parse_value n ?v"
    by (simp add: json_colon_def)
  then obtain u where u: "json_colon g @ ?v = CHR '':'' # u" "parse_value n u = Some (x, s)"
    using assms(2) by auto
  show ?thesis using u(2) assms(3) by (simp add: assms(1) q u(1) parse_chars_quote)
qed

lemma parse_text:
  "json_wf v \<Longrightarrow> num_end r \<Longrightarrow> 2 * length (json_text g d v) \<le> n \<Longrightarrow>
    parse_value n (json_text g d v @ r) = Some (v, r)"
  "list_all json_wf vs \<Longrightarrow> 2 * length (json_items g d vs) + 1 \<le> n \<Longrightarrow>
    parse_items n (json_items g d vs @ json_nl g (d - 1) @ CHR '']'' # r) = Some (vs, r)"
  "list_all (\<lambda>kv. json_wf (snd kv)) kvs \<Longrightarrow> 2 * length (json_members g d kvs) + 1 \<le> n \<Longrightarrow>
    parse_members n (json_members g d kvs @ json_nl g (d - 1) @ CHR ''}'' # r) = Some (kvs, r)"
proof (induction g d v and g d vs and g d kvs arbitrary: n r and n r and n r
    rule: json_text_json_items_json_members.induct[case_names str arr_nil arr obj_nil obj undef null bool int dec inf nan
      items_nil items members_nil members])
  case (str gap d s)
  then obtain k where "n = Suc k" by (cases n) (auto simp: json_quote_def)
  then show ?case by (simp add: json_quote_def parse_chars_quote)
next
  case (arr_nil gap d)
  then obtain k where "n = Suc k" by (cases n) auto
  then show ?case by simp
next
  case (arr gap d x xs)
  then obtain k where n: "n = Suc k" by (cases n) auto
  let ?s = "json_items gap (Suc d) xs @ json_nl gap d @ CHR '']'' # r"
  have "parse_value k (json_text gap (Suc d) x @ ?s) = Some (x, ?s)"
    using arr.prems n by (intro arr.IH(1)) auto
  moreover have "parse_items k ?s = Some (xs, r)"
    using arr.prems n arr.IH(2)[of k r] by auto
  ultimately show ?case
    using parse_value_array[of k gap "Suc d" x ?s xs r] arr.prems n by simp
next
  case (obj_nil gap d)
  then obtain k where "n = Suc k" by (cases n) auto
  then show ?case by simp
next
  case (obj gap d k x kvs)
  then obtain m where n: "n = Suc m" by (cases n) auto
  then obtain p where m: "m = Suc p" using obj.prems by (cases m) auto
  let ?s = "json_members gap (Suc d) kvs @ json_nl gap d @ CHR ''}'' # r"
  have "parse_value p (json_text gap (Suc d) x @ ?s) = Some (x, ?s)"
    using obj.prems n m by (intro obj.IH(1)) (auto simp: json_quote_def)
  moreover have "parse_members p ?s = Some (kvs, r)"
    using obj.prems n m obj.IH(2)[of p r] by (auto simp: json_quote_def)
  ultimately have "parse_members m ('','' @ [] @ json_quote k @ json_colon gap @
      json_text gap (Suc d) x @ ?s) = Some ((k, x) # kvs, r)"
    unfolding m by (intro parse_members_Cons) simp
  then show ?case
    using parse_value_object[of m k "json_colon gap @ json_text gap (Suc d) x @ ?s" "(k, x) # kvs" r gap "Suc d"]
      obj.prems n by simp
next
  case (null gap d)
  then obtain k where "n = Suc k" by (cases n) auto
  then show ?case by (simp add: starts_with_def is_json_space_def code_def)
next
  case (bool gap d b)
  then obtain k where "n = Suc k" by (cases n; cases b) auto
  then show ?case by (cases b) (simp_all add: starts_with_def is_json_space_def code_def)
next
  case (int gap d i)
  obtain c t where c: "signed_text (i < 0) (nat_digits (nat \<bar>i\<bar>)) = c # t" "is_digit c \<or> c = CHR ''-''"
    using signed_digits_head[of "i < 0" "nat \<bar>i\<bar>" "[]"] by auto
  obtain k where k: "n = Suc k" using int.prems c(1) by (cases n) (auto simp: int_digits_signed)
  have "parse_number (c # t @ r) = Some (JInt i, r)"
    using parse_number_int[OF int.prems(2), of "i < 0" "nat \<bar>i\<bar>"] by (simp add: c(1) sign_of_abs)
  then show ?case using parse_value_number[OF c(2)] k by (simp add: int_digits_signed c(1) del: parse_value.simps)
next
  case (dec gap d m e)
  obtain c t where c: "dec_digits m e = c # t" "is_digit c \<or> c = CHR ''-''"
    using signed_digits_head[of "m < 0" "nat \<bar>m\<bar> div 10 ^ e" "''.'' @ fraction_digits (nat \<bar>m\<bar>) e"]
    by (auto simp: dec_digits_signed)
  obtain k where k: "n = Suc k" using dec.prems c(1) by (cases n) auto
  have "parse_number (c # t @ r) = Some (JDec m e, r)"
    using parse_number_dec[OF dec.prems(2), of e "m < 0" "nat \<bar>m\<bar>"] dec.prems(1) c(1)
    by (simp add: dec_digits_signed sign_of_abs)
  then show ?case using parse_value_number[OF c(2)] k by (simp add: c(1) del: parse_value.simps)
next
  case (items_nil gap d)
  then obtain k where "n = Suc k" by (cases n) auto
  then show ?case by simp
next
  case (items gap d x xs)
  then obtain k where n: "n = Suc k" by (cases n) auto
  let ?s = "json_items gap d xs @ json_nl gap (d - 1) @ CHR '']'' # r"
  have "parse_value k (json_text gap d x @ ?s) = Some (x, ?s)"
    using items.prems n by (intro items.IH(1)) auto
  moreover have "parse_items k ?s = Some (xs, r)"
    using items.prems n by (intro items.IH(2)) auto
  ultimately show ?case using parse_items_Cons[of k gap d x ?s xs r] n by simp
next
  case (members_nil gap d)
  then obtain k where "n = Suc k" by (cases n) auto
  then show ?case by simp
next
  case (members gap d k x kvs)
  then obtain m where n: "n = Suc m" by (cases n) auto
  let ?s = "json_members gap d kvs @ json_nl gap (d - 1) @ CHR ''}'' # r"
  have "parse_value m (json_text gap d x @ ?s) = Some (x, ?s)"
    using members.prems n by (intro members.IH(1)) (auto simp: json_quote_def)
  moreover have "parse_members m ?s = Some (kvs, r)"
    using members.prems n by (intro members.IH(2)) (auto simp: json_quote_def)
  ultimately show ?case
    using parse_members_Cons[of "json_nl gap d" m gap d x ?s kvs r k] n by simp
qed simp_all

lemma json_parse_text:
  assumes "json_wf v" "skip_ws r = []"
  shows "json_parse (json_text gap 0 v @ r) = Some v"
proof -
  have "r = [] \<or> is_json_space (hd r)" using assms(2) by (cases r) (auto simp: skip_ws_def split: if_splits)
  then have "num_end r" by (auto simp: num_end_def is_json_space_def is_digit_def code_def)
  then show ?thesis using parse_text(1)[OF assms(1)] assms(2) by (simp add: json_parse_def del: parse_value.simps)
qed

declare parse_value.simps [simp del] parse_items.simps [simp del] parse_members.simps [simp del]

text \<open>Reading back what was written, with or without a final line break.\<close>

lemma json_stringify_parse:
  assumes "json_stringify gap v = Some t" "json_norm v = Some w" "json_wf w"
  shows "json_parse t = Some w" "json_parse (t @ newline) = Some w"
  using assms json_parse_text[OF assms(3), of "[]"] json_parse_text[OF assms(3), of newline]
  by (auto simp: json_stringify_def skip_ws_def newline_def char_codes is_json_space_def code_def)

text \<open>What a text parses to is well formed.\<close>

lemma mk_dec_wf: "json_wf (mk_dec m e)"
  by (induction m e rule: mk_dec.induct) auto

lemma parse_number_wf: "parse_number s = Some (v, r) \<Longrightarrow> json_wf v"
  by (auto simp: parse_number_def parse_fraction_def scaled_number_def Let_def mk_dec_wf split: if_splits option.splits)

lemma fields_set_members:
  "set (fields_set k v m) \<subseteq> insert (k, v) (set m)" "fst ` set (fields_set k v m) = insert k (fst ` set m)"
proof (induction m)
  case (Cons kv m)
  { case 1 then show ?case using Cons by (cases kv) auto }
  { case 2 then show ?case using Cons by (cases kv) auto }
qed simp_all

lemma set_fields_distinct: "distinct (map fst m) \<Longrightarrow> distinct (map fst (fields_set k v m))"
proof (induction m)
  case (Cons kv m)
  have "set (map fst (fields_set k v m)) = insert k (set (map fst m))" using fields_set_members(2)[of k v m] by simp
  then show ?case using Cons by (cases kv) (auto simp del: set_map)
qed simp

lemma fields_set_wf: "json_wf (JObj m) \<Longrightarrow> json_wf v \<Longrightarrow> json_wf (JObj (fields_set k v m))"
  using fields_set_members(1)[of k v m] by (auto simp: set_fields_distinct list_all_iff)

lemma fold_fields_set_wf:
  "json_wf (JObj m) \<Longrightarrow> list_all (\<lambda>kv. json_wf (snd kv)) kvs \<Longrightarrow>
     json_wf (JObj (fold (\<lambda>(k, v) m. fields_set k v m) kvs m))"
proof (induction kvs arbitrary: m)
  case (Cons kv kvs)
  then show ?case using fields_set_wf[of m "snd kv" "fst kv"] by (cases kv) (simp del: json_wf.simps)
qed simp

lemma parse_wf:
  "parse_value n s = Some (v, r) \<Longrightarrow> json_wf v"
  "parse_items n s = Some (vs, r) \<Longrightarrow> list_all json_wf vs"
  "parse_members n s = Some (kvs, r) \<Longrightarrow> list_all (\<lambda>kv. json_wf (snd kv)) kvs"
proof (induction n s and n s and n s arbitrary: v r and vs r and kvs r rule: parse_value_parse_items_parse_members.induct)
  case (2 n s)
  have ob: "json_wf (JObj (fold (\<lambda>(k, v) m. fields_set k v m) kvs []))" if "list_all (\<lambda>kv. json_wf (snd kv)) kvs" for kvs
    using that by (intro fold_fields_set_wf) simp_all
  have "json_wf (JObj [])" by simp
  then show ?case
    using 2 ob parse_number_wf
    by (auto simp: parse_value.simps simp del: json_wf.simps(6) split: list.splits if_splits option.splits)
next
  case (4 n s)
  then show ?case by (auto simp: parse_items.simps split: list.splits if_splits option.splits)
next
  case (6 n s)
  then show ?case by (auto simp: parse_members.simps split: list.splits if_splits option.splits)
qed (simp_all add: parse_value.simps parse_items.simps parse_members.simps)

lemma json_parse_wf: "json_parse s = Some v \<Longrightarrow> json_wf v"
  by (auto simp: json_parse_def dest: parse_wf(1) split: option.splits if_splits)

lemma json_wf_norm:
  "json_wf v \<Longrightarrow> json_norm v = Some v" "list_all json_wf vs \<Longrightarrow> json_norm_list vs = vs"
  "list_all (\<lambda>kv. json_wf (snd kv)) kvs \<Longrightarrow> json_norm_fields kvs = kvs"
  by (induction v and vs and kvs rule: json_norm_json_norm_list_json_norm_fields.induct) auto

end
