(* ===== verification/Files.thy ===== *)
theory Files
  imports Paths JsJson
begin

text \<open>
  The files a script sees: a map from absolute paths to nodes. The functions below are the
  calls of \<open>node:fs\<close> the design hook makes; \<open>None\<close> is the exception. Directories come into
  being with \<open>mkdirSync\<close> and are only kept where a script asks whether a path is one.
\<close>

datatype fnode = File string | Dir

type_synonym fs = "string \<Rightarrow> fnode option"

definition existsSync :: "fs \<Rightarrow> string \<Rightarrow> bool" where
  "existsSync fs p \<longleftrightarrow> fs p \<noteq> None"

definition readFileSync :: "fs \<Rightarrow> string \<Rightarrow> string option" where
  "readFileSync fs p = (case fs p of Some (File t) \<Rightarrow> Some t | _ \<Rightarrow> None)"

definition writeFileSync :: "string \<Rightarrow> string \<Rightarrow> fs \<Rightarrow> fs" where
  "writeFileSync p t fs = fs(p \<mapsto> File t)"

definition unlinkSync :: "string \<Rightarrow> fs \<Rightarrow> fs" where
  "unlinkSync p fs = fs(p := None)"

text \<open>\<open>path.join(dir, p)\<close> for an absolute \<open>dir\<close>.\<close>

definition path_join :: "string \<Rightarrow> string \<Rightarrow> string" where
  "path_join dir p = path_string (norm_segs [] (split_on CHR ''/'' (dir @ ''/'' @ p)))"

text \<open>\<open>a[0]\<close> of an array, as \<open>Array.isArray(a) && a[0]\<close> uses it.\<close>

definition first_elem :: "jsval \<Rightarrow> jsval" where
  "first_elem v = (case v of JArr (x # xs) \<Rightarrow> x | _ \<Rightarrow> JUndef)"

definition has_own :: "jsval \<Rightarrow> string \<Rightarrow> bool" where
  "has_own v k \<longleftrightarrow> map_of (obj_fields v) k \<noteq> None"

text \<open>\<open>a > 0\<close> on any value.\<close>

definition js_pos :: "jsval \<Rightarrow> bool" where
  "js_pos v \<longleftrightarrow> num_less (JInt 0) (to_number v)"

text \<open>\<open>JSON.stringify(v, null, gap)\<close> written to a file with a final line break.\<close>

definition write_json :: "nat \<Rightarrow> string \<Rightarrow> jsval \<Rightarrow> fs \<Rightarrow> fs" where
  "write_json gap p v fs =
     writeFileSync p ((case json_stringify gap v of Some t \<Rightarrow> t | None \<Rightarrow> ''undefined'') @ newline) fs"

lemma fs_simps [simp]:
  "readFileSync (writeFileSync p t fs) q = (if q = p then Some t else readFileSync fs q)"
  "existsSync (writeFileSync p t fs) q \<longleftrightarrow> q = p \<or> existsSync fs q"
  "readFileSync (unlinkSync p fs) q = (if q = p then None else readFileSync fs q)"
  "existsSync (unlinkSync p fs) q \<longleftrightarrow> q \<noteq> p \<and> existsSync fs q"
  by (auto simp: readFileSync_def writeFileSync_def existsSync_def unlinkSync_def)

end
