(* ===== verification/HookConfig.thy ===== *)
theory HookConfig
  imports IgnoreConfig Files
begin

text \<open>
  The design hook's settings (\<open>hook-lib.mjs\<close>): the constants, the switches read from the
  environment and \<open>readConfig\<close>, which reads the hook part and the detector part of
  \<open>.impeccable/config.json\<close> and then of \<open>.impeccable/config.local.json\<close>. The detector part is
  the record of theory IgnoreConfig, whose functions \<open>hook-lib.mjs\<close> repeats word for word.

  Working directories are absolute paths.
\<close>

section \<open>Constants\<close>

definition ENVELOPE_PREFIX :: string where
  "ENVELOPE_PREFIX = ''[impeccable@1]''"

definition ALLOWED_EXTS :: "string list" where
  "ALLOWED_EXTS =
     [''.tsx'', ''.jsx'', ''.html'', ''.htm'', ''.vue'', ''.svelte'', ''.astro'',
      ''.css'', ''.scss'', ''.sass'', ''.less'', ''.ts'', ''.js'']"

definition ACK_EXTS :: "string list" where
  "ACK_EXTS =
     [''.tsx'', ''.jsx'', ''.html'', ''.htm'', ''.vue'', ''.svelte'', ''.astro'',
      ''.css'', ''.scss'', ''.sass'', ''.less'']"

definition path_sep_re :: re where
  "path_sep_re = ROneOf [CHR ''/'', CHR 0x5C]"

definition path_start_re :: re where
  "path_start_re = RAlt RBol path_sep_re"

definition in_name_re :: re where
  "in_name_re = RStar (RNot [CHR ''/'', CHR 0x5C])"

definition SENSITIVE_PATH :: re where
  "SENSITIVE_PATH = RAlts
     [RSeqs [path_start_re, RLitI ''.env'', RAlt (RChr CHR ''.'') REol],
      RSeqs [path_start_re, RLitI ''.git'', RAlt path_sep_re REol],
      RSeqs [path_start_re, RLitI ''id_rsa'', RAlt REol (ROneOf ''._-''), in_name_re, REol],
      RSeqs [path_start_re, in_name_re, RLitI ''.pem'', REol],
      RSeqs [path_start_re, ROpt (RSeqs [in_name_re, ROneOf ''._-'']),
        RAlts [RLitI ''secret'', RLitI ''secrets'', RLitI ''credential'', RLitI ''credentials''],
        RLook True (ROneOf ''._-''), in_name_re, RChr CHR ''.'',
        RAlts [RLitI ''json'', RSeqs [RLitI ''ya'', ROpt (RLitI ''m''), RLitI ''l''], RLitI ''toml'',
          RLitI ''ini'', RLitI ''conf'', RLitI ''config'', RLitI ''env'', RLitI ''txt'', RLitI ''key'',
          RLitI ''cert'', RLitI ''crt'', RLitI ''pem'', RLitI ''js'', RLitI ''ts''], REol]]"

definition GENERATED_PATH :: re where
  "GENERATED_PATH = RAlts
     [RSeqs [RLitI ''.generated.'', RPlus (RCls is_alpha), REol],
      RSeqs [RLitI ''.d.ts'', REol],
      RSeqs [RLitI ''.min.'', RPlus (RCls is_alpha), REol],
      RSeqs [path_sep_re, RLitI ''node_modules'', path_sep_re],
      RSeqs [path_sep_re, RAlts [RLitI ''dist'', RLitI ''build'', RLitI ''out'', RLitI ''.next'',
        RLitI ''.cache'', RLitI ''coverage''], path_sep_re],
      RSeqs [ROpt path_sep_re, RPlus (RNot [CHR ''/'', CHR 0x5C]), RLitI ''.lock'', ROpt (RLitI ''.json''), REol]]"

definition TRUTHY :: re where
  "TRUTHY = RSeqs [RBol, RGrp 1 (RAlts [RLitI ''1'', RLitI ''true'', RLitI ''yes'', RLitI ''on'']), REol]"

definition HOOK_LOCAL_IGNORE_PATTERNS :: "string list" where
  "HOOK_LOCAL_IGNORE_PATTERNS =
     [''.impeccable/hook.cache.json'', ''.impeccable/hook.pending.json'', ''.impeccable/config.local.json'']"

definition CACHE_MAX_SESSIONS :: nat where "CACHE_MAX_SESSIONS = 8"
definition EDIT_COUNT_THRESHOLD :: int where "EDIT_COUNT_THRESHOLD = 6"

section \<open>The environment\<close>

type_synonym env = "string \<Rightarrow> string option"

text \<open>The exported function \<open>truthy\<close>, on an environment variable.\<close>

definition truthy_env :: "string option \<Rightarrow> bool" where
  "truthy_env v = (case v of Some s \<Rightarrow> re_test TRUTHY s | None \<Rightarrow> False)"

definition depthIsSet :: "string option \<Rightarrow> bool" where
  "depthIsSet v =
     (case v of
        None \<Rightarrow> False
      | Some s \<Rightarrow>
          let t = trim s in
          if t = [] then False
          else if re_test TRUTHY t then True
          else list_all is_digit t \<and> 0 < digits_value 0 t)"

definition envProjectDir :: "env \<Rightarrow> jsval \<Rightarrow> jsval" where
  "envProjectDir env fallback =
     (case env ''CURSOR_PROJECT_DIR'' of
        Some d \<Rightarrow> if d \<noteq> [] then JStr d else fallback
      | None \<Rightarrow> fallback)"

definition resolveProjectCwd :: "env \<Rightarrow> jsval \<Rightarrow> jsval \<Rightarrow> jsval" where
  "resolveProjectCwd env event fallback =
     js_or (get_prop event ''cwd'')
       (js_or (first_elem (get_prop event ''workspace_roots''))
         (js_or (envProjectDir env fallback) fallback))"

section \<open>Files\<close>

definition getConfigPath :: "string \<Rightarrow> string" where
  "getConfigPath cwd = path_join cwd ''.impeccable/config.json''"

definition getLocalConfigPath :: "string \<Rightarrow> string" where
  "getLocalConfigPath cwd = path_join cwd ''.impeccable/config.local.json''"

definition getCachePath :: "string \<Rightarrow> string" where
  "getCachePath cwd = path_join cwd ''.impeccable/hook.cache.json''"

definition getPendingPath :: "string \<Rightarrow> string" where
  "getPendingPath cwd = path_join cwd ''.impeccable/hook.pending.json''"

definition hook_readJson :: "fs \<Rightarrow> string \<Rightarrow> jsval" where
  "hook_readJson fs p =
     (case readFileSync fs p of
        None \<Rightarrow> JNull
      | Some t \<Rightarrow> (case json_parse t of None \<Rightarrow> JNull | Some v \<Rightarrow> v))"

section \<open>The configuration\<close>

record hook_config =
  hc_enabled :: bool
  hc_quiet :: bool
  hc_auditLog :: "string option"
  hc_detection :: detection_config
  hc_maxFindings :: jsval
  hc_maxChars :: jsval

definition cloneDefaultConfig :: hook_config where
  "cloneDefaultConfig =
     \<lparr>hc_enabled = True, hc_quiet = False, hc_auditLog = None, hc_detection = cloneDetectionConfig,
      hc_maxFindings = JInt 5, hc_maxChars = JInt 8000\<rparr>"

definition numberOr :: "jsval \<Rightarrow> jsval \<Rightarrow> jsval" where
  "numberOr v fallback = (if is_finite_number v \<and> num_less (JInt 0) v then v else fallback)"

definition applyDetectorConfigSource :: "jsval \<Rightarrow> hook_config \<Rightarrow> hook_config" where
  "applyDetectorConfigSource raw c = c\<lparr>hc_detection := applyDetectionConfigSource raw (hc_detection c)\<rparr>"

definition applyConfigSource :: "jsval \<Rightarrow> hook_config \<Rightarrow> hook_config" where
  "applyConfigSource raw c =
     (if \<not> truthy raw \<or> \<not> typeof_object raw then c
      else
        let c1 = (if has_own raw ''enabled''
                  then c\<lparr>hc_enabled := get_prop raw ''enabled'' \<noteq> JBool False\<rparr> else c);
            c2 = (if has_own raw ''quiet''
                  then c1\<lparr>hc_quiet := get_prop raw ''quiet'' = JBool True\<rparr> else c1);
            c3 = (if nonblank (get_prop raw ''auditLog'')
                  then c2\<lparr>hc_auditLog := Some (trim (to_str (get_prop raw ''auditLog'')))\<rparr> else c2);
            c4 = applyDetectorConfigSource raw c3;
            limits = get_prop raw ''limits''
        in if truthy limits \<and> typeof_object limits
           then c4\<lparr>hc_maxFindings := numberOr (get_prop limits ''maxFindings'') (hc_maxFindings c4),
                   hc_maxChars := numberOr (get_prop limits ''maxChars'') (hc_maxChars c4)\<rparr>
           else c4)"

definition apply_config_file :: "jsval \<Rightarrow> hook_config \<Rightarrow> hook_config" where
  "apply_config_file raw c =
     applyDetectorConfigSource (detectorSection raw) (applyConfigSource (hookSection raw) c)"

definition readConfig :: "fs \<Rightarrow> string \<Rightarrow> hook_config" where
  "readConfig fs cwd =
     fold (\<lambda>p c. apply_config_file (hook_readJson fs p) c) [getConfigPath cwd, getLocalConfigPath cwd]
       cloneDefaultConfig"

end
