(* ===== verification/HookCache.thy ===== *)
theory HookCache
  imports HookConfig "HOL-Library.AList"
begin

text \<open>
  The hook's memory (\<open>hook-lib.mjs\<close>): \<open>.impeccable/hook.cache.json\<close> keeps, for each session and
  file, how often the file was edited, the keys of the findings the agent was told about and, for
  the write gate, how often a write was denied. The theory has the operations on it, reading and
  writing with the garbage collection of old sessions, and the block that keeps the hook's files
  out of git. The lemmas show that writing and reading give back the cache, that at most eight
  sessions are kept, and that a finding counts as new once per session and file.

  A cache file is one the hook wrote. What another program put there reads as missing parts, and
  keys of objects keep their insertion order (JavaScript moves keys that are array indices to the
  front). The time is an argument and stands still during one run.
\<close>

section \<open>The cache\<close>

record cfile =
  cf_editCount :: int
  cf_findings :: "string list"
  cf_cursorDenials :: "(string \<times> int) list"

record csession =
  cs_updatedAt :: int
  cs_files :: "(string \<times> cfile) list"

type_synonym cache = "(string \<times> csession) list"

definition new_file :: cfile where
  "new_file = \<lparr>cf_editCount = 0, cf_findings = [], cf_cursorDenials = []\<rparr>"

definition new_session :: "int \<Rightarrow> csession" where
  "new_session now = \<lparr>cs_updatedAt = now, cs_files = []\<rparr>"

text \<open>The cache as the JSON object in the file, and back.\<close>

definition map_vals :: "('a \<Rightarrow> 'b) \<Rightarrow> (string \<times> 'a) list \<Rightarrow> (string \<times> 'b) list" where
  "map_vals g xs = map (\<lambda>(k, v). (k, g v)) xs"

definition json_int :: "jsval \<Rightarrow> int" where
  "json_int v = (case v of JInt i \<Rightarrow> i | _ \<Rightarrow> 0)"

definition file_to_json :: "cfile \<Rightarrow> jsval" where
  "file_to_json e =
     JObj ([(''editCount'', JInt (cf_editCount e)), (''findings'', JArr (map JStr (cf_findings e)))] @
       (if cf_cursorDenials e = [] then []
        else [(''cursorDenials'', JObj (map_vals JInt (cf_cursorDenials e)))]))"

definition file_of_json :: "jsval \<Rightarrow> cfile" where
  "file_of_json v =
     \<lparr>cf_editCount = json_int (get_prop v ''editCount''),
      cf_findings = map to_str (arr_of (get_prop v ''findings'')),
      cf_cursorDenials = map_vals json_int (obj_fields (get_prop v ''cursorDenials''))\<rparr>"

definition session_to_json :: "csession \<Rightarrow> jsval" where
  "session_to_json s =
     JObj [(''updatedAt'', JInt (cs_updatedAt s)),
           (''files'', JObj (map_vals file_to_json (cs_files s)))]"

definition session_of_json :: "jsval \<Rightarrow> csession" where
  "session_of_json v =
     \<lparr>cs_updatedAt = json_int (get_prop v ''updatedAt''),
      cs_files = map_vals file_of_json (obj_fields (get_prop v ''files''))\<rparr>"

definition cache_to_json :: "cache \<Rightarrow> jsval" where
  "cache_to_json c =
     JObj [(''version'', JInt 1), (''sessions'', JObj (map_vals session_to_json c))]"

definition readCache :: "fs \<Rightarrow> string \<Rightarrow> cache" where
  "readCache fs cwd =
     (let raw = hook_readJson fs (getCachePath cwd) in
      if \<not> truthy raw \<or> \<not> typeof_object raw \<or> get_prop raw ''version'' \<noteq> JInt 1 then []
      else map_vals session_of_json (obj_fields (get_prop raw ''sessions'')))"

section \<open>The git exclude block\<close>

text \<open>\<open>resolveGitDir(dotGit, dir)\<close>: \<open>None\<close> is \<open>null\<close>.\<close>

definition gitdir_re :: re where
  "gitdir_re = RSeqs [RBol, RLitI ''gitdir:'', RStar RSp, RGrp 1 (RPlus RAny), REol]"

definition resolveGitDir :: "fs \<Rightarrow> string \<Rightarrow> string \<Rightarrow> string option" where
  "resolveGitDir fs dotGit worktreeDir =
     (case fs dotGit of
        Some Dir \<Rightarrow> Some dotGit
      | Some (File t) \<Rightarrow>
          (case re_exec gitdir_re (trim t) of
             None \<Rightarrow> None
           | Some m \<Rightarrow> Some (if is_absolute (cap1 m) then cap1 m else path_resolve worktreeDir (cap1 m)))
      | None \<Rightarrow> None)"

text \<open>
  The walk towards the root for a \<open>.git\<close>, over the segments of the directory, last one first.
  The result is the exclude file and the directory of the project inside the work tree.
\<close>

fun find_git_exclude :: "fs \<Rightarrow> string list \<Rightarrow> string list \<Rightarrow> (string \<times> string) option" where
  "find_git_exclude fs rdir below =
     (let dir = path_string (rev rdir); dotGit = path_join dir ''.git'' in
      if existsSync fs dotGit
      then map_option (\<lambda>gitDir. (path_join gitDir ''info/exclude'', join ''/'' below))
             (resolveGitDir fs dotGit dir)
      else (case rdir of [] \<Rightarrow> None | s # r \<Rightarrow> find_git_exclude fs r (s # below)))"

declare find_git_exclude.simps [simp del]

definition resolveHookGitExcludeTarget :: "fs \<Rightarrow> string \<Rightarrow> (string \<times> string) option" where
  "resolveHookGitExcludeTarget fs cwd =
     find_git_exclude fs (rev (norm_segs [] (split_on CHR ''/'' cwd))) []"

definition HOOK_IGNORE_MARKER_OPEN :: string where
  "HOOK_IGNORE_MARKER_OPEN = ''# impeccable-hook-ignore-start''"

definition HOOK_IGNORE_MARKER_CLOSE :: string where
  "HOOK_IGNORE_MARKER_CLOSE = ''# impeccable-hook-ignore-end''"

text \<open>The patterns in a replacement text; the pattern has no groups.\<close>

fun expand_dollars :: "rmatch_result \<Rightarrow> string \<Rightarrow> string" where
  "expand_dollars m [] = []"
| "expand_dollars m (c # cs) =
     (if c = CHR ''$'' then
        (case cs of
           [] \<Rightarrow> [c]
         | d # ds \<Rightarrow>
             if d = CHR ''$'' then c # expand_dollars m ds
             else if d = CHR ''&'' then m_text m @ expand_dollars m ds
             else if d = CHR 0x60 then m_before m @ expand_dollars m ds
             else if d = CHR 0x27 then m_after m @ expand_dollars m ds
             else c # expand_dollars m cs)
      else c # expand_dollars m cs)"

definition hook_patterns :: "string \<Rightarrow> string list" where
  "hook_patterns pre =
     (if pre = [] then HOOK_LOCAL_IGNORE_PATTERNS
      else map (\<lambda>p. pre @ ''/'' @ p) HOOK_LOCAL_IGNORE_PATTERNS)"

definition marker_suffix :: "string \<Rightarrow> string" where
  "marker_suffix pre = (if pre = [] then ''.'' else pre)"

definition hook_block :: "string \<Rightarrow> string" where
  "hook_block pre =
     exclude_block (HOOK_IGNORE_MARKER_OPEN @ '' '' @ marker_suffix pre) (hook_patterns pre)
       (HOOK_IGNORE_MARKER_CLOSE @ '' '' @ marker_suffix pre)"

text \<open>The new text of the exclude file.\<close>

definition hook_exclude_text :: "string \<Rightarrow> string \<Rightarrow> string" where
  "hook_exclude_text pre existing =
     (let block = hook_block pre;
          re = marker_re (HOOK_IGNORE_MARKER_OPEN @ '' '' @ marker_suffix pre)
                 (HOOK_IGNORE_MARKER_CLOSE @ '' '' @ marker_suffix pre) in
      if re_test re existing then re_replace re (\<lambda>m. expand_dollars m block) existing
      else let old_part = (if existing = [] then []
                         else if ends_with existing newline then existing else existing @ newline)
           in old_part @ (if ends_with old_part (newline @ newline) \<or> old_part = [] then [] else newline) @
              block @ newline)"

text \<open>The object \<open>ensureHookGitExcludes\<close> returns, and the files after it.\<close>

definition ensureHookGitExcludes :: "string \<Rightarrow> fs \<Rightarrow> jsval \<times> fs" where
  "ensureHookGitExcludes cwd fs =
     (let report = (\<lambda>mode changed ps.
            JObj [(''mode'', JStr mode), (''changed'', JBool changed), (''patterns'', JArr (map JStr ps))]) in
      case resolveHookGitExcludeTarget fs cwd of
        None \<Rightarrow> (report ''none'' False HOOK_LOCAL_IGNORE_PATTERNS, fs)
      | Some (target, pre) \<Rightarrow>
          if existsSync fs target \<and> readFileSync fs target = None
          then (report ''error'' False HOOK_LOCAL_IGNORE_PATTERNS, fs)
          else
            let existing = (case readFileSync fs target of Some t \<Rightarrow> t | None \<Rightarrow> []);
                updated = hook_exclude_text pre existing in
            (JObj [(''mode'', JStr ''git-info-exclude''), (''file'', JStr (path_relative cwd target)),
                   (''changed'', JBool (updated \<noteq> existing)), (''patterns'', JArr (map JStr (hook_patterns pre)))],
             if updated \<noteq> existing then writeFileSync target updated fs else fs))"

section \<open>Writing the cache\<close>

definition gc_sessions :: "cache \<Rightarrow> cache" where
  "gc_sessions c =
     (if CACHE_MAX_SESSIONS < length c
      then take CACHE_MAX_SESSIONS (sort_key (\<lambda>(i, s). - cs_updatedAt s) c) else c)"

definition persistCache :: "string \<Rightarrow> cache \<Rightarrow> fs \<Rightarrow> fs" where
  "persistCache cwd c fs =
     writeFileSync (getCachePath cwd)
       (json_text 0 0 (cache_to_json (gc_sessions c))) (snd (ensureHookGitExcludes cwd fs))"

section \<open>Sessions and files\<close>

definition ensureSession :: "int \<Rightarrow> string \<Rightarrow> cache \<Rightarrow> csession \<times> cache" where
  "ensureSession now sid c =
     (case map_of c sid of
        Some s \<Rightarrow> (s, c)
      | None \<Rightarrow> (new_session now, AList.update sid (new_session now) c))"

definition set_file :: "int \<Rightarrow> string \<Rightarrow> string \<Rightarrow> cfile \<Rightarrow> cache \<Rightarrow> cache" where
  "set_file now sid f e c =
     (let (s, c1) = ensureSession now sid c
      in AList.update sid (s\<lparr>cs_files := AList.update f e (cs_files s)\<rparr>) c1)"

definition ensureFile :: "int \<Rightarrow> string \<Rightarrow> string \<Rightarrow> cache \<Rightarrow> cfile \<times> cache" where
  "ensureFile now sid f c =
     (let (s, c1) = ensureSession now sid c in
      case map_of (cs_files s) f of
        Some e \<Rightarrow> (e, c1)
      | None \<Rightarrow> (new_file, set_file now sid f new_file c1))"

text \<open>\<open>ensureSession(cache, sessionId).updatedAt = Date.now()\<close>.\<close>

definition touch_session :: "int \<Rightarrow> string \<Rightarrow> cache \<Rightarrow> cache" where
  "touch_session now sid c =
     (let (s, c1) = ensureSession now sid c in AList.update sid (s\<lparr>cs_updatedAt := now\<rparr>) c1)"

definition bumpEditCount :: "int \<Rightarrow> string \<Rightarrow> string \<Rightarrow> cache \<Rightarrow> int \<times> cache" where
  "bumpEditCount now sid f c =
     (let (e, c1) = ensureFile now sid f c; n = cf_editCount e + 1
      in (n, touch_session now sid (set_file now sid f (e\<lparr>cf_editCount := n\<rparr>) c1)))"

section \<open>Findings\<close>

definition findingCacheKey :: "jsval \<Rightarrow> string" where
  "findingCacheKey finding =
     (let line = js_or (get_prop finding ''line'') (JInt 0); v = extractFindingIgnoreValue finding;
          pattern = to_str (get_prop finding ''antipattern'') in
      if js_pos line \<and> v \<noteq> [] then pattern @ '':'' @ to_str line @ '':'' @ v
      else if js_pos line then pattern @ '':'' @ to_str line
      else if v \<noteq> [] then pattern @ '':0:'' @ v
      else let snippet = take 80 (trim (str_or_empty (get_prop finding ''snippet'')))
           in if snippet \<noteq> [] then pattern @ '':0:'' @ snippet else pattern @ '':0'')"

fun fresh_loop :: "string list \<Rightarrow> jsval list \<Rightarrow> jsval list" where
  "fresh_loop known [] = []"
| "fresh_loop known (f # fs) =
     (if findingCacheKey f \<in> set known then fresh_loop known fs
      else f # fresh_loop (findingCacheKey f # known) fs)"

definition dedupeAgainstCache :: "int \<Rightarrow> jsval list \<Rightarrow> string \<Rightarrow> string \<Rightarrow> cache \<Rightarrow> jsval list \<times> cache" where
  "dedupeAgainstCache now findings sid f c =
     (if findings = [] then ([], c)
      else let (e, c1) = ensureFile now sid f c in (fresh_loop (cf_findings e) findings, c1))"

definition rememberFindings :: "int \<Rightarrow> string \<Rightarrow> string \<Rightarrow> jsval list \<Rightarrow> cache \<Rightarrow> cache" where
  "rememberFindings now sid f findings c =
     (let (e, c1) = ensureFile now sid f c
      in touch_session now sid
           (set_file now sid f (e\<lparr>cf_findings := uniq (cf_findings e @ map findingCacheKey findings)\<rparr>) c1))"

definition suppressionNotice :: "string \<Rightarrow> string" where
  "suppressionNotice filePath =
     ENVELOPE_PREFIX @ '' Suppressing further design hints on '' @ filePath @ ''. More than '' @
     int_digits EDIT_COUNT_THRESHOLD @ '' edits in this session reached. Run /impeccable audit to revisit.''"

section \<open>Lemmas on sessions and files\<close>

text \<open>What the cache holds for a file of a session.\<close>

definition file_of :: "cache \<Rightarrow> string \<Rightarrow> string \<Rightarrow> cfile option" where
  "file_of c sid f = Option.bind (map_of c sid) (\<lambda>s. map_of (cs_files s) f)"

definition known_keys :: "cache \<Rightarrow> string \<Rightarrow> string \<Rightarrow> string set" where
  "known_keys c sid f = (case file_of c sid f of Some e \<Rightarrow> set (cf_findings e) | None \<Rightarrow> {})"

definition edits_of :: "cache \<Rightarrow> string \<Rightarrow> string \<Rightarrow> int" where
  "edits_of c sid f = (case file_of c sid f of Some e \<Rightarrow> cf_editCount e | None \<Rightarrow> 0)"

lemma map_of_update [simp]: "map_of (AList.update k v m) = (map_of m)(k \<mapsto> v)"
  by (simp add: update_conv')

lemma file_of_ensureSession [simp]: "file_of (snd (ensureSession now sid c)) = file_of c"
  by (auto simp: fun_eq_iff ensureSession_def file_of_def new_session_def split: option.splits)

lemma file_of_set_file [simp]:
  "file_of (set_file now sid f e c) sid' f' = (if sid' = sid \<and> f' = f then Some e else file_of c sid' f')"
  by (auto simp: set_file_def ensureSession_def file_of_def new_session_def split: option.splits)

lemma file_of_touch [simp]: "file_of (touch_session now sid c) = file_of c"
  by (auto simp: fun_eq_iff touch_session_def ensureSession_def file_of_def new_session_def split: option.splits)

lemma ensureFile_simps [simp]:
  "fst (ensureFile now sid f c) = (case file_of c sid f of Some e \<Rightarrow> e | None \<Rightarrow> new_file)"
  "file_of (snd (ensureFile now sid f c)) sid' f' =
     (if sid' = sid \<and> f' = f then Some (fst (ensureFile now sid f c)) else file_of c sid' f')"
  by (auto simp: ensureFile_def ensureSession_def file_of_def new_session_def set_file_def split: option.splits)

lemma known_ensureFile [simp]: "known_keys (snd (ensureFile now sid f c)) = known_keys c"
  by (auto simp: fun_eq_iff known_keys_def new_file_def split: option.splits)

lemma edits_ensureFile [simp]: "edits_of (snd (ensureFile now sid f c)) = edits_of c"
  by (auto simp: fun_eq_iff edits_of_def new_file_def split: option.splits)

lemma bumpEditCount_simps [simp]:
  "fst (bumpEditCount now sid f c) = edits_of c sid f + 1"
  "edits_of (snd (bumpEditCount now sid f c)) sid' f' =
     (if sid' = sid \<and> f' = f then edits_of c sid f + 1 else edits_of c sid' f')"
  "known_keys (snd (bumpEditCount now sid f c)) = known_keys c"
  by (auto simp: bumpEditCount_def case_prod_beta edits_of_def known_keys_def new_file_def Let_def fun_eq_iff
      split: option.splits)

lemma rememberFindings_simps [simp]:
  "known_keys (rememberFindings now sid f fs c) sid' f' =
     known_keys c sid' f' \<union> (if sid' = sid \<and> f' = f then findingCacheKey ` set fs else {})"
  "edits_of (rememberFindings now sid f fs c) = edits_of c"
  by (auto simp: rememberFindings_def case_prod_beta edits_of_def known_keys_def new_file_def Let_def fun_eq_iff
      split: option.splits)

lemma known_dedupe [simp]: "known_keys (snd (dedupeAgainstCache now fs sid f c)) = known_keys c"
  by (simp add: dedupeAgainstCache_def case_prod_beta)

lemma edits_dedupe [simp]: "edits_of (snd (dedupeAgainstCache now fs sid f c)) = edits_of c"
  by (simp add: dedupeAgainstCache_def case_prod_beta)

lemma fresh_loop_keys:
  "findingCacheKey ` set (fresh_loop known fs) = findingCacheKey ` set fs - set known"
  by (induction fs arbitrary: known) auto

lemma fresh_loop_subseq: "subseq (fresh_loop known fs) fs"
  by (induction fs arbitrary: known) auto

lemma fresh_loop_distinct: "distinct (map findingCacheKey (fresh_loop known fs))"
proof (induction fs arbitrary: known)
  case (Cons f fs)
  have "findingCacheKey f \<notin> findingCacheKey ` set (fresh_loop (findingCacheKey f # known) fs)"
    by (simp add: fresh_loop_keys)
  then show ?case using Cons by simp
qed simp

lemma fst_dedupe: "fst (dedupeAgainstCache now fs sid f c) =
    fresh_loop (case file_of c sid f of Some e \<Rightarrow> cf_findings e | None \<Rightarrow> []) fs"
  by (auto simp: dedupeAgainstCache_def case_prod_beta new_file_def split: option.splits)

text \<open>The findings reported as new are, up to their keys, the ones not reported before.\<close>

theorem dedupe_reports_new:
  "findingCacheKey ` set (fst (dedupeAgainstCache now fs sid f c)) = findingCacheKey ` set fs - known_keys c sid f"
  "subseq (fst (dedupeAgainstCache now fs sid f c)) fs"
  "distinct (map findingCacheKey (fst (dedupeAgainstCache now fs sid f c)))"
  by (auto simp: fst_dedupe fresh_loop_keys known_keys_def fresh_loop_subseq fresh_loop_distinct split: option.splits)

section \<open>Lemmas on reading and writing\<close>

definition session_ok :: "csession \<Rightarrow> bool" where
  "session_ok s \<longleftrightarrow> distinct (map fst (cs_files s)) \<and>
     (\<forall>f e. (f, e) \<in> set (cs_files s) \<longrightarrow> distinct (map fst (cf_cursorDenials e)))"

definition cache_ok :: "cache \<Rightarrow> bool" where
  "cache_ok c \<longleftrightarrow> distinct (map fst c) \<and> (\<forall>i s. (i, s) \<in> set c \<longrightarrow> session_ok s)"

lemma map_vals_simps [simp]:
  "map fst (map_vals g xs) = map fst xs" "map_vals h (map_vals g xs) = map_vals (\<lambda>v. h (g v)) xs"
  "(k, w) \<in> set (map_vals g xs) \<longleftrightarrow> (\<exists>v. (k, v) \<in> set xs \<and> w = g v)" "map_vals (\<lambda>v. v) xs = xs"
  "map_vals g [] = []"
  by (force simp: map_vals_def comp_def case_prod_beta)+

lemma json_int_JInt [simp]: "json_int (JInt i) = i"
  by (simp add: json_int_def)

lemma arr_of_JArr [simp]: "arr_of (JArr xs) = xs"
  by (simp add: arr_of_def)

lemma file_json [simp]: "file_of_json (file_to_json e) = e"
  by (cases e) (auto simp: file_of_json_def file_to_json_def comp_def)

lemma session_json [simp]: "session_of_json (session_to_json s) = s"
  by (cases s) (simp add: session_of_json_def session_to_json_def)

lemma file_json_wf: "distinct (map fst (cf_cursorDenials e)) \<Longrightarrow> json_wf (file_to_json e)"
  by (auto simp: file_to_json_def list_all_iff)

lemma session_json_wf: "session_ok s \<Longrightarrow> json_wf (session_to_json s)"
  by (auto simp: session_to_json_def list_all_iff session_ok_def intro!: file_json_wf)

lemma cache_json_wf: "cache_ok c \<Longrightarrow> json_wf (cache_to_json c)"
  by (auto simp: cache_to_json_def list_all_iff cache_ok_def intro!: session_json_wf)

lemma gc_set: "set (gc_sessions c) \<subseteq> set c"
  using set_take_subset[of CACHE_MAX_SESSIONS "sort_key (\<lambda>(i, s). - cs_updatedAt s) c"]
  by (auto simp: gc_sessions_def)

lemma gc_distinct: "distinct (map fst c) \<Longrightarrow> distinct (map fst (gc_sessions c))"
proof -
  assume d: "distinct (map fst c)"
  let ?s = "sort_key (\<lambda>(i, s). - cs_updatedAt s) c"
  have "distinct (map fst ?s)" using d by (simp add: distinct_map)
  then show "distinct (map fst (gc_sessions c))"
    using d by (simp add: gc_sessions_def take_map[symmetric] distinct_take)
qed

lemma gc_ok: "cache_ok c \<Longrightarrow> cache_ok (gc_sessions c)"
  using gc_set[of c] gc_distinct[of c] unfolding cache_ok_def by blast

theorem persist_then_read:
  assumes "cache_ok c"
  shows "readCache (persistCache cwd c fs) cwd = gc_sessions c"
proof -
  have "json_parse (json_text 0 0 (cache_to_json (gc_sessions c)) @ []) = Some (cache_to_json (gc_sessions c))"
    using assms by (intro json_parse_text cache_json_wf gc_ok) (auto simp: skip_ws_def)
  then have "hook_readJson (persistCache cwd c fs) (getCachePath cwd) = cache_to_json (gc_sessions c)"
    by (simp add: hook_readJson_def persistCache_def)
  then show ?thesis
    by (simp add: readCache_def cache_to_json_def)
qed

lemma sorted_take_drop:
  assumes "sorted (map k xs)" "x \<in> set (take n xs)" "y \<in> set (drop n xs)"
  shows "k x \<le> k y"
proof -
  have "sorted (map k (take n xs) @ map k (drop n xs))" using assms(1) by (simp flip: map_append)
  then show ?thesis using assms(2,3) by (simp add: sorted_append del: map_append)
qed

text \<open>At most eight sessions are kept, and none that is dropped is newer than one that is kept.\<close>

theorem gc_keeps_newest:
  "length (gc_sessions c) \<le> 8"
  "(i, s) \<in> set (gc_sessions c) \<Longrightarrow> (j, t) \<in> set c - set (gc_sessions c) \<Longrightarrow> cs_updatedAt t \<le> cs_updatedAt s"
proof -
  let ?k = "\<lambda>(i, s). - cs_updatedAt s" let ?s = "sort_key ?k c"
  show "length (gc_sessions c) \<le> 8" by (simp add: gc_sessions_def CACHE_MAX_SESSIONS_def)
  assume a: "(i, s) \<in> set (gc_sessions c)" "(j, t) \<in> set c - set (gc_sessions c)"
  have "gc_sessions c \<noteq> c" using a(2) by (metis Diff_cancel empty_iff)
  then have l: "gc_sessions c = take 8 ?s"
    unfolding gc_sessions_def CACHE_MAX_SESSIONS_def by (meson if_P if_not_P)
  have u: "set (take 8 ?s @ drop 8 ?s) = set c" by (simp only: append_take_drop_id set_sort)
  have "(j, t) \<in> set (take 8 ?s) \<union> set (drop 8 ?s)" using a(2) u by (simp only: set_append Diff_iff)
  then have "(j, t) \<in> set (drop 8 ?s)" using a(2) l by (simp only: Diff_iff Un_iff) blast
  then have "?k (i, s) \<le> ?k (j, t)"
    using a(1) by (intro sorted_take_drop[of ?k ?s "(i, s)" 8]) (simp_all add: l)
  then show "cs_updatedAt t \<le> cs_updatedAt s" by simp
qed

section \<open>Keys stay distinct\<close>

lemma set_update: "set (AList.update k v m) \<subseteq> insert (k, v) (set m)"
  by (induction m) auto

lemma update_ok: "cache_ok c \<Longrightarrow> session_ok s \<Longrightarrow> cache_ok (AList.update sid s c)"
  using set_update[of sid s c] distinct_update[of c sid s] unfolding cache_ok_def by blast

lemma update_session_ok:
  "session_ok s \<Longrightarrow> distinct (map fst (cf_cursorDenials e)) \<Longrightarrow>
    session_ok (s\<lparr>cs_files := AList.update f e (cs_files s)\<rparr>)"
  using set_update[of f e "cs_files s"] distinct_update[of "cs_files s" f e] unfolding session_ok_def by auto

lemma ensureSession_ok:
  "cache_ok c \<Longrightarrow> session_ok (fst (ensureSession now sid c)) \<and> cache_ok (snd (ensureSession now sid c))"
  by (auto simp: ensureSession_def session_ok_def new_session_def split: option.splits intro!: update_ok)
     (auto simp: cache_ok_def session_ok_def dest: map_of_SomeD)

lemma set_file_ok:
  "cache_ok c \<Longrightarrow> distinct (map fst (cf_cursorDenials e)) \<Longrightarrow> cache_ok (set_file now sid f e c)"
  using ensureSession_ok[of c now sid]
  by (auto simp: set_file_def case_prod_beta intro!: update_ok update_session_ok)

lemma touch_ok: "cache_ok c \<Longrightarrow> cache_ok (touch_session now sid c)"
  using ensureSession_ok[of c now sid]
  by (auto simp: touch_session_def case_prod_beta session_ok_def intro!: update_ok)

lemma ensureFile_ok:
  "cache_ok c \<Longrightarrow> distinct (map fst (cf_cursorDenials (fst (ensureFile now sid f c)))) \<and>
    cache_ok (snd (ensureFile now sid f c))"
  using ensureSession_ok[of c now sid]
  by (auto simp: ensureFile_def case_prod_beta new_file_def session_ok_def split: option.splits
      intro!: set_file_ok dest: map_of_SomeD)

lemma bumpEditCount_ok: "cache_ok c \<Longrightarrow> cache_ok (snd (bumpEditCount now sid f c))"
  using ensureFile_ok[of c now sid f]
  by (auto simp: bumpEditCount_def case_prod_beta Let_def simp del: ensureFile_simps intro!: touch_ok set_file_ok)

lemma dedupe_ok: "cache_ok c \<Longrightarrow> cache_ok (snd (dedupeAgainstCache now fs sid f c))"
  using ensureFile_ok[of c now sid f] by (simp add: dedupeAgainstCache_def case_prod_beta)

lemma rememberFindings_ok: "cache_ok c \<Longrightarrow> cache_ok (rememberFindings now sid f fs c)"
  using ensureFile_ok[of c now sid f]
  by (auto simp: rememberFindings_def case_prod_beta Let_def simp del: ensureFile_simps intro!: touch_ok set_file_ok)

section \<open>Lemmas on the exclude block\<close>

text \<open>A directory whose path has none of the characters that mean something in the block.\<close>

definition plain_prefix :: "string \<Rightarrow> bool" where
  "plain_prefix pre \<longleftrightarrow> CHR ''#'' \<notin> set pre \<and> CHR ''$'' \<notin> set pre \<and> CHR 0x0A \<notin> set pre"

definition hook_open :: "string \<Rightarrow> string" where
  "hook_open pre = HOOK_IGNORE_MARKER_OPEN @ '' '' @ marker_suffix pre"

definition hook_close :: "string \<Rightarrow> string" where
  "hook_close pre = HOOK_IGNORE_MARKER_CLOSE @ '' '' @ marker_suffix pre"

definition hook_mid :: "string \<Rightarrow> string" where
  "hook_mid pre = newline @ join newline (hook_patterns pre) @ newline"

lemma hook_block_shape: "hook_block pre = hook_open pre @ hook_mid pre @ hook_close pre"
  by (simp add: hook_block_def exclude_block_def hook_open_def hook_close_def hook_mid_def hook_patterns_def
      HOOK_LOCAL_IGNORE_PATTERNS_def)

lemma hook_mid_chars: "plain_prefix pre \<Longrightarrow> CHR ''#'' \<notin> set (hook_mid pre) \<and> CHR ''$'' \<notin> set (hook_mid pre)"
  by (auto simp: hook_mid_def hook_patterns_def HOOK_LOCAL_IGNORE_PATTERNS_def newline_char plain_prefix_def)

lemma hook_marks:
  assumes "plain_prefix pre"
  shows "hook_open pre \<noteq> []" "CHR 0x0A \<notin> set (hook_open pre)"
    "CHR ''#'' \<notin> set mid \<Longrightarrow> marker_ok (hook_open pre) (hook_close pre) mid"
    "CHR ''$'' \<notin> set (hook_block pre)"
  using assms hook_mid_chars[OF assms]
  by (auto simp: hook_open_def hook_close_def marker_ok_def plain_prefix_def marker_suffix_def hook_block_shape
      HOOK_IGNORE_MARKER_OPEN_def HOOK_IGNORE_MARKER_CLOSE_def)

lemma expand_plain: "CHR ''$'' \<notin> set s \<Longrightarrow> expand_dollars m s = s"
  by (induction s) auto

lemma hook_exclude_replaces:
  "plain_prefix pre \<Longrightarrow> re_exec (marker_re (hook_open pre) (hook_close pre)) s = Some m \<Longrightarrow>
     hook_exclude_text pre s = m_before m @ hook_block pre @ m_after m"
  using hook_marks(4)[of pre]
  by (simp add: hook_exclude_text_def re_test_def re_replace_def Let_def hook_open_def hook_close_def expand_plain)

text \<open>Running the update twice is running it once.\<close>

theorem hook_exclude_idempotent:
  assumes p: "plain_prefix pre"
    and "str_includes s (hook_open pre) \<longrightarrow> re_test (marker_re (hook_open pre) (hook_close pre)) s"
  shows "hook_exclude_text pre (hook_exclude_text pre s) = hook_exclude_text pre s"
proof -
  let ?re = "marker_re (hook_open pre) (hook_close pre)" and ?block = "hook_open pre @ hook_mid pre @ hook_close pre"
  have ok: "marker_ok (hook_open pre) (hook_close pre) (hook_mid pre)"
    using hook_marks(3)[OF p] hook_mid_chars[OF p] by blast
  have once: "\<exists>b a. hook_exclude_text pre s = b @ ?block @ a \<and>
      re_exec ?re (b @ ?block @ a) = Some \<lparr>m_before = b, m_text = ?block, m_after = a, m_caps = []\<rparr>"
  proof (cases "re_exec ?re s")
    case (Some m)
    show ?thesis
      using hook_exclude_replaces[OF p Some] exec_after_replace[OF ok Some]
      by (intro exI[of _ "m_before m"] exI[of _ "m_after m"]) (simp add: hook_block_shape)
  next
    case None
    then have no: "\<not> str_includes s (hook_open pre)" using assms(2) by (auto simp: re_test_def)
    define b0 where "b0 = (if s = [] then [] else if ends_with s newline then s else s @ newline)"
    define b where "b = b0 @ (if ends_with b0 (newline @ newline) \<or> b0 = [] then [] else newline)"
    have e: "\<not> str_includes [] (hook_open pre)" by (simp add: str_includes_def hook_marks(1)[OF p])
    have nl: "\<not> str_includes (t @ newline) (hook_open pre)" if "\<not> str_includes t (hook_open pre)" for t
      using includes_append_newline[OF _ hook_marks(2,1)[OF p]] that by blast
    have "\<not> str_includes b0 (hook_open pre)" using e no nl[OF no] by (simp add: b0_def)
    then have "\<not> str_includes b (hook_open pre)" using nl by (simp add: b_def)
    note exec_after_append [OF ok this, of newline]
    moreover have "hook_exclude_text pre s = b @ ?block @ newline"
      using None by (simp add: hook_exclude_text_def re_test_def b_def b0_def Let_def hook_open_def hook_close_def
          hook_block_shape)
    ultimately show ?thesis by blast
  qed
  then obtain b a where ba: "hook_exclude_text pre s = b @ ?block @ a"
    "re_exec ?re (b @ ?block @ a) = Some \<lparr>m_before = b, m_text = ?block, m_after = a, m_caps = []\<rparr>"
    by blast
  show ?thesis
    unfolding ba(1) using hook_exclude_replaces[OF p ba(2)] by (simp add: hook_block_shape)
qed

text \<open>C39: The markers of a project are a prefix of those of a project whose path continues its path: the
  block of \<open>apps/web2\<close> is taken for the one of \<open>apps/web\<close>, and its patterns are lost.
\<close>

theorem sibling_block_overwritten:
  assumes "plain_prefix pre" "plain_prefix rst" "pre \<noteq> []"
  shows "hook_exclude_text pre (hook_block (pre @ rst) @ newline) = hook_block pre @ rst @ newline"
proof -
  let ?mid = "rst @ hook_mid (pre @ rst)"
  have p: "plain_prefix (pre @ rst)" using assms by (auto simp: plain_prefix_def)
  have m: "CHR ''#'' \<notin> set ?mid" using hook_mid_chars[OF p] assms(2) by (auto simp: plain_prefix_def)
  have s: "hook_block (pre @ rst) @ newline = [] @ (hook_open pre @ ?mid @ hook_close pre) @ rst @ newline"
    using assms(3) by (simp add: hook_block_shape[of "pre @ rst"] hook_open_def hook_close_def marker_suffix_def)
  have "re_exec (marker_re (hook_open pre) (hook_close pre)) (hook_block (pre @ rst) @ newline) =
      Some \<lparr>m_before = [], m_text = hook_open pre @ ?mid @ hook_close pre, m_after = rst @ newline, m_caps = []\<rparr>"
    unfolding s using hook_marks(1,3)[OF assms(1)] m
    by (intro exec_after_append) (auto simp: str_includes_def)
  then show ?thesis using hook_exclude_replaces[OF assms(1)] by simp
qed

theorem sibling_block_overwritten_witness:
  "hook_exclude_text ''apps/web'' (hook_block ''apps/web2'' @ newline) = hook_block ''apps/web'' @ ''2'' @ newline"
  using sibling_block_overwritten[of "''apps/web''" "''2''"] by (simp add: plain_prefix_def)

section \<open>The interface: a memory of findings\<close>

text \<open>
  What a client of the cache relies on: the findings \<open>dedupe\<close> lets through are the ones whose keys
  are not known, and \<open>remember\<close> makes keys known, for the file at hand only.
\<close>

locale finding_memory =
  fixes known :: "'c \<Rightarrow> string \<Rightarrow> string set"
    and key :: "jsval \<Rightarrow> string"
    and dedupe :: "string \<Rightarrow> jsval list \<Rightarrow> 'c \<Rightarrow> jsval list \<times> 'c"
    and remember :: "string \<Rightarrow> jsval list \<Rightarrow> 'c \<Rightarrow> 'c"
  assumes dedupe_new: "key ` set (fst (dedupe f xs c)) = key ` set xs - known c f"
    and dedupe_known: "known (snd (dedupe f xs c)) = known c"
    and remember_known: "known (remember f xs c) g = known c g \<union> (if g = f then key ` set xs else {})"
begin

lemma reported_unknown: "key ` set (fst (dedupe f xs c)) \<inter> known c f = {}"
  by (auto simp: dedupe_new)

lemma report_makes_known:
  "key ` set xs \<subseteq> known (remember f (fst (dedupe f xs c)) (snd (dedupe f xs c))) f"
  by (auto simp: remember_known dedupe_known dedupe_new)

lemma report_forgets_nothing:
  "known c g \<subseteq> known (remember f ys (snd (dedupe f xs c))) g"
  by (auto simp: remember_known dedupe_known)

lemma nothing_twice:
  assumes "key ` set ys \<subseteq> key ` set xs"
  shows "fst (dedupe f ys (remember f (fst (dedupe f xs c)) (snd (dedupe f xs c)))) = []"
proof -
  let ?c = "remember f (fst (dedupe f xs c)) (snd (dedupe f xs c))"
  have "key ` set (fst (dedupe f ys ?c)) = {}"
    unfolding dedupe_new using report_makes_known assms by blast
  then show ?thesis by simp
qed

end

interpretation memory: finding_memory "\<lambda>c. known_keys c sid" findingCacheKey
  "\<lambda>f xs. dedupeAgainstCache now xs sid f" "\<lambda>f xs. rememberFindings now sid f xs" for now sid
  by unfold_locales (simp_all only: dedupe_reports_new(1) known_dedupe rememberFindings_simps(1) simp_thms)

section \<open>Other sessions and the time stamp\<close>

definition session_stamped :: "int \<Rightarrow> string \<Rightarrow> cache \<Rightarrow> bool" where
  "session_stamped now sid c \<longleftrightarrow> (\<exists>s. map_of c sid = Some s \<and> cs_updatedAt s = now)"

text \<open>An operation that leaves the other sessions alone and does not unstamp its own.\<close>

definition local_step :: "int \<Rightarrow> string \<Rightarrow> cache \<Rightarrow> cache \<Rightarrow> bool" where
  "local_step now sid c c' \<longleftrightarrow>
     (\<forall>i. i \<noteq> sid \<longrightarrow> map_of c' i = map_of c i) \<and> (session_stamped now sid c \<longrightarrow> session_stamped now sid c')"

lemma local_refl: "local_step now sid c c"
  by (simp add: local_step_def)

lemma local_trans: "local_step now sid a b \<Longrightarrow> local_step now sid b c \<Longrightarrow> local_step now sid a c"
  by (simp add: local_step_def)

lemma local_ensureSession: "local_step now sid c (snd (ensureSession now sid c))"
  by (auto simp: local_step_def session_stamped_def ensureSession_def new_session_def split: option.splits)

lemma local_update:
  "(session_stamped now sid c \<Longrightarrow> cs_updatedAt s = now) \<Longrightarrow> local_step now sid c (AList.update sid s c)"
  by (auto simp: local_step_def session_stamped_def)

lemma ensureSession_stamp: "session_stamped now sid c \<Longrightarrow> cs_updatedAt (fst (ensureSession now sid c)) = now"
  by (auto simp: session_stamped_def ensureSession_def)

lemma ensureSession_again: "ensureSession now sid (snd (ensureSession now sid c)) = ensureSession now sid c"
  by (auto simp: ensureSession_def split: option.splits)

lemma stamp_after_ensure:
  "session_stamped now sid (snd (ensureSession now sid c)) \<Longrightarrow> cs_updatedAt (fst (ensureSession now sid c)) = now"
  using ensureSession_stamp[of now sid "snd (ensureSession now sid c)"] by (simp add: ensureSession_again)

lemma local_set_file: "local_step now sid c (set_file now sid f e c)"
  using local_trans[OF local_ensureSession local_update]  stamp_after_ensure
  by (simp add: set_file_def case_prod_beta)

lemma local_touch: "local_step now sid c (touch_session now sid c)"
  using local_trans[OF local_ensureSession local_update] by (simp add: touch_session_def case_prod_beta)

lemma touch_stamps: "session_stamped now sid (touch_session now sid c)"
  by (simp add: touch_session_def case_prod_beta session_stamped_def)

lemma local_ensureFile: "local_step now sid c (snd (ensureFile now sid f c))"
  using local_trans[OF local_ensureSession local_set_file] local_ensureSession
  by (auto simp: ensureFile_def case_prod_beta split: option.splits)

lemma local_bump: "local_step now sid c (snd (bumpEditCount now sid f c))"
  using local_trans[OF local_trans[OF local_ensureFile local_set_file] local_touch]
  by (simp add: bumpEditCount_def case_prod_beta Let_def)

lemma local_dedupe: "local_step now sid c (snd (dedupeAgainstCache now fs sid f c))"
  using local_ensureFile local_refl by (simp add: dedupeAgainstCache_def case_prod_beta)

lemma local_remember: "local_step now sid c (rememberFindings now sid f fs c)"
  using local_trans[OF local_trans[OF local_ensureFile local_set_file] local_touch]
  by (simp add: rememberFindings_def case_prod_beta Let_def)

lemma remember_stamps: "session_stamped now sid (rememberFindings now sid f fs c)"
  using touch_stamps by (simp add: rememberFindings_def case_prod_beta Let_def)

text \<open>A session session_stamped last survives the garbage collection.\<close>

lemma head_of_sorted:
  assumes "x \<in> set xs" "\<And>y. y \<in> set xs \<Longrightarrow> y \<noteq> x \<Longrightarrow> k x < (k y :: int)"
  shows "\<exists>r. sort_key k xs = x # r"
proof -
  let ?s = "sort_key k xs"
  have "?s \<noteq> []" using assms(1) by (metis empty_iff empty_set set_sort)
  then obtain y r where s: "?s = y # r" by (cases ?s) auto
  have "y = x"
  proof (rule ccontr)
    assume "y \<noteq> x"
    have "set ?s = set xs" by simp
    then have y: "y \<in> set xs" "x \<in> set (y # r)" using s assms(1) by auto
    have "sorted (map k (y # r))" using sorted_sort_key[of k xs] s by simp
    then have "k y \<le> k x" using y(2) by auto
    then show False using assms(2)[OF y(1) \<open>y \<noteq> x\<close>] by simp
  qed
  then show ?thesis using s by blast
qed

lemma gc_keeps_stamped:
  assumes "cache_ok c" "map_of c sid = Some s" "cs_updatedAt s = now"
    and "\<And>i t. (i, t) \<in> set c \<Longrightarrow> i \<noteq> sid \<Longrightarrow> cs_updatedAt t < now"
  shows "map_of (gc_sessions c) sid = Some s"
proof -
  have d: "distinct (map fst c)" using assms(1) by (simp add: cache_ok_def)
  have m: "(sid, s) \<in> set c" using assms(2) by (rule map_of_SomeD)
  let ?k = "\<lambda>(i, s). - cs_updatedAt s"
  have lt: "?k (sid, s) < ?k y" if "y \<in> set c" "y \<noteq> (sid, s)" for y
  proof (cases y)
    case (Pair i t)
    then have "i \<noteq> sid" using that m d by (metis eq_key_imp_eq_value)
    then show ?thesis using assms(3,4) that(1) Pair by force
  qed
  obtain r where r: "sort_key ?k c = (sid, s) # r"
    using head_of_sorted[of "(sid, s)" c ?k] m lt by blast
  have "(sid, s) \<in> set (gc_sessions c)"
    using m r by (simp add: gc_sessions_def CACHE_MAX_SESSIONS_def)
  then show ?thesis using gc_distinct[OF d] by (simp add: map_of_eq_Some_iff)
qed

lemma fresh_loop_set: "set (fresh_loop known fs) \<subseteq> set fs"
  by (induction fs arbitrary: known) auto

lemma dedupe_subset: "set (fst (dedupeAgainstCache now fs sid f c)) \<subseteq> set fs"
  unfolding fst_dedupe by (rule fresh_loop_set)

end
