(* ===== verification/HookRender.thy ===== *)
theory HookRender
  imports HookCache
begin

text \<open>
  The texts the hook puts before the agent (\<open>hook-lib.mjs\<close>): the list of findings of one file
  or of several, cut to the limits of the configuration, with the command that waives a finding,
  and the two short acknowledgements. The lemmas bound the length of a list and the number of
  findings it shows.

  The ellipsis (U+2026) and the em dash (U+2014) of the source are one code unit each; the model
  writes them as the characters 0x85 and 0x97, their places in the Windows code page. A finding
  whose description or name is a truthy value without a \<open>trim\<close> method makes the rendering throw;
  that is the result \<open>None\<close>. The limits are numbers, of which the code uses the integer part
  only: a text has an integral length, and \<open>slice\<close> cuts its arguments down.
\<close>

section \<open>Helpers\<close>

definition ellipsis :: char where "ellipsis = CHR 0x85"
definition em_dash :: char where "em_dash = CHR 0x97"

text \<open>The integer part of a positive number.\<close>

definition floor_of :: "jsval \<Rightarrow> int" where
  "floor_of v = (case v of JInt i \<Rightarrow> i | JDec m e \<Rightarrow> m div 10 ^ e | _ \<Rightarrow> 0)"

definition relativize :: "string \<Rightarrow> string \<Rightarrow> string" where
  "relativize filePath cwd =
     (let rel = path_relative cwd filePath in
      if rel = [] \<or> starts_with rel ''..'' then filePath else rel)"

definition arg_char :: "char \<Rightarrow> bool" where
  "arg_char c \<longleftrightarrow> is_alpha c \<or> is_digit c \<or> c \<in> set ''._:-''"

definition quoteCommandArg :: "jsval \<Rightarrow> string" where
  "quoteCommandArg v =
     (let t = trim (str_or_empty v) in
      if t \<noteq> [] \<and> list_all arg_char t then t
      else [CHR 0x22] @
        concat (map (\<lambda>c. if c = CHR 0x5C then [CHR 0x5C, CHR 0x5C]
                         else if c = CHR 0x22 then [CHR 0x5C, CHR 0x22] else [c]) t) @ [CHR 0x22])"

section \<open>One finding\<close>

definition formatFindingIgnoreCommand :: "jsval \<Rightarrow> string" where
  "formatFindingIgnoreCommand finding =
     (if \<not> truthy finding \<or> \<not> typeof_object finding then []
      else let rule = finding_rule finding in
        if rule = [] \<or> extractFindingIgnoreValue finding = [] then []
        else let v = extractFindingIgnoreValueRaw finding rule;
                 reason = quoteCommandArg (JStr (''User confirmed '' @ v @ '' is intentional''))
             in ''/impeccable hooks ignore-value '' @ rule @ '' '' @ quoteCommandArg (JStr v) @
                '' --shared --reason '' @ reason)"

text \<open>\<open>(v || '').trim()\<close> does not throw.\<close>

definition trimmable :: "jsval \<Rightarrow> bool" where
  "trimmable v \<longleftrightarrow> \<not> truthy v \<or> is_string v"

definition printable_finding :: "jsval \<Rightarrow> bool" where
  "printable_finding f \<longleftrightarrow>
     trimmable (get_prop f ''description'') \<and> trimmable (get_prop f ''name'')"

definition trailing_dots_re :: re where
  "trailing_dots_re = RSeqs [RPlus (RChr CHR ''.''), RStar RSp, REol]"

definition formatFindingLine :: "jsval \<Rightarrow> string" where
  "formatFindingLine f =
     (let line = get_prop f ''line'';
          pre = (if truthy line \<and> js_pos line then ''- L'' @ to_str line else ''-'');
          desc = trim (str_or_empty (get_prop f ''description''));
          name = trim (str_or_empty (get_prop f ''name''));
          nameSegment = (if name \<noteq> [] then re_replace trailing_dots_re (\<lambda>_. []) name @ ''.'' else []);
          ignoreCommand = formatFindingIgnoreCommand f;
          ignoreSegment = (if ignoreCommand \<noteq> []
            then '' If the user explicitly confirms this value is intentional: `'' @ ignoreCommand @ ''`.'' else [])
      in trim (re_replace_all (RPlus RSp) (\<lambda>_. '' '')
           (pre @ '' ['' @ to_str (get_prop f ''antipattern'') @ ''] '' @ nameSegment @ '' '' @ desc @ ignoreSegment)))"

section \<open>The footer\<close>

definition directiveFooter :: "string \<Rightarrow> bool \<Rightarrow> string" where
  "directiveFooter display grouped =
     (let ignoreFileCommand = ''/impeccable hooks ignore-file '' @ quoteCommandArg (JStr display);
          fileIgnoreGuidance = (if grouped
            then ''run `/impeccable hooks ignore-file <path>` for the specific file''
            else ''run `'' @ ignoreFileCommand @ ''`'')
      in join newline
        [''Handle these before finalizing: fix findings that are real design problems, or explicitly classify contextually intentional findings as false positives. Acknowledge what you changed or why you are leaving a finding unchanged.'',
         '''',
         ''Use context judgment before editing. A finding is not automatically a defect; literal or domain-appropriate motion, intentional demos or fixtures, documentation of bad design, and user-confirmed choices can be valid as-is.'',
         '''',
         ''Do not change intentional design just to satisfy the hook, and do not silence a real finding with an inline ignore comment to skip fixing it. Suppress a finding only after the user explicitly confirms it is intentional. Prefer a config ignore (one reviewable place, the commands below); reach for an inline `impeccable-disable <rule>` comment only when the waiver must travel with a file that leaves the repo, such as an exported or standalone document. Prefer the narrowest persisted exception: run the exact `/impeccable hooks ignore-value ... --shared` command shown next to a value-specific finding. For `overused-font`, use `ignore-value` for a specific font and use `/impeccable hooks ignore-rule overused-font --all-values` only when the user asks to ignore overused fonts generally. For file-specific findings without an ignore-value command, '' @
         fileIgnoreGuidance @
         ''; use `/impeccable hooks ignore-rule <id>` only when the user asks to suppress the whole non-value-specific rule. Run /impeccable audit for the full pass.''])"

section \<open>Cutting to the budget\<close>

definition audit_more :: string where
  "audit_more = ''... and more (see /impeccable audit).''"

definition cut_text :: "nat \<Rightarrow> string \<Rightarrow> string" where
  "cut_text maxChars t = (if maxChars < length t then take (maxChars - 1) t @ [ellipsis] else t)"

definition assemble_grouped :: "string \<Rightarrow> string \<Rightarrow> string list \<Rightarrow> bool \<Rightarrow> string" where
  "assemble_grouped header footer lines omitted =
     join newline ([header] @ lines @ (if omitted then [audit_more] else []) @ ['''', footer])"

text \<open>The loops drop the last line until the text fits or one line is left.\<close>

function grouped_loop :: "string \<Rightarrow> string \<Rightarrow> nat \<Rightarrow> string list \<Rightarrow> bool \<Rightarrow> string" where
  "grouped_loop header footer maxChars working omitted =
     (if maxChars < length (assemble_grouped header footer working omitted) \<and> 1 < length working
      then grouped_loop header footer maxChars (butlast working) True
      else assemble_grouped header footer working omitted)"
  by pat_completeness auto
termination by (relation "measure (\<lambda>(h, f, m, w, b). length w)") auto

declare grouped_loop.simps [simp del]

definition clampGroupedToBudget :: "string \<Rightarrow> string list \<Rightarrow> string \<Rightarrow> nat \<Rightarrow> string" where
  "clampGroupedToBudget header lines footer maxChars =
     cut_text maxChars (grouped_loop header footer maxChars lines False)"

definition assemble_lines :: "string \<Rightarrow> string \<Rightarrow> string list \<Rightarrow> string option \<Rightarrow> string" where
  "assemble_lines header footer lines moreText =
     join newline ([header] @ lines @ (case moreText of Some t \<Rightarrow> [t] | None \<Rightarrow> []) @ ['''', footer])"

function clamp_loop :: "string \<Rightarrow> string \<Rightarrow> nat \<Rightarrow> string list \<Rightarrow> string option \<Rightarrow> string" where
  "clamp_loop header footer maxChars working moreText =
     (if maxChars < length (assemble_lines header footer working moreText) \<and> 1 < length working
      then clamp_loop header footer maxChars (butlast working) (Some audit_more)
      else assemble_lines header footer working moreText)"
  by pat_completeness auto
termination by (relation "measure (\<lambda>(h, f, m, w, b). length w)") auto

declare clamp_loop.simps [simp del]

definition clampToBudget :: "string \<Rightarrow> string list \<Rightarrow> string option \<Rightarrow> string \<Rightarrow> nat \<Rightarrow> string" where
  "clampToBudget header lines moreText footer maxChars =
     cut_text maxChars (clamp_loop header footer maxChars lines moreText)"

section \<open>The lists of findings\<close>

definition cap_of :: "hook_config \<Rightarrow> nat" where
  "cap_of c = nat (max 1 (floor_of (js_or (hc_maxFindings c) (JInt 5))))"

definition max_chars_of :: "hook_config \<Rightarrow> nat" where
  "max_chars_of c = nat (max 500 (floor_of (js_or (hc_maxChars c) (JInt 8000))))"

text \<open>A text that is cut only when it does not fit.\<close>

definition fit_lines :: "string \<Rightarrow> string list \<Rightarrow> string option \<Rightarrow> string \<Rightarrow> nat \<Rightarrow> string" where
  "fit_lines header lines moreText footer maxChars =
     (let t = assemble_lines header footer lines moreText
      in if maxChars < length t then clampToBudget header lines moreText footer maxChars else t)"

definition fit_grouped :: "string \<Rightarrow> string list \<Rightarrow> string \<Rightarrow> nat \<Rightarrow> string" where
  "fit_grouped header lines footer maxChars =
     (let t = assemble_grouped header footer lines False
      in if maxChars < length t then clampGroupedToBudget header lines footer maxChars else t)"

definition renderTemplate :: "jsval list \<Rightarrow> string \<Rightarrow> hook_config \<Rightarrow> string \<Rightarrow> string option" where
  "renderTemplate findings filePath config cwd =
     (if findings = [] then Some []
      else
        let cap = cap_of config; maxChars = max_chars_of config;
            display = relativize filePath cwd;
            total = length findings;
            shown = take cap findings;
            remaining = total - length shown;
            header = ENVELOPE_PREFIX @ '' Design hook findings requiring review in '' @ display @
              '' ('' @ nat_digits total @ '' issue(s)):'';
            lines = map formatFindingLine shown;
            moreText = (if 0 < remaining
                    then Some (''... and '' @ nat_digits remaining @ '' more (see /impeccable audit).'') else None);
            footer = directiveFooter display False
        in if \<not> list_all printable_finding shown then None
           else Some (fit_lines header lines moreText footer maxChars))"

text \<open>A group is a file with its findings.\<close>

type_synonym group = "string \<times> jsval list"

text \<open>The loop over the groups; \<open>None\<close> when a finding cannot be printed.\<close>

fun group_lines :: "string \<Rightarrow> nat \<Rightarrow> nat \<Rightarrow> group list \<Rightarrow> string list option" where
  "group_lines cwd maxFindings shownCount [] = Some []"
| "group_lines cwd maxFindings shownCount ((filePath, findings) # gs) =
     (let display = relativize filePath cwd;
          shown = take (maxFindings - shownCount) findings;
          hidden = length findings - length shown
      in if \<not> list_all printable_finding shown then None
         else map_option (\<lambda>ls.
           [display @ '' ('' @ nat_digits (length findings) @ '' issue(s)):''] @
           map formatFindingLine shown @
           (if 0 < hidden then [''- ... '' @ nat_digits hidden @ '' more in '' @ display @ '' (see /impeccable audit).'']
            else []) @ ls) (group_lines cwd maxFindings (shownCount + length shown) gs))"

definition renderGroupedTemplate :: "group list \<Rightarrow> hook_config \<Rightarrow> string \<Rightarrow> string option" where
  "renderGroupedTemplate groups config cwd =
     (case filter (\<lambda>(f, fs). fs \<noteq> []) groups of
        [] \<Rightarrow> Some []
      | [(filePath, findings)] \<Rightarrow> renderTemplate findings filePath config cwd
      | realGroups \<Rightarrow>
          let cap = cap_of config; maxChars = max_chars_of config;
              total = sum_list (map (\<lambda>(f, fs). length fs) realGroups);
              header = ENVELOPE_PREFIX @ '' Design hook findings requiring review across '' @
                nat_digits (length realGroups) @ '' files ('' @ nat_digits total @ '' issue(s)):'';
              footer = directiveFooter ''the affected files'' True
          in map_option (\<lambda>lines. fit_grouped header lines footer maxChars) (group_lines cwd cap 0 realGroups))"

section \<open>Acknowledgements\<close>

definition STEER_LINE :: string where
  "STEER_LINE = ''That does not mean the design is good: keep following the project design system and the impeccable skill guidance.''"

definition renderCleanAck :: "string \<Rightarrow> string \<Rightarrow> string" where
  "renderCleanAck filePath cwd =
     ENVELOPE_PREFIX @ '' Design hook scanned '' @ relativize filePath cwd @
     ''. No deterministic design-quality issues found. '' @ STEER_LINE"

definition renderPendingAck :: "string \<Rightarrow> string list \<Rightarrow> string \<Rightarrow> string" where
  "renderPendingAck filePath knownFindings cwd =
     (let count = length knownFindings;
          sample = join '', '' (take 3 knownFindings);
          moreText = (if 3 < count then '', +'' @ nat_digits (count - 3) @ '' more'' else [])
      in ENVELOPE_PREFIX @ '' Design hook scanned '' @ relativize filePath cwd @ ''. Still has '' @ nat_digits count @
         '' finding(s) flagged earlier this session ('' @ sample @ moreText @ ''). Handle them before finalizing '' @
         [em_dash] @ '' the previous reminder still applies.'')"

definition shouldEmitAckForFile :: "string \<Rightarrow> bool" where
  "shouldEmitAckForFile filePath \<longleftrightarrow> to_lower (path_extname filePath) \<in> set ACK_EXTS"

definition design_note :: string where
  "design_note = newline @ newline @ ENVELOPE_PREFIX @
     '' DESIGN.md is newer than .impeccable/design.json. Run /impeccable document to refresh the design-system sidecar.''"

definition appendDesignSystemNote :: "string \<Rightarrow> jsval \<Rightarrow> string" where
  "appendDesignSystemNote t scanOptions =
     (if t = [] \<or> \<not> truthy (get_prop (get_prop scanOptions ''designSystem'') ''mdNewerThanJson'')
      then t else t @ design_note)"

section \<open>Lemmas\<close>

lemma cut_text_length: "1 \<le> n \<Longrightarrow> length (cut_text n t) \<le> n"
  by (simp add: cut_text_def)

lemma max_chars_pos: "500 \<le> max_chars_of c"
  by (simp add: max_chars_of_def)

lemma fit_length: "1 \<le> n \<Longrightarrow> length (fit_lines h ls moreText f n) \<le> n" "1 \<le> n \<Longrightarrow> length (fit_grouped h ls f n) \<le> n"
  by (simp_all add: fit_lines_def fit_grouped_def Let_def clampToBudget_def clampGroupedToBudget_def cut_text_length)

lemma renderTemplate_length:
  assumes "renderTemplate findings filePath c cwd = Some t"
  shows "length t \<le> max_chars_of c"
proof -
  have "t = [] \<or> (\<exists>h ls moreText f. t = fit_lines h ls moreText f (max_chars_of c))"
    using assms unfolding renderTemplate_def Let_def by (metis option.distinct(1) option.inject)
  then show ?thesis using fit_length(1) max_chars_pos[of c] by auto
qed

text \<open>No list of findings is longer than the limit of the configuration.\<close>

lemma rendered_length:
  assumes "renderGroupedTemplate groups c cwd = Some t"
  shows "length t \<le> max_chars_of c"
proof -
  let ?gs = "filter (\<lambda>(f, fs). fs \<noteq> []) groups"
  consider "?gs = []" | f fs where "?gs = [(f, fs)]" | g h r where "?gs = g # h # r"
    by (metis list.exhaust surj_pair)
  then show ?thesis
  proof cases
    case 1
    then show ?thesis using assms by (simp add: renderGroupedTemplate_def)
  next
    case 2
    then show ?thesis using assms renderTemplate_length by (simp add: renderGroupedTemplate_def)
  next
    case 3
    obtain f fs where g: "g = (f, fs)" by (cases g)
    have "\<exists>h ls f. t = fit_grouped h ls f (max_chars_of c)"
      using assms unfolding renderGroupedTemplate_def 3 g Let_def list.case prod.case map_option_eq_Some by metis
    then show ?thesis using fit_length(2) max_chars_pos[of c] by auto
  qed
qed

text \<open>The closing line of the part kept: the loop's own once it has dropped a line.\<close>

definition kept_more :: "string list \<Rightarrow> string option \<Rightarrow> nat \<Rightarrow> string option" where
  "kept_more ls moreText n = (if n = length ls then moreText else Some audit_more)"

text \<open>C40: The cut of a message to the character limit drops whole findings from the end and no more than it
  must: what it keeps is the longest beginning of the list that fits, or a single finding when not even
  two fit; header and footer always stay.\<close>

theorem clamp_keeps_longest:
  "\<exists>n \<le> length ls. clamp_loop header footer m ls moreText =
       assemble_lines header footer (take n ls) (kept_more ls moreText n) \<and>
     (ls = [] \<or> 1 \<le> n) \<and>
     (n \<le> 1 \<or> length (assemble_lines header footer (take n ls) (kept_more ls moreText n)) \<le> m) \<and>
     (\<forall>k. n < k \<and> k \<le> length ls \<longrightarrow>
        m < length (assemble_lines header footer (take k ls) (kept_more ls moreText k)))"
proof (induction "length ls" arbitrary: ls moreText)
  case 0
  then show ?case by (intro exI[of _ 0]) (simp add: clamp_loop.simps[of _ _ _ "[]"] kept_more_def)
next
  case (Suc j)
  let ?A = "\<lambda>ls om. length (assemble_lines header footer ls om)"
  show ?case
  proof (cases "m < ?A ls moreText \<and> 1 < length ls")
    case False
    then show ?thesis
      by (intro exI[of _ "length ls"]) (auto simp: clamp_loop.simps[of _ _ _ ls] kept_more_def Suc_le_eq)
  next
    case True
    have e: "take k (butlast ls) = take k ls" if "k \<le> length (butlast ls)" for k
      using that by (cases "k = 0") (simp_all add: butlast_conv_take take_take min_absorb1)
    have km: "kept_more (butlast ls) (Some audit_more) k = Some audit_more" for k
      by (simp add: kept_more_def)
    have len: "j = length (butlast ls)" using Suc(2) by simp
    have ne: "butlast ls \<noteq> []" using True by (cases ls rule: rev_cases) auto
    obtain n where n0: "n \<le> length (butlast ls)"
      "clamp_loop header footer m (butlast ls) (Some audit_more) =
         assemble_lines header footer (take n (butlast ls)) (Some audit_more)"
      "butlast ls = [] \<or> 1 \<le> n" "n \<le> 1 \<or> ?A (take n (butlast ls)) (Some audit_more) \<le> m"
      "\<forall>k. n < k \<and> k \<le> length (butlast ls) \<longrightarrow> m < ?A (take k (butlast ls)) (Some audit_more)"
      using Suc(1)[OF len, of "Some audit_more"] unfolding km by blast
    have n: "n \<le> length (butlast ls)"
      "clamp_loop header footer m (butlast ls) (Some audit_more) =
         assemble_lines header footer (take n ls) (Some audit_more)"
      "ls = [] \<or> 1 \<le> n" "n \<le> 1 \<or> ?A (take n ls) (Some audit_more) \<le> m"
      "\<forall>k. n < k \<and> k \<le> length (butlast ls) \<longrightarrow> m < ?A (take k ls) (Some audit_more)"
      using n0 e ne by metis+
    have kn: "kept_more ls moreText k = Some audit_more" if "k \<le> length (butlast ls)" for k
      using that Suc(2) by (auto simp: kept_more_def)
    have "m < ?A (take k ls) (kept_more ls moreText k)" if "n < k" "k \<le> length ls" for k
    proof (cases "k = length ls")
      case k: True
      then show ?thesis using True by (simp add: kept_more_def)
    next
      case False
      then have "k \<le> length (butlast ls)" using that by simp
      then show ?thesis using n(5) that kn by simp
    qed
    then show ?thesis
      using n kn[OF n(1)] True by (intro exI[of _ n]) (auto simp: clamp_loop.simps[of _ _ _ ls])
  qed
qed

text \<open>A list for several files shows at most \<open>maxFindings\<close> findings, beside two lines per file.\<close>

lemma group_lines_length:
  "group_lines cwd m k gs = Some ls \<Longrightarrow> length ls \<le> 2 * length gs + (m - k)"
proof (induction gs arbitrary: k ls)
  case (Cons g gs)
  obtain f fs where g: "g = (f, fs)" by (cases g)
  let ?sh = "take (m - k) fs"
  obtain r where r: "group_lines cwd m (k + length ?sh) gs = Some r"
    "length ls \<le> 1 + length ?sh + 1 + length r"
    using Cons(2) by (auto simp: g Let_def split: if_splits)
  have "length r \<le> 2 * length gs + (m - (k + length ?sh))" using Cons(1) r(1) by blast
  moreover have "length ?sh \<le> m - k" by simp
  ultimately show ?case using r(2) by simp
qed simp

theorem clamp_keeps_longest_witness:
  "clamp_loop ''Findings'' ''Fix'' 40 [''line one of two'', ''line two of two''] None =
     assemble_lines ''Findings'' ''Fix'' [''line one of two''] (Some audit_more)"
proof -
  let ?ls = "[''line one of two'', ''line two of two'']"
  obtain n where n: "n \<le> length ?ls" "clamp_loop ''Findings'' ''Fix'' 40 ?ls None =
      assemble_lines ''Findings'' ''Fix'' (take n ?ls) (kept_more ?ls None n)" "?ls = [] \<or> 1 \<le> n"
    "n \<le> 1 \<or> length (assemble_lines ''Findings'' ''Fix'' (take n ?ls) (kept_more ?ls None n)) \<le> 40"
    using clamp_keeps_longest[of ?ls "''Findings''" "''Fix''" 40 None] by blast
  have "40 < length (assemble_lines ''Findings'' ''Fix'' (take 2 ?ls) (kept_more ?ls None 2))"
    by (simp add: assemble_lines_def kept_more_def newline_def)
  then have "n \<noteq> 2" using n(4) by auto
  then have "n = 1" using n(1,3) by auto
  then show ?thesis using n(2) by (simp add: kept_more_def)
qed

end
