(* ===== verification/HookEvents.thy ===== *)
theory HookEvents
  imports HookRender
begin

text \<open>
  How the hook finds out what was edited (\<open>hook-lib.mjs\<close>): which agent harness called, the event
  in one common shape, the files named by the event or by a patch, and the style sheets scanned
  along with a component. The lemmas bound the number of files and say where they come from.

  The event is the JSON value of the standard input. Working directories and the files of an event
  are absolute paths or are made so.
\<close>

section \<open>Files of a patch\<close>

definition APPLY_PATCH_FILE_RE :: re where
  "APPLY_PATCH_FILE_RE =
     RSeqs [RBolM, RLit ''*** '', RAlt (RLit ''Update'') (RLit ''Add''), RLit '' File: '',
       RGrp 1 (RPlus RAny), REolM]"

definition parseApplyPatchPaths :: "string \<Rightarrow> string \<Rightarrow> string list" where
  "parseApplyPatchPaths command projectCwd =
     map (\<lambda>p. if is_absolute p then p else path_resolve projectCwd p)
       (filter (\<lambda>p. p \<noteq> []) (map (\<lambda>m. trim (cap1 m)) (re_match_all APPLY_PATCH_FILE_RE command)))"

text \<open>\<open>add\<close>: strings only, no empty one, none twice.\<close>

definition add_path :: "jsval \<Rightarrow> string list \<Rightarrow> string list" where
  "add_path v out =
     (case v of JStr p \<Rightarrow> if p = [] \<or> p \<in> set out then out else out @ [p] | _ \<Rightarrow> out)"

definition resolveTargetFiles :: "jsval \<Rightarrow> string \<Rightarrow> string list" where
  "resolveTargetFiles event projectCwd =
     (let ti = get_prop event ''tool_input'';
          out1 = (if get_prop event ''tool_name'' = JStr ''apply_patch'' \<and> is_string (get_prop ti ''command'')
                  then fold add_path
                    (map JStr (parseApplyPatchPaths (to_str (get_prop ti ''command'')) projectCwd)) []
                  else [])
      in add_path (get_prop event ''file_path'')
           (add_path (get_prop ti ''path'') (add_path (get_prop ti ''file_path'') out1)))"

section \<open>The harness\<close>

definition resolveHarness :: "env \<Rightarrow> jsval \<Rightarrow> string" where
  "resolveHarness env event =
     (let explicit = env ''IMPECCABLE_HOOK_HARNESS'' in
      if explicit = Some ''cursor'' then ''cursor''
      else if explicit = Some ''github'' then ''github''
      else if explicit = Some ''claude'' \<or> explicit = Some ''codex'' then ''claude''
      else if truthy event \<and> typeof_object event \<and>
              (is_string (get_prop event ''toolName'') \<or> get_prop event ''toolArgs'' \<noteq> JUndef) \<and>
              get_prop event ''tool_name'' = JUndef \<and> get_prop event ''tool_input'' = JUndef
           then ''github''
      else if is_string (get_prop event ''conversation_id'') \<and> truthy (get_prop event ''conversation_id'')
           then ''cursor''
      else ''claude'')"

definition parseGitHubToolArgs :: "jsval \<Rightarrow> jsval" where
  "parseGitHubToolArgs toolArgs =
     (if plain_object toolArgs then toolArgs
      else if nonblank toolArgs
      then (case json_parse (to_str toolArgs) of
              Some parsed \<Rightarrow> if plain_object parsed then parsed else JObj []
            | None \<Rightarrow> JObj [])
      else JObj [])"

definition APPLY_PATCH_MARKER :: re where
  "APPLY_PATCH_MARKER =
     RSeqs [RLit ''*** '', RAlts [RLit ''Begin Patch'', RLit ''Add File:'', RLit ''Update File:'', RLit ''Delete File:'']]"

definition looksLikeApplyPatch :: "jsval \<Rightarrow> bool" where
  "looksLikeApplyPatch rawArgs \<longleftrightarrow>
     is_string rawArgs \<and> re_test APPLY_PATCH_MARKER (to_str rawArgs) \<and>
     \<not> (case json_parse (to_str rawArgs) of Some parsed \<Rightarrow> truthy parsed \<and> typeof_object parsed | None \<Rightarrow> False)"

definition patch_field :: "jsval \<Rightarrow> jsval" where
  "patch_field v =
     js_or (get_prop v ''patch'') (js_or (get_prop v ''input'') (js_or (get_prop v ''command'') (JStr [])))"

definition applyPatchText :: "jsval \<Rightarrow> jsval" where
  "applyPatchText rawArgs =
     (if is_string rawArgs
      then (if re_test APPLY_PATCH_MARKER (to_str rawArgs) then rawArgs
            else patch_field (parseGitHubToolArgs rawArgs))
      else if plain_object rawArgs then patch_field rawArgs
      else JStr [])"

text \<open>The working directory of an event.\<close>

definition event_cwd :: "env \<Rightarrow> jsval \<Rightarrow> string \<Rightarrow> jsval" where
  "event_cwd env event projectCwd =
     js_or (get_prop event ''cwd'') (js_or (envProjectDir env (JStr projectCwd)) (JStr projectCwd))"

definition normalizeGitHubEvent :: "env \<Rightarrow> jsval \<Rightarrow> string \<Rightarrow> jsval" where
  "normalizeGitHubEvent env event projectCwd =
     (let cwd = event_cwd env event projectCwd;
          sessionId = js_or (get_prop event ''sessionId'') (js_or (get_prop event ''session_id'') (JStr ''unknown''));
          toolName = js_or (get_prop event ''toolName'') (js_or (get_prop event ''tool_name'') JNull);
          ti = get_prop event ''tool_input'';
          toolInput = JObj (if truthy ti \<and> typeof_object ti then obj_fields ti else []);
          rawArgs = get_prop event ''toolArgs'';
          (name, input) =
            (if toolName = JStr ''apply_patch'' \<or> looksLikeApplyPatch rawArgs
             then let patch = applyPatchText rawArgs in
               if truthy patch then (JStr ''apply_patch'', set_prop toolInput ''command'' patch)
               else (toolName, toolInput)
             else let args = parseGitHubToolArgs rawArgs;
                      filePath = js_or (get_prop args ''path'') (js_or (get_prop args ''file_path'')
                        (js_or (get_prop args ''filePath'') (get_prop args ''target_file'')))
               in if is_string filePath \<and> truthy filePath
                  then (toolName, set_prop toolInput ''file_path'' filePath) else (toolName, toolInput))
      in spread event (JObj [(''cwd'', cwd), (''session_id'', sessionId), (''tool_name'', name), (''tool_input'', input)]))"

definition normalizeHookEvent :: "env \<Rightarrow> jsval \<Rightarrow> string \<Rightarrow> string \<Rightarrow> jsval" where
  "normalizeHookEvent env event projectCwd harness =
     (if \<not> truthy event \<or> \<not> typeof_object event then event
      else if harness = ''github'' then normalizeGitHubEvent env event projectCwd
      else if harness \<noteq> ''cursor'' then event
      else
        let cwd = js_or (get_prop event ''cwd'') (js_or (first_elem (get_prop event ''workspace_roots''))
                    (js_or (envProjectDir env (JStr projectCwd)) (JStr projectCwd)));
            sessionId = js_or (get_prop event ''session_id'')
                          (js_or (get_prop event ''conversation_id'') (JStr ''unknown''));
            ti0 = get_prop event ''tool_input'';
            ti = (if truthy ti0 \<and> typeof_object ti0 then ti0 else JObj []);
            filePath = js_or (get_prop ti ''file_path'') (js_or (get_prop ti ''path'') (get_prop event ''file_path''))
        in if truthy filePath
           then spread event (JObj [(''cwd'', cwd), (''session_id'', sessionId),
                  (''tool_input'', spread ti (JObj [(''file_path'', filePath)]))])
           else spread event (JObj [(''cwd'', cwd), (''session_id'', sessionId)]))"

section \<open>Files scanned along\<close>

definition UI_CODE_EXTS :: "string list" where
  "UI_CODE_EXTS = [''.jsx'', ''.tsx'', ''.vue'', ''.svelte'', ''.astro'']"

definition STYLE_EXTS :: "string list" where
  "STYLE_EXTS = [''.css'', ''.scss'', ''.sass'', ''.less'']"

definition CO_SCAN_STYLE_NAMES :: "string list" where
  "CO_SCAN_STYLE_NAMES =
     [''styles.css'', ''styles.scss'', ''styles.sass'', ''styles.less'',
      ''index.css'', ''index.scss'', ''index.sass'', ''index.less'',
      ''global.css'', ''global.scss'', ''global.sass'', ''global.less'',
      ''globals.css'', ''globals.scss'', ''globals.sass'', ''globals.less'']"

definition MAX_SCAN_TARGETS :: nat where "MAX_SCAN_TARGETS = 6"

definition STATIC_STYLE_IMPORT_RE :: re where
  "STATIC_STYLE_IMPORT_RE =
     (let q = ROneOf [CHR 0x27, CHR 0x22] in
      RSeqs [RLitI ''import'', RPlus RSp,
        ROpt (RSeqs [RPlus (RCls (\<lambda>c. is_word c \<or> is_space c \<or> c \<in> set ''*{},$'')), RPlus RSp, RLitI ''from'', RPlus RSp]),
        q, RGrp 1 (RSeqs [RPlus (RNot [CHR 0x27, CHR 0x22]), RChr CHR ''.'',
             RAlts [RLitI ''css'', RLitI ''scss'', RLitI ''sass'', RLitI ''less'']]), q])"

definition hasPathTraversal :: "string \<Rightarrow> bool" where
  "hasPathTraversal filePath \<longleftrightarrow> str_includes filePath ''..''"

definition isInsideProject :: "string \<Rightarrow> string \<Rightarrow> bool" where
  "isInsideProject filePath projectCwd \<longleftrightarrow>
     filePath \<noteq> [] \<and> projectCwd \<noteq> [] \<and> \<not> hasPathTraversal filePath \<and>
     (let rel = path_relative projectCwd filePath
      in rel = [] \<or> (\<not> starts_with rel ''..'' \<and> \<not> is_absolute rel))"

definition style_import_path :: "string \<Rightarrow> string \<Rightarrow> string \<Rightarrow> string" where
  "style_import_path fromFile projectCwd p =
     (if starts_with p ''.'' then path_resolve (path_dirname fromFile) p
      else if is_absolute p then p else path_resolve projectCwd p)"

definition parseStaticStyleImports :: "string \<Rightarrow> string \<Rightarrow> string \<Rightarrow> string list" where
  "parseStaticStyleImports content fromFile projectCwd =
     filter (\<lambda>p. isInsideProject p projectCwd)
       (map (style_import_path fromFile projectCwd)
         (filter (\<lambda>p. p \<noteq> []) (map (\<lambda>m. trim (cap1 m)) (re_match_all STATIC_STYLE_IMPORT_RE content))))"

definition path_stem :: "string \<Rightarrow> string" where
  "path_stem p = (let b = path_basename p in take (length b - length (path_extname p)) b)"

definition style_names :: "string \<Rightarrow> string list" where
  "style_names base =
     map (\<lambda>e. base @ e) [''.css'', ''.module.css'', ''.scss'', ''.module.scss'', ''.sass'', ''.module.sass'',
       ''.less'', ''.module.less''] @ CO_SCAN_STYLE_NAMES"

definition coLocatedStylesheets :: "fs \<Rightarrow> string \<Rightarrow> string list" where
  "coLocatedStylesheets fs filePath =
     filter (existsSync fs) (uniq (map (path_join (path_dirname filePath)) (style_names (path_stem filePath))))"

definition normalizeTarget :: "string \<Rightarrow> string \<Rightarrow> string" where
  "normalizeTarget baseCwd p =
     (if hasPathTraversal p then p else if is_absolute p then p else path_resolve baseCwd p)"

definition add_target :: "string \<Rightarrow> string \<Rightarrow> string list \<Rightarrow> string list" where
  "add_target baseCwd p ordered =
     (if MAX_SCAN_TARGETS \<le> length ordered then ordered
      else let ab = normalizeTarget baseCwd p in if ab \<in> set ordered then ordered else ordered @ [ab])"

definition normalizeScanTargets :: "string list \<Rightarrow> string \<Rightarrow> string list" where
  "normalizeScanTargets primaryTargets projectCwd = fold (add_target projectCwd) primaryTargets []"

text \<open>
  What one primary target adds. The \<open>break\<close>s of the source leave the loops once there are
  \<open>MAX_SCAN_TARGETS\<close> targets, from where on \<open>add_target\<close> adds nothing.
\<close>

definition companions :: "fs \<Rightarrow> string \<Rightarrow> string \<Rightarrow> string list" where
  "companions fs projectCwd p =
     (let ext = to_lower (path_extname p) in
      if \<not> isInsideProject p projectCwd \<or> ext \<in> set STYLE_EXTS \<or> ext \<notin> set UI_CODE_EXTS then []
      else parseStaticStyleImports (case readFileSync fs p of Some t \<Rightarrow> t | None \<Rightarrow> []) p projectCwd @
           coLocatedStylesheets fs p)"

definition expandScanTargets :: "fs \<Rightarrow> string list \<Rightarrow> string \<Rightarrow> string list" where
  "expandScanTargets fs primaryTargets projectCwd =
     (let ordered = normalizeScanTargets primaryTargets projectCwd
      in fold (\<lambda>p acc. fold (add_target projectCwd) (companions fs projectCwd p) acc) ordered ordered)"

section \<open>Lemmas\<close>

lemma fold_add_target:
  assumes "length acc \<le> MAX_SCAN_TARGETS" "distinct acc"
  shows "length (fold (add_target b) ps acc) \<le> MAX_SCAN_TARGETS \<and> distinct (fold (add_target b) ps acc) \<and>
    prefix acc (fold (add_target b) ps acc) \<and>
    set (fold (add_target b) ps acc) \<subseteq> set acc \<union> normalizeTarget b ` set ps"
  using assms
proof (induction ps arbitrary: acc)
  case (Cons p ps)
  let ?a = "add_target b p acc"
  have a: "length ?a \<le> MAX_SCAN_TARGETS" "distinct ?a" "prefix acc ?a" "set ?a \<subseteq> insert (normalizeTarget b p) (set acc)"
    using Cons.prems by (auto simp: add_target_def Let_def)
  have i: "length (fold (add_target b) ps ?a) \<le> MAX_SCAN_TARGETS" "distinct (fold (add_target b) ps ?a)"
    "prefix ?a (fold (add_target b) ps ?a)"
    "set (fold (add_target b) ps ?a) \<subseteq> set ?a \<union> normalizeTarget b ` set ps"
    using Cons.IH[OF a(1,2)] by blast+
  have "prefix acc (fold (add_target b) ps ?a)" using a(3) i(3) by (rule prefix_order.trans)
  moreover have "set (fold (add_target b) ps ?a) \<subseteq> set acc \<union> normalizeTarget b ` set (p # ps)"
    using i(4) a(4) by auto
  ultimately show ?case using i(1,2) by simp
qed simp

lemma fold_companions:
  assumes "length acc \<le> MAX_SCAN_TARGETS" "distinct acc"
  shows "length (fold (\<lambda>p acc. fold (add_target b) (g p) acc) ps acc) \<le> MAX_SCAN_TARGETS \<and>
    distinct (fold (\<lambda>p acc. fold (add_target b) (g p) acc) ps acc) \<and>
    prefix acc (fold (\<lambda>p acc. fold (add_target b) (g p) acc) ps acc) \<and>
    set (fold (\<lambda>p acc. fold (add_target b) (g p) acc) ps acc) \<subseteq> set acc \<union> (\<Union>p \<in> set ps. normalizeTarget b ` set (g p))"
  using assms
proof (induction ps arbitrary: acc)
  case (Cons p ps)
  let ?a = "fold (add_target b) (g p) acc" let ?r = "fold (\<lambda>p acc. fold (add_target b) (g p) acc) ps ?a"
  have f: "length ?a \<le> MAX_SCAN_TARGETS" "distinct ?a" "prefix acc ?a"
    "set ?a \<subseteq> set acc \<union> normalizeTarget b ` set (g p)"
    using fold_add_target[OF Cons.prems, of b "g p"] by blast+
  have i: "length ?r \<le> MAX_SCAN_TARGETS" "distinct ?r" "prefix ?a ?r"
    "set ?r \<subseteq> set ?a \<union> (\<Union>p \<in> set ps. normalizeTarget b ` set (g p))"
    using Cons.IH[OF f(1,2)] by blast+
  have "prefix acc ?r" using f(3) i(3) by (rule prefix_order.trans)
  moreover have "set ?r \<subseteq> set acc \<union> (\<Union>p \<in> set (p # ps). normalizeTarget b ` set (g p))"
    using f(4) i(4) by (simp only: list.set UN_insert) blast
  ultimately show ?case using i(1,2) by simp
qed simp

theorem scan_targets:
  "length (expandScanTargets fs ps cwd) \<le> 6"
  "distinct (expandScanTargets fs ps cwd)"
  "prefix (normalizeScanTargets ps cwd) (expandScanTargets fs ps cwd)"
  "set (expandScanTargets fs ps cwd) \<subseteq> set (normalizeScanTargets ps cwd) \<union>
     (\<Union>p \<in> set (normalizeScanTargets ps cwd). normalizeTarget cwd ` set (companions fs cwd p))"
proof -
  have n: "length (normalizeScanTargets ps cwd) \<le> MAX_SCAN_TARGETS" "distinct (normalizeScanTargets ps cwd)"
    using fold_add_target[of "[]" cwd ps] by (auto simp: normalizeScanTargets_def)
  note f = fold_companions[OF n, of cwd "companions fs cwd" "normalizeScanTargets ps cwd"]
  show "length (expandScanTargets fs ps cwd) \<le> 6"
    using f by (simp add: expandScanTargets_def Let_def MAX_SCAN_TARGETS_def)
  show "distinct (expandScanTargets fs ps cwd)"
    "prefix (normalizeScanTargets ps cwd) (expandScanTargets fs ps cwd)"
    "set (expandScanTargets fs ps cwd) \<subseteq> set (normalizeScanTargets ps cwd) \<union>
     (\<Union>p \<in> set (normalizeScanTargets ps cwd). normalizeTarget cwd ` set (companions fs cwd p))"
    using f by (simp_all add: expandScanTargets_def Let_def)
qed

end
