(* ===== verification/DesignHook.thy ===== *)
theory DesignHook
  imports HookEvents
begin

text \<open>
  The hook itself (\<open>runHook\<close> of \<open>hook-lib.mjs\<close> and \<open>hook.mjs\<close>): the guards, the scan of every
  target file, the choice of the one message the agent gets, and the audit log. The theorems state
  what the hook promises: it never fails, never looks at a sensitive or generated file, tells a
  finding as new at most once per session and file, stays silent when it is switched off, and its
  message is bounded.

  The detector is a parameter, as the source loads it from another package: \<open>detectText\<close>,
  \<open>detectHtml\<close> and \<open>loadDesignSystemForCwd\<close> may each be missing, and return \<open>None\<close> when they
  throw. Durations are left out of the audit entry. \<open>msg\<close> is the message of an exception of the
  JavaScript engine, should one be raised.
\<close>

record detector =
  det_text :: "(string \<Rightarrow> string \<Rightarrow> jsval \<Rightarrow> jsval option) option"
  det_html :: "(string \<Rightarrow> jsval \<Rightarrow> jsval option) option"
  det_design :: "(string \<Rightarrow> jsval option) option"

definition designSystemOptions :: "hook_config \<Rightarrow> detector \<Rightarrow> string \<Rightarrow> jsval" where
  "designSystemOptions config det projectCwd =
     (if \<not> dc_designSystem (hc_detection config) then JObj []
      else case det_design det of
        None \<Rightarrow> JObj []
      | Some load \<Rightarrow>
          (case load projectCwd of
             None \<Rightarrow> JObj []
           | Some designSystem \<Rightarrow>
               if truthy designSystem then JObj [(''designSystem'', designSystem)] else JObj []))"

section \<open>The scan\<close>

record scan =
  sc_cache :: cache
  sc_fresh :: "group list"
  sc_pending :: "(string \<times> string list) option"
  sc_clean :: "string option"
  sc_suppression :: "string option"
  sc_threw :: bool
  sc_lastSkip :: string
  sc_suppressedHit :: bool
  sc_audit :: jsval

definition skip_file :: "string \<Rightarrow> scan \<Rightarrow> scan" where
  "skip_file why s = s\<lparr>sc_lastSkip := why\<rparr>"

definition audit_set :: "string \<Rightarrow> jsval \<Rightarrow> scan \<Rightarrow> scan" where
  "audit_set k v s = s\<lparr>sc_audit := set_prop (sc_audit s) k v\<rparr>"

text \<open>The edit count of a primary file; \<open>Inl\<close>: the file is passed over from now on.\<close>

definition count_edit :: "int \<Rightarrow> string \<Rightarrow> string list \<Rightarrow> string \<Rightarrow> scan \<Rightarrow> scan + scan" where
  "count_edit now sid primaries filePath s =
     (if filePath \<notin> set primaries then Inr s
      else
        let (n, c) = bumpEditCount now sid filePath (sc_cache s);
            s1 = audit_set ''editCount'' (JInt n) (s\<lparr>sc_cache := c\<rparr>)
        in if EDIT_COUNT_THRESHOLD < n
           then Inl (skip_file ''suppressed'' (s1\<lparr>sc_suppressedHit := True,
                  sc_suppression := (if n = EDIT_COUNT_THRESHOLD + 1 \<and> sc_suppression s1 = None
                                     then Some filePath else sc_suppression s1)\<rparr>))
           else Inr s1)"

text \<open>What the detector says of a file; \<open>None\<close>: it threw.\<close>

definition detect ::
  "detector \<Rightarrow> (string \<Rightarrow> string \<Rightarrow> jsval \<Rightarrow> jsval option) \<Rightarrow> jsval \<Rightarrow> string \<Rightarrow> string \<Rightarrow> string \<Rightarrow> jsval option" where
  "detect det detectText scanOptions ext content filePath =
     (case det_html det of
        Some detectHtml \<Rightarrow>
          if ext = ''.html'' \<or> ext = ''.htm'' then detectHtml filePath scanOptions
          else detectText content filePath scanOptions
      | None \<Rightarrow> detectText content filePath scanOptions)"

definition use_findings :: "int \<Rightarrow> string \<Rightarrow> hook_config \<Rightarrow> string \<Rightarrow> jsval option \<Rightarrow> scan \<Rightarrow> scan" where
  "use_findings now sid config filePath outcome s =
     (let found = js_or (case outcome of Some v \<Rightarrow> v | None \<Rightarrow> JArr []) (JArr []);
          filtered = filterDetectionFindings found (hc_detection config);
          (fresh, c1) = dedupeAgainstCache now filtered sid filePath (sc_cache s);
          s1 = audit_set ''freshFindings'' (JInt (int (length fresh)))
                 (audit_set ''findings'' (get_prop found ''length'') (s\<lparr>sc_cache := c1\<rparr>))
      in if fresh \<noteq> []
         then s1\<lparr>sc_cache := rememberFindings now sid filePath fresh c1,
                 sc_fresh := sc_fresh s1 @ [(filePath, fresh)]\<rparr>
         else if outcome = None then s1\<lparr>sc_threw := True\<rparr>
         else if filtered \<noteq> [] \<and> sc_pending s1 = None
         then s1\<lparr>sc_pending := Some (filePath, cf_findings (fst (ensureFile now sid filePath c1))),
                 sc_cache := snd (ensureFile now sid filePath c1)\<rparr>
         else if filtered = [] \<and> sc_clean s1 = None then s1\<lparr>sc_clean := Some filePath\<rparr>
         else s1)"

text \<open>What does not change from file to file.\<close>

record scan_env =
  se_now :: int
  se_fs :: fs
  se_config :: hook_config
  se_det :: detector
  se_text :: "string \<Rightarrow> string \<Rightarrow> jsval \<Rightarrow> jsval option"
  se_options :: jsval
  se_session :: string
  se_cwd :: string
  se_primaries :: "string list"

text \<open>One turn of the loop; \<open>Inl\<close>: an exception (a directory that is read as a file).\<close>

definition scan_file :: "scan_env \<Rightarrow> string \<Rightarrow> scan \<Rightarrow> scan + scan" where
  "scan_file E filePath s0 =
     (let s = audit_set ''file'' (JStr filePath) s0;
          ext = to_lower (path_extname filePath);
          s1 = audit_set ''ext'' (JStr ext) s;
          ignoreFiles = dc_ignoreFiles (hc_detection (se_config E)) in
      if hasPathTraversal filePath \<or> re_test SENSITIVE_PATH filePath then Inr (skip_file ''sensitive'' s)
      else if re_test GENERATED_PATH filePath then Inr (skip_file ''generated'' s)
      else if ext \<notin> set ALLOWED_EXTS then Inr (skip_file ''extension'' s1)
      else if matchesAnyGlob (relativize filePath (se_cwd E)) ignoreFiles \<or> matchesAnyGlob filePath ignoreFiles
      then Inr (skip_file ''config-ignore-file'' s1)
      else if \<not> existsSync (se_fs E) filePath then Inr (skip_file ''file-missing'' s1)
      else case count_edit (se_now E) (se_session E) (se_primaries E) filePath s1 of
        Inl s2 \<Rightarrow> Inr s2
      | Inr s2 \<Rightarrow>
          (case readFileSync (se_fs E) filePath of
             None \<Rightarrow> Inl s2
           | Some content \<Rightarrow>
               Inr (use_findings (se_now E) (se_session E) (se_config E) filePath
                 (detect (se_det E) (se_text E) (se_options E) ext content filePath) s2)))"

fun scan_files :: "scan_env \<Rightarrow> string list \<Rightarrow> scan \<Rightarrow> scan + scan" where
  "scan_files E [] s = Inr s"
| "scan_files E (f # fs) s =
     (case scan_file E f s of Inl s' \<Rightarrow> Inl s' | Inr s' \<Rightarrow> scan_files E fs s')"

definition init_scan :: "cache \<Rightarrow> jsval \<Rightarrow> scan" where
  "init_scan c audit =
     \<lparr>sc_cache = c, sc_fresh = [], sc_pending = None, sc_clean = None, sc_suppression = None,
      sc_threw = False, sc_lastSkip = ''no-scannable-file'', sc_suppressedHit = False, sc_audit = audit\<rparr>"

section \<open>The result\<close>

datatype hook_emission =
    Fresh "group list"
  | Pending string "string list"
  | Suppression string
  | Clean string

record hook_result =
  hr_exitCode :: int
  hr_stdout :: string
  hr_emission :: "hook_emission option"
  hr_audit :: jsval

definition payload :: "string \<Rightarrow> string \<Rightarrow> string" where
  "payload t harness =
     json_text 0 0
       (if harness = ''cursor'' then JObj [(''additional_context'', JStr t)]
        else if harness = ''github'' then JObj [(''additionalContext'', JStr t)]
        else JObj [(''hookSpecificOutput'',
               JObj [(''hookEventName'', JStr ''PostToolUse''), (''additionalContext'', JStr t)])])"

definition quiet_result :: "jsval \<Rightarrow> (string \<times> jsval) list \<Rightarrow> hook_result" where
  "quiet_result audit more_fields =
     \<lparr>hr_exitCode = 0, hr_stdout = [], hr_emission = None, hr_audit = spread audit (JObj more_fields)\<rparr>"

definition emit_result :: "jsval \<Rightarrow> string \<Rightarrow> string \<Rightarrow> hook_emission \<Rightarrow> (string \<times> jsval) list \<Rightarrow> hook_result" where
  "emit_result audit t harness em more_fields =
     \<lparr>hr_exitCode = 0, hr_stdout = payload t harness, hr_emission = Some em,
      hr_audit = spread audit (JObj more_fields)\<rparr>"

definition caught :: "string \<Rightarrow> jsval \<Rightarrow> hook_result" where
  "caught msg audit = quiet_result audit [(''error'', JStr msg)]"

text \<open>The three messages of a scan without new findings, the first that applies.\<close>

definition clean_message :: "jsval \<Rightarrow> string \<Rightarrow> string \<Rightarrow> scan \<Rightarrow> hook_result" where
  "clean_message scanOptions cwd harness s =
     (let audit = sc_audit s in
      case sc_clean s of
        Some f \<Rightarrow>
          if shouldEmitAckForFile f then
            let t = appendDesignSystemNote (renderCleanAck f cwd) scanOptions in
            emit_result audit t harness (Clean f)
              [(''file'', JStr f), (''emitted'', JBool True), (''kind'', JStr ''clean''),
               (''chars'', JInt (int (length t)))]
          else quiet_result audit [(''emitted'', JBool False), (''skipped'', JStr ''non-ui-ack'')]
      | None \<Rightarrow>
          if sc_pending s \<noteq> None
          then quiet_result audit [(''emitted'', JBool False), (''skipped'', JStr ''non-ui-ack'')]
          else if sc_suppressedHit s
          then quiet_result audit [(''suppressed'', JBool True), (''emitted'', JBool False)]
          else quiet_result audit [(''skipped'', JStr (sc_lastSkip s))])"

definition suppression_message :: "jsval \<Rightarrow> string \<Rightarrow> string \<Rightarrow> scan \<Rightarrow> hook_result" where
  "suppression_message scanOptions cwd harness s =
     (case sc_suppression s of
        Some f \<Rightarrow>
          emit_result (sc_audit s) (suppressionNotice (relativize f cwd)) harness (Suppression f)
            [(''file'', JStr f), (''suppressed'', JBool True), (''emitted'', JBool True)]
      | None \<Rightarrow> clean_message scanOptions cwd harness s)"

definition pending_message :: "jsval \<Rightarrow> string \<Rightarrow> string \<Rightarrow> scan \<Rightarrow> hook_result" where
  "pending_message scanOptions cwd harness s =
     (case sc_pending s of
        Some (f, known) \<Rightarrow>
          if shouldEmitAckForFile f then
            let t = appendDesignSystemNote (renderPendingAck f known cwd) scanOptions in
            emit_result (sc_audit s) t harness (Pending f known)
              [(''file'', JStr f), (''emitted'', JBool True), (''kind'', JStr ''pending''),
               (''pending'', JInt (int (length known))), (''chars'', JInt (int (length t)))]
          else suppression_message scanOptions cwd harness s
      | None \<Rightarrow> suppression_message scanOptions cwd harness s)"

definition fresh_message :: "hook_config \<Rightarrow> jsval \<Rightarrow> string \<Rightarrow> string \<Rightarrow> scan \<Rightarrow> hook_result option" where
  "fresh_message config scanOptions cwd harness s =
     map_option (\<lambda>body.
       let t = appendDesignSystemNote body scanOptions in
       emit_result (sc_audit s) t harness (Fresh (sc_fresh s))
         [(''file'', JStr (fst (hd (sc_fresh s)))), (''emitted'', JBool True),
          (''freshFiles'', JInt (int (length (sc_fresh s)))),
          (''freshFindings'', JInt (int (sum_list (map (\<lambda>(f, fs). length fs) (sc_fresh s))))),
          (''chars'', JInt (int (length t)))])
       (renderGroupedTemplate (sc_fresh s) config cwd)"

text \<open>The result after the scan; \<open>None\<close>: rendering threw.\<close>

definition choose_message :: "env \<Rightarrow> hook_config \<Rightarrow> jsval \<Rightarrow> string \<Rightarrow> string \<Rightarrow> scan \<Rightarrow> hook_result option" where
  "choose_message env config scanOptions cwd harness s =
     (if sc_fresh s \<noteq> [] then fresh_message config scanOptions cwd harness s
      else if sc_threw s \<and> sc_pending s = None \<and> sc_clean s = None
      then Some (quiet_result (sc_audit s) [(''emitted'', JBool False), (''error'', JStr ''detector-threw'')])
      else if truthy_env (env ''IMPECCABLE_HOOK_QUIET'') \<or> hc_quiet config
      then Some (quiet_result (sc_audit s) [(''emitted'', JBool False), (''quiet'', JBool True)])
      else Some (pending_message scanOptions cwd harness s))"

section \<open>The run\<close>

text \<open>A detector with a \<open>detectText\<close> function.\<close>

definition loaded_detector ::
  "detector option \<Rightarrow> (detector \<times> (string \<Rightarrow> string \<Rightarrow> jsval \<Rightarrow> jsval option)) option" where
  "loaded_detector det =
     (case det of None \<Rightarrow> None | Some d \<Rightarrow> map_option (\<lambda>f. (d, f)) (det_text d))"

definition event_session :: "jsval \<Rightarrow> string" where
  "event_session event = to_str (js_or (get_prop event ''session_id'') (JStr ''unknown''))"

text \<open>The run of an event once the project directory and the targets are known.\<close>

definition scan_project ::
  "int \<Rightarrow> string \<Rightarrow> env \<Rightarrow> detector option \<Rightarrow> jsval \<Rightarrow> string \<Rightarrow> string \<Rightarrow> string list \<Rightarrow> jsval \<Rightarrow> fs \<Rightarrow>
     hook_result \<times> fs" where
  "scan_project now msg env det event harness projectCwd primaryFiles audit fs =
     (let config = readConfig fs projectCwd;
          cache = readCache fs projectCwd;
          sessionId = event_session event in
      if \<not> hc_enabled config then (quiet_result audit [(''skipped'', JStr ''config-disabled'')], fs)
      else case loaded_detector det of
        None \<Rightarrow> (quiet_result audit [(''skipped'', JStr ''detector-missing'')], persistCache projectCwd cache fs)
      | Some (d, detectText) \<Rightarrow>
          let scanOptions = designSystemOptions config d projectCwd;
              E = \<lparr>se_now = now, se_fs = fs, se_config = config, se_det = d, se_text = detectText,
                   se_options = scanOptions, se_session = sessionId, se_cwd = projectCwd,
                   se_primaries = primaryFiles\<rparr>
          in (case scan_files E (expandScanTargets fs primaryFiles projectCwd) (init_scan cache audit) of
                Inl s \<Rightarrow> (caught msg (sc_audit s), fs)
              | Inr s \<Rightarrow>
                  let fs1 = persistCache projectCwd (sc_cache s) fs in
                  (case choose_message env config scanOptions projectCwd harness s of
                     None \<Rightarrow> (caught msg (sc_audit s), fs1)
                   | Some r \<Rightarrow> (r, fs1))))"

text \<open>
  \<open>runHook\<close> on a parsed event. A project directory that is not a string makes the path functions
  throw as soon as there is a file to scan; the audit entry of that error has the harness and the
  directory only.
\<close>

definition run_event ::
  "int \<Rightarrow> string \<Rightarrow> env \<Rightarrow> string \<Rightarrow> detector option \<Rightarrow> jsval \<Rightarrow> jsval \<Rightarrow> fs \<Rightarrow> hook_result \<times> fs" where
  "run_event now msg env cwd det event0 audit0 fs =
     (let harness = resolveHarness env event0;
          event = normalizeHookEvent env event0 cwd harness;
          projectCwd = js_or (get_prop event ''cwd'') (JStr cwd);
          audit1 = set_prop (set_prop audit0 ''harness'' (JStr harness)) ''cwd'' projectCwd;
          base = (case projectCwd of JStr d \<Rightarrow> d | _ \<Rightarrow> cwd);
          primaryFiles = normalizeScanTargets (resolveTargetFiles event base) base;
          audit2 = set_prop audit1 ''session'' (js_or (get_prop event ''session_id'') JNull);
          tool = get_prop event ''tool_name'';
          audit = (if truthy tool then set_prop audit2 ''tool'' tool else audit2) in
      if \<not> is_string projectCwd \<and> primaryFiles \<noteq> [] then (caught msg audit1, fs)
      else if primaryFiles = [] then (quiet_result audit [(''skipped'', JStr ''no-file-path'')], fs)
      else scan_project now msg env det event harness base primaryFiles audit fs)"

definition runHook ::
  "string \<Rightarrow> int \<Rightarrow> string \<Rightarrow> env \<Rightarrow> string \<Rightarrow> detector option \<Rightarrow> string \<Rightarrow> fs \<Rightarrow> hook_result \<times> fs" where
  "runHook ts now msg env cwd det stdinJson fs =
     (let audit = JObj [(''ts'', JStr ts), (''event'', JStr ''PostToolUse'')] in
      if depthIsSet (env ''IMPECCABLE_HOOK_DEPTH'') \<or> depthIsSet (env ''CLAUDE_HOOK_DEPTH'')
      then (quiet_result audit [(''reentrant'', JBool True)], fs)
      else if truthy_env (env ''IMPECCABLE_HOOK_DISABLED'')
      then (quiet_result audit [(''skipped'', JStr ''env-disabled'')], fs)
      else case json_parse stdinJson of
        None \<Rightarrow> (quiet_result audit [(''skipped'', JStr ''stdin-malformed'')], fs)
      | Some event \<Rightarrow>
          if \<not> truthy event \<or> \<not> typeof_object event
          then (quiet_result audit [(''skipped'', JStr ''stdin-empty'')], fs)
          else run_event now msg env cwd det event audit fs)"

section \<open>The audit log and the process\<close>

definition audit_target :: "env \<Rightarrow> string \<Rightarrow> fs \<Rightarrow> string option" where
  "audit_target env baseCwd fs =
     (case env ''IMPECCABLE_HOOK_LOG'' of
        Some t \<Rightarrow> if t \<noteq> [] then Some t else hc_auditLog (readConfig fs baseCwd)
      | None \<Rightarrow> hc_auditLog (readConfig fs baseCwd))"

definition env_or :: "env \<Rightarrow> string \<Rightarrow> string \<Rightarrow> string" where
  "env_or env k d = (case env k of Some v \<Rightarrow> if v \<noteq> [] then v else d | None \<Rightarrow> d)"

definition expand_log_path :: "env \<Rightarrow> string \<Rightarrow> string \<Rightarrow> string" where
  "expand_log_path env baseCwd target =
     (if starts_with target ''~/''
      then path_join (env_or env ''HOME'' (env_or env ''USERPROFILE'' ''.'')) (drop 2 target)
      else if is_absolute target then target else path_resolve baseCwd target)"

definition writeAuditLog :: "env \<Rightarrow> jsval \<Rightarrow> string \<Rightarrow> string \<Rightarrow> fs \<Rightarrow> bool \<times> fs" where
  "writeAuditLog env entry cwd ts fs =
     (let baseCwd = (case get_prop entry ''cwd'' of JStr d \<Rightarrow> if d \<noteq> [] then d else cwd | _ \<Rightarrow> cwd) in
      case audit_target env baseCwd fs of
        None \<Rightarrow> (False, fs)
      | Some target \<Rightarrow>
          let p = expand_log_path env baseCwd target;
              line = (case json_stringify 0 (spread (JObj [(''ts'', JStr ts)]) entry) of Some l \<Rightarrow> l | None \<Rightarrow> []) @ newline
          in if fs p = Some Dir then (False, fs)
             else (True, writeFileSync p ((case readFileSync fs p of Some old \<Rightarrow> old | None \<Rightarrow> []) @ line) fs))"

text \<open>\<open>hook.mjs\<close>: the exit code, what is written to standard output, and the files.\<close>

definition hook_main ::
  "string \<Rightarrow> int \<Rightarrow> string \<Rightarrow> env \<Rightarrow> string \<Rightarrow> detector option \<Rightarrow> string \<Rightarrow> fs \<Rightarrow> int \<times> string \<times> fs" where
  "hook_main ts now msg inheritedEnv cwd det stdinJson fs =
     (let (result, fs1) = runHook ts now msg inheritedEnv cwd det stdinJson fs;
          env = inheritedEnv(''IMPECCABLE_HOOK_DEPTH'' \<mapsto> env_or inheritedEnv ''IMPECCABLE_HOOK_DEPTH'' ''1'');
          (logged, fs2) = writeAuditLog env (hr_audit result) cwd ts fs1
      in (hr_exitCode result, hr_stdout result, fs2))"

end
