(* ===== verification/HookPromises.thy ===== *)
theory HookPromises
  imports DesignHook
begin

text \<open>
  What the design hook promises. An invariant of the scan (\<open>scan_inv\<close>) and a description of one turn
  of its loop (\<open>turn_adds\<close>) are carried through the scan of all targets, through the choice of the
  message and through the cache file; the theorems at the end are stated over whole runs.
\<close>

section \<open>The scan adds to the memory\<close>

text \<open>
  What holds after any part of the scan that began with the cache \<open>c0\<close>: the new findings were
  unknown and are known now, nothing known is forgotten, other sessions are untouched.
\<close>

definition scan_inv :: "cache \<Rightarrow> int \<Rightarrow> string \<Rightarrow> scan \<Rightarrow> bool" where
  "scan_inv c0 now sid s \<longleftrightarrow>
     (\<forall>f xs. (f, xs) \<in> set (sc_fresh s) \<longrightarrow>
        findingCacheKey ` set xs \<inter> known_keys c0 sid f = {} \<and>
        findingCacheKey ` set xs \<subseteq> known_keys (sc_cache s) sid f) \<and>
     (\<forall>f. known_keys c0 sid f \<subseteq> known_keys (sc_cache s) sid f) \<and>
     cache_ok (sc_cache s) \<and>
     (sc_fresh s \<noteq> [] \<longrightarrow> session_stamped now sid (sc_cache s)) \<and>
     (\<forall>i. i \<noteq> sid \<longrightarrow> map_of (sc_cache s) i = map_of c0 i)"

text \<open>Steps that only grow the memory of the session and report nothing keep it.\<close>

lemma scan_inv_step:
  assumes "scan_inv c0 now sid s" "sc_fresh s' = sc_fresh s" "local_step now sid (sc_cache s) (sc_cache s')"
    and "known_keys (sc_cache s') = known_keys (sc_cache s)" "cache_ok (sc_cache s')"
  shows "scan_inv c0 now sid s'"
  unfolding scan_inv_def
proof (intro conjI)
  note i = assms(1)[unfolded scan_inv_def]
  show "\<forall>f xs. (f, xs) \<in> set (sc_fresh s') \<longrightarrow>
      findingCacheKey ` set xs \<inter> known_keys c0 sid f = {} \<and>
      findingCacheKey ` set xs \<subseteq> known_keys (sc_cache s') sid f"
    unfolding assms(2,4) using i by (elim conjE)
  show "\<forall>f. known_keys c0 sid f \<subseteq> known_keys (sc_cache s') sid f" unfolding assms(4) using i by (elim conjE)
  show "sc_fresh s' \<noteq> [] \<longrightarrow> session_stamped now sid (sc_cache s')"
    unfolding assms(2) using i assms(3) by (simp add: local_step_def)
  show "\<forall>i. i \<noteq> sid \<longrightarrow> map_of (sc_cache s') i = map_of c0 i"
    using i assms(3) by (simp add: local_step_def)
qed (rule assms(5))

lemma scan_inv_audit [simp]: "scan_inv c0 now sid (audit_set k v s) = scan_inv c0 now sid s"
  "scan_inv c0 now sid (skip_file w s) = scan_inv c0 now sid s"
  by (simp_all add: scan_inv_def audit_set_def skip_file_def)

lemma audit_fields [simp]:
  "sc_cache (audit_set k v s) = sc_cache s" "sc_fresh (audit_set k v s) = sc_fresh s"
  "sc_pending (audit_set k v s) = sc_pending s" "sc_clean (audit_set k v s) = sc_clean s"
  "sc_suppression (audit_set k v s) = sc_suppression s"
  "sc_cache (skip_file w s) = sc_cache s" "sc_fresh (skip_file w s) = sc_fresh s"
  "sc_suppression (skip_file w s) = sc_suppression s"
  by (simp_all add: audit_set_def skip_file_def)

lemma scan_inv_cache_ok: "scan_inv c0 now sid s \<Longrightarrow> cache_ok (sc_cache s)"
  by (simp add: scan_inv_def)

lemma count_edit_inv:
  assumes "scan_inv c0 now sid s"
  shows "case count_edit now sid ps f s of Inl s' \<Rightarrow> scan_inv c0 now sid s' | Inr s' \<Rightarrow> scan_inv c0 now sid s'"
proof -
  let ?c = "snd (bumpEditCount now sid f (sc_cache s))"
  have b: "scan_inv c0 now sid s'" if "sc_fresh s' = sc_fresh s" "sc_cache s' = ?c" for s'
    using assms that local_bump bumpEditCount_ok scan_inv_cache_ok
    by (intro scan_inv_step[of c0 now sid s s']) auto
  show ?thesis using assms b by (auto simp: count_edit_def case_prod_beta Let_def)
qed

lemma use_findings_inv:
  assumes "scan_inv c0 now sid s"
  shows "scan_inv c0 now sid (use_findings now sid config f outcome s)"
proof -
  let ?found = "js_or (case outcome of Some v \<Rightarrow> v | None \<Rightarrow> JArr []) (JArr [])"
  let ?xs = "filterDetectionFindings ?found (hc_detection config)"
  let ?d = "dedupeAgainstCache now ?xs sid f (sc_cache s)"
  have ok: "cache_ok (snd ?d)" using assms scan_inv_cache_ok dedupe_ok by blast
  have quiet: "scan_inv c0 now sid s'" if "sc_fresh s' = sc_fresh s"
    "sc_cache s' = snd ?d \<or> sc_cache s' = snd (ensureFile now sid f (snd ?d))" for s'
    using that(2)
  proof
    assume "sc_cache s' = snd ?d"
    then show ?thesis using assms that(1) local_dedupe ok by (intro scan_inv_step[of c0 now sid s s']) auto
  next
    assume "sc_cache s' = snd (ensureFile now sid f (snd ?d))"
    then show ?thesis
      using assms that(1) local_trans[OF local_dedupe local_ensureFile] ok ensureFile_ok
      by (intro scan_inv_step[of c0 now sid s s']) (auto simp del: ensureFile_simps)
  qed
  have report: "scan_inv c0 now sid s'" if "sc_fresh s' = sc_fresh s @ [(f, fst ?d)]"
    "sc_cache s' = rememberFindings now sid f (fst ?d) (snd ?d)" for s'
  proof -
    let ?c = "rememberFindings now sid f (fst ?d) (snd ?d)"
    have new: "findingCacheKey ` set (fst ?d) \<inter> known_keys (sc_cache s) sid f = {}"
      by (rule memory.reported_unknown)
    have known: "findingCacheKey ` set (fst ?d) \<subseteq> known_keys ?c sid f" by simp
    have grow: "known_keys (sc_cache s) sid g \<subseteq> known_keys ?c sid g" for g
      by (rule memory.report_forgets_nothing)
    have L: "local_step now sid (sc_cache s) ?c" using local_trans[OF local_dedupe local_remember] by blast
    have N: "findingCacheKey ` set xs \<inter> known_keys c0 sid g = {} \<and> findingCacheKey ` set xs \<subseteq> known_keys ?c sid g"
      if m: "(g, xs) \<in> set (sc_fresh s @ [(f, fst ?d)])" for g xs
    proof -
      have "(g, xs) \<in> set (sc_fresh s) \<or> g = f \<and> xs = fst ?d" using m by auto
      moreover have "known_keys c0 sid g \<subseteq> known_keys (sc_cache s) sid g" using assms by (simp add: scan_inv_def)
      ultimately show ?thesis using assms grow[of g] new known unfolding scan_inv_def by blast
    qed
    have G: "known_keys c0 sid g \<subseteq> known_keys ?c sid g" for g
      using assms grow[of g] unfolding scan_inv_def by blast
    have O: "map_of ?c i = map_of c0 i" if "i \<noteq> sid" for i
    proof -
      have "map_of ?c i = map_of (sc_cache s) i" using L that unfolding local_step_def by blast
      also have "\<dots> = map_of c0 i" using assms that unfolding scan_inv_def by blast
      finally show ?thesis .
    qed
    show ?thesis
      unfolding scan_inv_def that
    proof (intro conjI allI impI)
      show "cache_ok ?c" using ok rememberFindings_ok by blast
      show "session_stamped now sid ?c" by (rule remember_stamps)
    qed (use N G O in \<open>blast+\<close>)
  qed
  show ?thesis
    using quiet report by (auto simp: use_findings_def case_prod_beta Let_def simp del: ensureFile_simps)
qed

lemma scan_file_inv:
  assumes "scan_inv c0 (se_now E) (se_session E) s"
  shows "case scan_file E f s of Inl s' \<Rightarrow> scan_inv c0 (se_now E) (se_session E) s'
    | Inr s' \<Rightarrow> scan_inv c0 (se_now E) (se_session E) s'"
proof -
  let ?s1 = "audit_set ''ext'' (JStr (to_lower (path_extname f))) (audit_set ''file'' (JStr f) s)"
  note c = count_edit_inv[of c0 "se_now E" "se_session E" ?s1 "se_primaries E" f]
  show ?thesis
    using assms c use_findings_inv
    by (auto simp: scan_file_def Let_def split: sum.splits option.splits)
qed

lemma scan_files_inv:
  "scan_inv c0 (se_now E) (se_session E) s \<Longrightarrow> scan_files E fs s = Inr s' \<Longrightarrow>
     scan_inv c0 (se_now E) (se_session E) s'"
proof (induction fs arbitrary: s)
  case (Cons f fs)
  then show ?case using scan_file_inv[of c0 E s f] by (auto split: sum.splits)
qed simp

lemma init_scan_inv: "cache_ok c \<Longrightarrow> scan_inv c now sid (init_scan c audit)"
  by (simp add: scan_inv_def init_scan_def)

section \<open>Which findings are reported\<close>

text \<open>A file the scan gets as far as the edit count with.\<close>

definition scannable :: "scan_env \<Rightarrow> string \<Rightarrow> bool" where
  "scannable E f \<longleftrightarrow>
     \<not> hasPathTraversal f \<and> \<not> re_test SENSITIVE_PATH f \<and> \<not> re_test GENERATED_PATH f \<and>
     to_lower (path_extname f) \<in> set ALLOWED_EXTS \<and>
     \<not> matchesAnyGlob (relativize f (se_cwd E)) (dc_ignoreFiles (hc_detection (se_config E))) \<and>
     \<not> matchesAnyGlob f (dc_ignoreFiles (hc_detection (se_config E))) \<and> existsSync (se_fs E) f"

text \<open>A file that counts as edited too often.\<close>

definition worn :: "scan_env \<Rightarrow> cache \<Rightarrow> string \<Rightarrow> bool" where
  "worn E c f \<longleftrightarrow> f \<in> set (se_primaries E) \<and> EDIT_COUNT_THRESHOLD \<le> edits_of c (se_session E) f"

text \<open>The findings of a file that the configuration lets through.\<close>

definition kept_findings :: "scan_env \<Rightarrow> string \<Rightarrow> jsval list" where
  "kept_findings E f =
     (case readFileSync (se_fs E) f of
        None \<Rightarrow> []
      | Some content \<Rightarrow>
          filterDetectionFindings
            (js_or (case detect (se_det E) (se_text E) (se_options E) (to_lower (path_extname f)) content f of
                      Some v \<Rightarrow> v | None \<Rightarrow> JArr []) (JArr []))
            (hc_detection (se_config E)))"

text \<open>What one turn of the loop does to the groups, the memory and the counts.\<close>

definition turn_adds :: "scan_env \<Rightarrow> string \<Rightarrow> scan \<Rightarrow> scan \<Rightarrow> bool" where
  "turn_adds E f s s' \<longleftrightarrow>
     (\<exists>xs. sc_fresh s' = sc_fresh s @ (if xs = [] then [] else [(f, xs)]) \<and>
        set xs \<subseteq> set (kept_findings E f) \<and>
        (xs \<noteq> [] \<longrightarrow> scannable E f \<and> \<not> worn E (sc_cache s) f) \<and>
        (scannable E f \<and> \<not> worn E (sc_cache s) f \<longrightarrow>
           findingCacheKey ` set (kept_findings E f) - known_keys (sc_cache s) (se_session E) f \<subseteq>
             findingCacheKey ` set xs)) \<and>
     (\<forall>g. g \<noteq> f \<longrightarrow> edits_of (sc_cache s') (se_session E) g = edits_of (sc_cache s) (se_session E) g \<and>
        known_keys (sc_cache s') (se_session E) g = known_keys (sc_cache s) (se_session E) g)"

lemma count_edit_cases:
  obtains (unseen) "f \<notin> set ps" "count_edit now sid ps f s = Inr s"
  | (over) s' where "f \<in> set ps" "EDIT_COUNT_THRESHOLD \<le> edits_of (sc_cache s) sid f"
      "count_edit now sid ps f s = Inl s'" "sc_fresh s' = sc_fresh s"
      "sc_cache s' = snd (bumpEditCount now sid f (sc_cache s))"
  | (counted) s' where "f \<in> set ps" "edits_of (sc_cache s) sid f < EDIT_COUNT_THRESHOLD"
      "count_edit now sid ps f s = Inr s'" "sc_fresh s' = sc_fresh s"
      "sc_cache s' = snd (bumpEditCount now sid f (sc_cache s))"
proof (cases "f \<in> set ps")
  case False
  then show ?thesis using unseen by (simp add: count_edit_def)
next
  case True
  have n: "fst (bumpEditCount now sid f (sc_cache s)) = edits_of (sc_cache s) sid f + 1" by simp
  show ?thesis
  proof (cases "EDIT_COUNT_THRESHOLD < edits_of (sc_cache s) sid f + 1")
    case o: True
    show ?thesis
      by (rule over[of "projl (count_edit now sid ps f s)"])
         (use True o in \<open>simp_all add: count_edit_def case_prod_beta Let_def n\<close>)
  next
    case o: False
    show ?thesis
      by (rule counted[of "projr (count_edit now sid ps f s)"])
         (use True o in \<open>simp_all add: count_edit_def case_prod_beta Let_def n\<close>)
  qed
qed

lemma use_findings_turn:
  fixes E f s outcome
  defines "xs \<equiv> fst (dedupeAgainstCache (se_now E)
      (filterDetectionFindings (js_or (case outcome of Some v \<Rightarrow> v | None \<Rightarrow> JArr []) (JArr []))
        (hc_detection (se_config E))) (se_session E) f (sc_cache s))"
  defines "s' \<equiv> use_findings (se_now E) (se_session E) (se_config E) f outcome s"
  shows "sc_fresh s' = sc_fresh s @ (if xs = [] then [] else [(f, xs)])"
    "edits_of (sc_cache s') = edits_of (sc_cache s)"
    "g \<noteq> f \<Longrightarrow> known_keys (sc_cache s') (se_session E) g = known_keys (sc_cache s) (se_session E) g"
  unfolding s'_def use_findings_def Let_def case_prod_beta xs_def[symmetric]
  by (simp_all add: del: ensureFile_simps(1))

lemma scan_file_turn:
  assumes "scan_file E f s = Inr s'"
  shows "turn_adds E f s s'"
proof (cases "scannable E f")
  case False
  then have "sc_fresh s' = sc_fresh s" "sc_cache s' = sc_cache s"
    using assms unfolding scan_file_def scannable_def Let_def by (auto split: if_splits)
  then show ?thesis using False unfolding turn_adds_def by (intro conjI exI[of _ "[]"]) auto
next
  case True
  define s1 where "s1 = audit_set ''ext'' (JStr (to_lower (path_extname f))) (audit_set ''file'' (JStr f) s)"
  have s1: "sc_fresh s1 = sc_fresh s" "sc_cache s1 = sc_cache s" by (simp_all add: s1_def)
  have body: "(case count_edit (se_now E) (se_session E) (se_primaries E) f s1 of
        Inl s2 \<Rightarrow> Inr s2
      | Inr s2 \<Rightarrow>
          (case readFileSync (se_fs E) f of
             None \<Rightarrow> Inl s2
           | Some content \<Rightarrow>
               Inr (use_findings (se_now E) (se_session E) (se_config E) f
                 (detect (se_det E) (se_text E) (se_options E) (to_lower (path_extname f)) content f) s2))) = Inr s'"
    using assms True unfolding scan_file_def scannable_def Let_def s1_def by simp
  have common: ?thesis
    if ct: "count_edit (se_now E) (se_session E) (se_primaries E) f s1 = Inr s2" and w: "\<not> worn E (sc_cache s) f"
      and s2: "sc_fresh s2 = sc_fresh s" "known_keys (sc_cache s2) = known_keys (sc_cache s)"
        "\<forall>g. g \<noteq> f \<longrightarrow> edits_of (sc_cache s2) (se_session E) g = edits_of (sc_cache s) (se_session E) g" for s2
  proof -
    obtain content where c: "readFileSync (se_fs E) f = Some content" "s' = use_findings (se_now E) (se_session E)
        (se_config E) f (detect (se_det E) (se_text E) (se_options E) (to_lower (path_extname f)) content f) s2"
      using body ct by (auto split: option.splits)
    define oc where "oc = detect (se_det E) (se_text E) (se_options E) (to_lower (path_extname f)) content f"
    define found where "found = filterDetectionFindings (js_or (case oc of Some v \<Rightarrow> v | None \<Rightarrow> JArr []) (JArr []))
        (hc_detection (se_config E))"
    define xs where "xs = fst (dedupeAgainstCache (se_now E) found (se_session E) f (sc_cache s2))"
    note u = use_findings_turn[where E = E and f = f and s = s2 and outcome = oc, folded found_def, folded xs_def]
    have k: "kept_findings E f = found" by (simp add: kept_findings_def c(1) found_def oc_def)
    have d: "findingCacheKey ` set xs = findingCacheKey ` set found - known_keys (sc_cache s2) (se_session E) f"
      "set xs \<subseteq> set found"
      unfolding xs_def by (rule dedupe_reports_new(1), rule dedupe_subset)
    have s': "s' = use_findings (se_now E) (se_session E) (se_config E) f oc s2" using c(2) by (simp add: oc_def)
    show ?thesis
      unfolding turn_adds_def k s'
    proof (intro conjI exI[of _ xs])
      show "sc_fresh (use_findings (se_now E) (se_session E) (se_config E) f oc s2) =
          sc_fresh s @ (if xs = [] then [] else [(f, xs)])" using u(1) s2(1) by simp
      show "\<forall>g. g \<noteq> f \<longrightarrow> edits_of (sc_cache (use_findings (se_now E) (se_session E) (se_config E) f oc s2)) (se_session E) g =
            edits_of (sc_cache s) (se_session E) g \<and>
          known_keys (sc_cache (use_findings (se_now E) (se_session E) (se_config E) f oc s2)) (se_session E) g =
            known_keys (sc_cache s) (se_session E) g"
        using u(2,3) s2(2,3) by simp
    qed (use d s2(2) True w in simp_all)
  qed
  show ?thesis
  proof (cases rule: count_edit_cases[of f "se_primaries E" "se_now E" "se_session E" s1])
    case (over s2)
    then have "s' = s2" "worn E (sc_cache s) f" using body s1 by (auto simp: worn_def)
    then show ?thesis using over s1 unfolding turn_adds_def by (intro conjI exI[of _ "[]"]) auto
  next
    case unseen
    then show ?thesis using common[of s1] s1 by (simp add: worn_def)
  next
    case (counted s2)
    then show ?thesis using common[of s2] s1 by (simp add: worn_def)
  qed
qed

lemma scan_files_Cons:
  assumes "scan_files E (f # fs) s = Inr s'"
  obtains s1 where "scan_file E f s = Inr s1" "scan_files E fs s1 = Inr s'" "turn_adds E f s s1"
  using assms scan_file_turn by (auto split: sum.splits)

lemma turn_keeps_worn: "turn_adds E f s s' \<Longrightarrow> g \<noteq> f \<Longrightarrow> worn E (sc_cache s') g = worn E (sc_cache s) g"
  unfolding turn_adds_def worn_def by auto

lemma turn_keeps_known:
  "turn_adds E f s s' \<Longrightarrow> g \<noteq> f \<Longrightarrow>
     known_keys (sc_cache s') (se_session E) g = known_keys (sc_cache s) (se_session E) g"
  unfolding turn_adds_def by auto

lemma scan_files_grow: "scan_files E fs s = Inr s' \<Longrightarrow> set (sc_fresh s) \<subseteq> set (sc_fresh s')"
proof (induction fs arbitrary: s)
  case (Cons f fs)
  then obtain s1 where s1: "scan_files E fs s1 = Inr s'" "turn_adds E f s s1" by (elim scan_files_Cons)
  have "set (sc_fresh s) \<subseteq> set (sc_fresh s1)" using s1(2) unfolding turn_adds_def by auto
  then show ?case using Cons.IH[OF s1(1)] by blast
qed simp

lemma scan_files_sound:
  assumes "distinct fs" "scan_files E fs s = Inr s'" "(f, xs) \<in> set (sc_fresh s')" "(f, xs) \<notin> set (sc_fresh s)"
  shows "f \<in> set fs \<and> scannable E f \<and> \<not> worn E (sc_cache s) f \<and> set xs \<subseteq> set (kept_findings E f)"
  using assms
proof (induction fs arbitrary: s)
  case (Cons g fs)
  obtain s1 where s1: "scan_files E fs s1 = Inr s'" and t: "turn_adds E g s s1"
    using Cons.prems(2) by (elim scan_files_Cons)
  show ?case
  proof (cases "(f, xs) \<in> set (sc_fresh s1)")
    case True
    obtain ys where ys: "sc_fresh s1 = sc_fresh s @ (if ys = [] then [] else [(g, ys)])"
      "set ys \<subseteq> set (kept_findings E g)" "ys \<noteq> [] \<longrightarrow> scannable E g \<and> \<not> worn E (sc_cache s) g"
      using t unfolding turn_adds_def by blast
    have "ys \<noteq> []" "f = g" "xs = ys" using True Cons.prems(4) ys(1) by (auto split: if_splits)
    then show ?thesis using ys(2,3) by simp
  next
    case False
    then have i: "f \<in> set fs" "scannable E f" "\<not> worn E (sc_cache s1) f" "set xs \<subseteq> set (kept_findings E f)"
      using Cons.IH[OF _ s1 Cons.prems(3)] Cons.prems(1) by auto
    then have "f \<noteq> g" using Cons.prems(1) by auto
    then show ?thesis using i turn_keeps_worn[OF t] by simp
  qed
qed simp

lemma scan_files_complete:
  assumes "distinct fs" "scan_files E fs s = Inr s'" "f \<in> set fs" "scannable E f" "\<not> worn E (sc_cache s) f"
    and "x \<in> set (kept_findings E f)" "findingCacheKey x \<notin> known_keys (sc_cache s) (se_session E) f"
  shows "\<exists>xs. (f, xs) \<in> set (sc_fresh s') \<and> findingCacheKey x \<in> findingCacheKey ` set xs"
  using assms
proof (induction fs arbitrary: s)
  case (Cons g fs)
  obtain s1 where s1: "scan_files E fs s1 = Inr s'" and t: "turn_adds E g s s1"
    using Cons.prems(2) by (elim scan_files_Cons)
  show ?case
  proof (cases "f = g")
    case True
    obtain ys where ys: "sc_fresh s1 = sc_fresh s @ (if ys = [] then [] else [(g, ys)])"
      "findingCacheKey ` set (kept_findings E g) - known_keys (sc_cache s) (se_session E) g \<subseteq> findingCacheKey ` set ys"
      using t Cons.prems(4,5) True unfolding turn_adds_def by blast
    have k: "findingCacheKey x \<in> findingCacheKey ` set ys" using ys(2) Cons.prems(6,7) True by blast
    then have "(f, ys) \<in> set (sc_fresh s1)" using ys(1) True by auto
    then show ?thesis using k scan_files_grow[OF s1] by blast
  next
    case False
    then show ?thesis
      using Cons.IH[OF _ s1] Cons.prems turn_keeps_worn[OF t False] turn_keeps_known[OF t False] by auto
  qed
qed simp

section \<open>A run that reports\<close>

definition run_env ::
  "int \<Rightarrow> fs \<Rightarrow> detector \<Rightarrow> (string \<Rightarrow> string \<Rightarrow> jsval \<Rightarrow> jsval option) \<Rightarrow> jsval \<Rightarrow> string \<Rightarrow> string list \<Rightarrow> scan_env" where
  "run_env now fs d detectText event P ps =
     \<lparr>se_now = now, se_fs = fs, se_config = readConfig fs P, se_det = d, se_text = detectText,
      se_options = designSystemOptions (readConfig fs P) d P, se_session = event_session event, se_cwd = P,
      se_primaries = ps\<rparr>"

lemma message_fresh:
  assumes "choose_message env config opts cwd h s = Some r" "hr_emission r = Some (Fresh gs)"
  shows "gs = sc_fresh s \<and> gs \<noteq> []"
  using assms
  by (auto simp: choose_message_def fresh_message_def pending_message_def suppression_message_def clean_message_def
      emit_result_def quiet_result_def Let_def split: if_splits option.splits)

lemma scan_project_fresh:
  assumes "scan_project now msg env det event h P ps audit fs = (r, fs')" "hr_emission r = Some (Fresh gs)"
  obtains d detectText s where "det = Some d" "det_text d = Some detectText"
    "scan_files (run_env now fs d detectText event P ps) (expandScanTargets fs ps P)
       (init_scan (readCache fs P) audit) = Inr s"
    "gs = sc_fresh s" "gs \<noteq> []" "fs' = persistCache P (sc_cache s) fs"
    "fresh_message (readConfig fs P) (designSystemOptions (readConfig fs P) d P) P h s = Some r"
    "hc_enabled (readConfig fs P)"
proof -
  have q: "hr_emission (quiet_result a b) = None" "hr_emission (caught m a) = None" for a b m
    by (simp_all add: quiet_result_def caught_def)
  have en: "hc_enabled (readConfig fs P)"
  proof (rule ccontr)
    assume "\<not> ?thesis"
    then have "r = quiet_result audit [(''skipped'', JStr ''config-disabled'')]"
      using assms(1) by (simp add: scan_project_def Let_def)
    then show False using assms(2) q by simp
  qed
  obtain d detectText where d: "loaded_detector det = Some (d, detectText)"
  proof (cases "loaded_detector det")
    case None
    then have "r = quiet_result audit [(''skipped'', JStr ''detector-missing'')]"
      using assms(1) en by (simp add: scan_project_def Let_def)
    then show ?thesis using assms(2) q by simp
  qed auto
  let ?E = "run_env now fs d detectText event P ps"
  let ?out = "scan_files ?E (expandScanTargets fs ps P) (init_scan (readCache fs P) audit)"
  have r: "(r, fs') = (case ?out of
        Inl s \<Rightarrow> (caught msg (sc_audit s), fs)
      | Inr s \<Rightarrow>
          (case choose_message env (readConfig fs P) (designSystemOptions (readConfig fs P) d P) P h s of
             None \<Rightarrow> (caught msg (sc_audit s), persistCache P (sc_cache s) fs)
           | Some r \<Rightarrow> (r, persistCache P (sc_cache s) fs)))"
    using assms(1)[symmetric] en d unfolding scan_project_def run_env_def Let_def by simp
  obtain s where s: "?out = Inr s" using r assms(2) q by (cases ?out) auto
  obtain m where m: "choose_message env (readConfig fs P) (designSystemOptions (readConfig fs P) d P) P h s = Some m"
    "r = m" "fs' = persistCache P (sc_cache s) fs"
    using r assms(2) q unfolding s by (auto split: option.splits)
  have g: "gs = sc_fresh s" "gs \<noteq> []" using message_fresh m assms(2) by blast+
  have dd: "det = Some d" "det_text d = Some detectText"
    using d by (auto simp: loaded_detector_def split: option.splits)
  have "fresh_message (readConfig fs P) (designSystemOptions (readConfig fs P) d P) P h s = Some r"
    using m(1,2) g by (simp add: choose_message_def)
  with that dd s g m en show ?thesis by blast
qed

lemma known_keys_cong: "map_of c sid = map_of c' sid \<Longrightarrow> known_keys c sid f = known_keys c' sid f"
  by (simp add: known_keys_def file_of_def)

text \<open>What a reporting run leaves in the file: the keys of all it reported.\<close>

lemma reported_in_memory:
  assumes run: "scan_project now msg env det event h P ps audit fs = (r, fs1)"
    and em: "hr_emission r = Some (Fresh gs)" "(f, xs) \<in> set gs"
    and ok: "cache_ok (readCache fs P)"
    and old: "\<And>i t. (i, t) \<in> set (readCache fs P) \<Longrightarrow> i \<noteq> event_session event \<Longrightarrow> cs_updatedAt t < now"
  shows "findingCacheKey ` set xs \<inter> known_keys (readCache fs P) (event_session event) f = {}"
    "findingCacheKey ` set xs \<subseteq> known_keys (readCache fs1 P) (event_session event) f"
proof -
  let ?sid = "event_session event" let ?c0 = "readCache fs P"
  obtain d dt s where s: "scan_files (run_env now fs d dt event P ps) (expandScanTargets fs ps P) (init_scan ?c0 audit) = Inr s"
    "gs = sc_fresh s" "gs \<noteq> []" "fs1 = persistCache P (sc_cache s) fs"
    using run em(1) by (rule scan_project_fresh)
  have "scan_inv ?c0 (se_now (run_env now fs d dt event P ps)) (se_session (run_env now fs d dt event P ps)) s"
    using scan_files_inv[OF _ s(1)] init_scan_inv[OF ok] by blast
  then have inv: "scan_inv ?c0 now ?sid s" by (simp add: run_env_def)
  show "findingCacheKey ` set xs \<inter> known_keys ?c0 ?sid f = {}"
    using inv em(2) s(2) unfolding scan_inv_def by blast
  have cok: "cache_ok (sc_cache s)" using inv by (rule scan_inv_cache_ok)
  obtain ses where ses: "map_of (sc_cache s) ?sid = Some ses" "cs_updatedAt ses = now"
    using inv s(2,3) unfolding scan_inv_def session_stamped_def by blast
  have "cs_updatedAt t < now" if "(i, t) \<in> set (sc_cache s)" "i \<noteq> ?sid" for i t
  proof -
    have "map_of (sc_cache s) i = Some t" using that(1) cok by (simp add: cache_ok_def)
    then have "map_of ?c0 i = Some t" using inv that(2) by (simp add: scan_inv_def)
    then show ?thesis using old that(2) map_of_SomeD by fastforce
  qed
  then have "map_of (gc_sessions (sc_cache s)) ?sid = Some ses" by (rule gc_keeps_stamped[OF cok ses])
  then have "known_keys (readCache fs1 P) ?sid f = known_keys (sc_cache s) ?sid f"
    using ses(1) unfolding s(4) persist_then_read[OF cok] by (intro known_keys_cong) simp
  then show "findingCacheKey ` set xs \<subseteq> known_keys (readCache fs1 P) ?sid f"
    using inv em(2) s(2) unfolding scan_inv_def by blast
qed

lemma persist_elsewhere:
  "q \<noteq> getCachePath P \<Longrightarrow> (\<And>pre. resolveHookGitExcludeTarget fs P \<noteq> Some (q, pre)) \<Longrightarrow> persistCache P c fs q = fs q"
  by (auto simp: persistCache_def ensureHookGitExcludes_def writeFileSync_def Let_def split: option.splits)

lemma scan_project_elsewhere:
  assumes "q \<noteq> getCachePath P" "\<And>pre. resolveHookGitExcludeTarget fs P \<noteq> Some (q, pre)"
  shows "snd (scan_project now msg env det event h P ps audit fs) q = fs q"
  using persist_elsewhere[OF assms]
  by (auto simp: scan_project_def Let_def split: option.splits sum.splits)

text \<open>The project directory of a run.\<close>

definition run_project :: "env \<Rightarrow> string \<Rightarrow> string \<Rightarrow> string" where
  "run_project env cwd stdin =
     (case json_parse stdin of
        None \<Rightarrow> cwd
      | Some event \<Rightarrow>
          (case js_or (get_prop (normalizeHookEvent env event cwd (resolveHarness env event)) ''cwd'') (JStr cwd) of
             JStr d \<Rightarrow> d | _ \<Rightarrow> cwd))"

text \<open>A run stops early with a quiet result or scans that project.\<close>

definition run_form :: "int \<Rightarrow> string \<Rightarrow> env \<Rightarrow> detector option \<Rightarrow> string \<Rightarrow> fs \<Rightarrow> hook_result \<times> fs \<Rightarrow> bool" where
  "run_form now msg env det P fs x \<longleftrightarrow>
     (\<exists>a b. x = (quiet_result a b, fs)) \<or>
     (\<exists>event h ps audit. x = scan_project now msg env det event h P ps audit fs)"

lemma run_form_intros:
  "run_form now msg env det P fs (quiet_result a b, fs)" "run_form now msg env det P fs (caught m a, fs)"
  "run_form now msg env det P fs (scan_project now msg env det event h P ps audit fs)"
  unfolding run_form_def caught_def by blast+

lemma run_form_run: "run_form now msg env det (run_project env cwd stdin) fs (runHook ts now msg env cwd det stdin fs)"
  unfolding runHook_def run_event_def Let_def run_project_def by (simp add: run_form_intros split: option.split)

lemma exit_zero: "hr_exitCode (quiet_result a b) = 0" "hr_exitCode (emit_result a t h e b) = 0" "hr_exitCode (caught m a) = 0"
  by (simp_all add: quiet_result_def emit_result_def caught_def)

text \<open>A result is quiet or carries a text.\<close>

definition spoken :: "string \<Rightarrow> hook_result \<Rightarrow> bool" where
  "spoken h r \<longleftrightarrow> hr_exitCode r = 0 \<and>
     (hr_emission r = None \<and> hr_stdout r = [] \<or> hr_emission r \<noteq> None \<and> (\<exists>t. hr_stdout r = payload t h))"

lemma spoken_simps: "spoken h (quiet_result a b)" "spoken h (emit_result a t h e b)" "spoken h (caught m a)"
  by (auto simp: spoken_def quiet_result_def emit_result_def caught_def)

lemma message_spoken: "choose_message env config opts cwd h s = Some r \<Longrightarrow> spoken h r"
  by (auto simp: choose_message_def fresh_message_def pending_message_def suppression_message_def clean_message_def
      Let_def spoken_simps split: if_splits option.splits)

lemma scan_project_spoken: "spoken h (fst (scan_project now msg env det event h P ps audit fs))"
  using message_spoken by (auto simp: scan_project_def Let_def spoken_simps split: option.splits sum.splits)

text \<open>The text in the object on the standard output.\<close>

definition message_in :: "string \<Rightarrow> jsval \<Rightarrow> jsval" where
  "message_in h v =
     (if h = ''cursor'' then get_prop v ''additional_context''
      else if h = ''github'' then get_prop v ''additionalContext''
      else get_prop (get_prop v ''hookSpecificOutput'') ''additionalContext'')"

lemma payload_parses: "\<exists>v. json_parse (payload t h) = Some v \<and> message_in h v = JStr t"
proof -
  have "json_parse (json_text 0 0 v @ []) = Some v" if "json_wf v" for v
    using that by (intro json_parse_text) (auto simp: skip_ws_def)
  then show ?thesis by (auto simp: payload_def message_in_def)
qed

lemma renderTemplate_prints:
  "list_all printable_finding xs \<Longrightarrow> \<exists>t. renderTemplate xs f c cwd = Some t"
  by (auto simp: renderTemplate_def Let_def list_all_iff dest: in_set_takeD)

text \<open>A run with one target that has something new to report.\<close>

lemma reporting_run:
  assumes "hc_enabled (readConfig fs P)" "det_text d = Some dt" "expandScanTargets fs ps P = [f]"
    and E: "E = run_env now fs d dt event P ps"
    and "scannable E f" "\<not> worn E (readCache fs P) f" "readFileSync fs f = Some content"
    and "list_all printable_finding (kept_findings E f)"
    and new: "x \<in> set (kept_findings E f)" "findingCacheKey x \<notin> known_keys (readCache fs P) (event_session event) f"
  shows "\<exists>r fs1 xs. scan_project now msg env (Some d) event h P ps audit fs = (r, fs1) \<and>
    hr_emission r = Some (Fresh [(f, xs)]) \<and> xs \<noteq> []"
proof -
  let ?s0 = "init_scan (readCache fs P) audit"
  have "\<exists>s. scan_file E f ?s0 = Inr s"
    using assms(5,7) unfolding E scannable_def scan_file_def Let_def run_env_def
    by (auto split: sum.splits simp: count_edit_def case_prod_beta)
  then obtain s where s: "scan_files E [f] ?s0 = Inr s" "scan_file E f ?s0 = Inr s" by auto
  have "turn_adds E f ?s0 s" using scan_file_turn[OF s(2)] .
  then obtain xs where xs: "sc_fresh s = (if xs = [] then [] else [(f, xs)])" "set xs \<subseteq> set (kept_findings E f)"
    "findingCacheKey ` set (kept_findings E f) - known_keys (readCache fs P) (se_session E) f \<subseteq> findingCacheKey ` set xs"
    using assms(5,6) unfolding turn_adds_def by (auto simp: init_scan_def)
  have "xs \<noteq> []" using xs(3) new by (auto simp: E run_env_def)
  then have g: "sc_fresh s = [(f, xs)]" using xs(1) by simp
  have "list_all printable_finding xs" using xs(2) assms(8) by (auto simp: list_all_iff)
  then obtain t where "renderTemplate xs f (readConfig fs P) P = Some t" using renderTemplate_prints by blast
  then have "\<exists>r. choose_message env (readConfig fs P) (designSystemOptions (readConfig fs P) d P) P h s = Some r \<and>
      hr_emission r = Some (Fresh [(f, xs)])"
    using g \<open>xs \<noteq> []\<close> by (simp add: choose_message_def fresh_message_def renderGroupedTemplate_def emit_result_def Let_def)
  then show ?thesis
    using assms(1,2,3) s(1) \<open>xs \<noteq> []\<close> unfolding E run_env_def scan_project_def Let_def loaded_detector_def by auto
qed

section \<open>What the hook promises\<close>


text \<open>C16: Whatever is reported as new comes from the detector's findings on the present content of one of
  the target files, passes the configuration's filter, and the file is one the hook may look at:
  not sensitive, not generated, of a known extension, not ignored, present, and edited at most
  six times in the session.\<close>

theorem reported_findings_sound:
  assumes "scan_project now msg env (Some d) event h P ps audit fs = (r, fs1)" "det_text d = Some dt"
    and "hr_emission r = Some (Fresh gs)" "(f, xs) \<in> set gs"
  shows "f \<in> set (expandScanTargets fs ps P) \<and> scannable (run_env now fs d dt event P ps) f \<and>
    \<not> worn (run_env now fs d dt event P ps) (readCache fs P) f \<and>
    set xs \<subseteq> set (kept_findings (run_env now fs d dt event P ps) f)"
proof -
  obtain d' dt' s where s: "Some d = Some d'" "det_text d' = Some dt'"
    "scan_files (run_env now fs d' dt' event P ps) (expandScanTargets fs ps P) (init_scan (readCache fs P) audit) = Inr s"
    "gs = sc_fresh s"
    using assms(1,3) by (rule scan_project_fresh)
  then have e: "d' = d" "dt' = dt" using assms(2) by auto
  have "distinct (expandScanTargets fs ps P)" by (rule scan_targets(2))
  from scan_files_sound[OF this s(3)[unfolded e], of f xs] assms(4) s(4) show ?thesis
    by (simp add: init_scan_def)
qed


text \<open>C9: The hook never fails: its exit code is 0, and either it says nothing or its standard output is a
  JSON text whose object carries the message in the place where the harness looks for it.\<close>

theorem hook_output:
  "hr_exitCode (fst (runHook ts now msg env cwd det stdin fs)) = 0 \<and>
   (hr_emission (fst (runHook ts now msg env cwd det stdin fs)) = None \<and>
      hr_stdout (fst (runHook ts now msg env cwd det stdin fs)) = [] \<or>
    (\<exists>h t v. json_parse (hr_stdout (fst (runHook ts now msg env cwd det stdin fs))) = Some v \<and>
       message_in h v = JStr t))"
proof -
  let ?x = "runHook ts now msg env cwd det stdin fs" let ?P = "run_project env cwd stdin"
  consider a b where "?x = (quiet_result a b, fs)"
    | event h ps audit where "?x = scan_project now msg env det event h ?P ps audit fs"
    using run_form_run[of now msg env det cwd stdin fs ts] unfolding run_form_def by blast
  then have "\<exists>h. spoken h (fst ?x)"
  proof cases
    case 1
    then show ?thesis using spoken_simps(1) by fastforce
  next
    case 2
    then show ?thesis using scan_project_spoken by metis
  qed
  then obtain h where "spoken h (fst ?x)" by blast
  then show ?thesis using payload_parses unfolding spoken_def by metis
qed

text \<open>C35: The text of a report is no longer than the limit of the configuration (at least 500 characters),
  but for the note on an outdated design file, which is added after the cut.\<close>

theorem report_length:
  assumes "scan_project now msg env det event h P ps audit fs = (r, fs1)" "hr_emission r = Some (Fresh gs)"
  shows "\<exists>t. hr_stdout r = payload t h \<and> length t \<le> max_chars_of (readConfig fs P) + length design_note"
proof -
  obtain d dt s where s: "fresh_message (readConfig fs P) (designSystemOptions (readConfig fs P) d P) P h s = Some r"
    using assms by (rule scan_project_fresh)
  then obtain body where b: "renderGroupedTemplate (sc_fresh s) (readConfig fs P) P = Some body"
    "hr_stdout r = payload (appendDesignSystemNote body (designSystemOptions (readConfig fs P) d P)) h"
    by (auto simp: fresh_message_def emit_result_def Let_def)
  have "length (appendDesignSystemNote body sc) \<le> length body + length design_note" for sc
    by (simp add: appendDesignSystemNote_def)
  then show ?thesis using b rendered_length[OF b(1)] by (meson add_le_mono1 order_trans)
qed



section \<open>Witnesses\<close>

definition ex_finding :: "int \<Rightarrow> jsval" where
  "ex_finding n = JObj [(''antipattern'', JStr ''x''), (''line'', JInt n)]"

definition ex_text :: "int \<Rightarrow> string \<Rightarrow> string \<Rightarrow> jsval \<Rightarrow> jsval option" where
  "ex_text n content f opts = Some (JArr [ex_finding n])"

definition ex_det :: "int \<Rightarrow> detector" where
  "ex_det n = \<lparr>det_text = Some (ex_text n), det_html = None, det_design = None\<rparr>"

definition ex_fs :: fs where
  "ex_fs = (\<lambda>_. None)(''/a.js'' \<mapsto> File ''x'')"

definition ex_event :: jsval where
  "ex_event = JObj [(''session_id'', JStr ''s'')]"

lemma ex_path:
  "\<not> hasPathTraversal ''/a.js''" "\<not> re_test SENSITIVE_PATH ''/a.js''" "\<not> re_test GENERATED_PATH ''/a.js''"
  "to_lower (path_extname ''/a.js'') = ''.js''" "normalizeScanTargets [''/a.js''] ''/'' = [''/a.js'']"
  "getCachePath ''/'' = ''/.impeccable/hook.cache.json''" "getConfigPath ''/'' = ''/.impeccable/config.json''"
  "getLocalConfigPath ''/'' = ''/.impeccable/config.local.json''"
  by code_simp+

lemma ex_targets: "expandScanTargets fs [''/a.js''] ''/'' = [''/a.js'']"
  using ex_path(4) by (simp add: expandScanTargets_def ex_path(5) companions_def UI_CODE_EXTS_def)

lemma ex_keys: "findingCacheKey (ex_finding 3) = ''x:3''" "findingCacheKey (ex_finding 4) = ''x:4''"
  by code_simp+

lemma ex_filter:
  "filterDetectionFindings (JArr [ex_finding 3]) cloneDetectionConfig = [ex_finding 3]"
  "filterDetectionFindings (JArr [ex_finding 4]) cloneDetectionConfig = [ex_finding 4]"
  by code_simp+

lemma ex_session: "event_session ex_event = ''s''"
  by code_simp

text \<open>A file system with a readable \<open>/a.js\<close>, no configuration and no git repository.\<close>

definition ex_like :: "fs \<Rightarrow> bool" where
  "ex_like fs \<longleftrightarrow> fs ''/a.js'' = Some (File ''x'') \<and> fs ''/.impeccable/config.json'' = None \<and>
     fs ''/.impeccable/config.local.json'' = None \<and> fs ''/.git'' = None"

lemma ex_like_ex_fs: "ex_like ex_fs"
  by (simp add: ex_like_def ex_fs_def)

lemma ex_config: "ex_like fs \<Longrightarrow> readConfig fs ''/'' = cloneDefaultConfig"
  by (simp add: readConfig_def hook_readJson_def readFileSync_def ex_path ex_like_def apply_config_file_def
      applyDetectorConfigSource_def applyConfigSource_def applyDetectionConfigSource_def detectorSection_def
      hookSection_def cloneDefaultConfig_def)

lemma ex_kept:
  "ex_like fs \<Longrightarrow> kept_findings (run_env now fs (ex_det 3) (ex_text 3) ev ''/'' ps) ''/a.js'' = [ex_finding 3]"
  "ex_like fs \<Longrightarrow> kept_findings (run_env now fs (ex_det 4) (ex_text 4) ev ''/'' ps) ''/a.js'' = [ex_finding 4]"
  by (simp_all add: kept_findings_def run_env_def readFileSync_def ex_like_def ex_config[unfolded ex_like_def]
      detect_def ex_det_def ex_text_def js_or_def cloneDefaultConfig_def ex_filter)

lemma ex_scannable: "ex_like fs \<Longrightarrow> scannable (run_env now fs d dt ev ''/'' ps) ''/a.js''"
  by (simp add: scannable_def run_env_def ex_path ex_config ALLOWED_EXTS_def cloneDefaultConfig_def
      cloneDetectionConfig_def matchesAnyGlob_def) (simp add: ex_like_def existsSync_def)

lemma ex_reports:
  assumes "ex_like fs" "n = 3 \<or> n = 4" "edits_of (readCache fs ''/'') ''s'' ''/a.js'' < 6"
    and "findingCacheKey (ex_finding n) \<notin> known_keys (readCache fs ''/'') ''s'' ''/a.js''"
  shows "\<exists>r fs1 xs. scan_project now msg env (Some (ex_det n)) ex_event h ''/'' [''/a.js''] audit fs = (r, fs1) \<and>
    hr_emission r = Some (Fresh [(''/a.js'', xs)]) \<and> xs \<noteq> []"
proof (rule reporting_run[OF _ _ ex_targets refl ex_scannable[OF assms(1)]])
  show "hc_enabled (readConfig fs ''/'')" by (simp add: ex_config[OF assms(1)] cloneDefaultConfig_def)
  show "det_text (ex_det n) = Some (ex_text n)" by (simp add: ex_det_def)
  show "\<not> worn (run_env now fs (ex_det n) (ex_text n) ex_event ''/'' [''/a.js'']) (readCache fs ''/'') ''/a.js''"
    using assms(3) by (simp add: worn_def run_env_def ex_session EDIT_COUNT_THRESHOLD_def)
  show "readFileSync fs ''/a.js'' = Some ''x''" using assms(1) by (simp add: readFileSync_def ex_like_def)
  show "list_all printable_finding (kept_findings (run_env now fs (ex_det n) (ex_text n) ex_event ''/'' [''/a.js'']) ''/a.js'')"
    using assms(2) ex_kept[OF assms(1)] by (auto simp: printable_finding_def trimmable_def ex_finding_def)
  show "ex_finding n \<in> set (kept_findings (run_env now fs (ex_det n) (ex_text n) ex_event ''/'' [''/a.js'']) ''/a.js'')"
    using assms(2) ex_kept[OF assms(1)] by auto
  show "findingCacheKey (ex_finding n) \<notin> known_keys (readCache fs ''/'') (event_session ex_event) ''/a.js''"
    using assms(4) by (simp add: ex_session)
qed

lemma ex_cache: "readCache ex_fs ''/'' = []"
  by (simp add: readCache_def hook_readJson_def readFileSync_def ex_fs_def ex_path)

lemma ex_git: "resolveHookGitExcludeTarget ex_fs ''/'' = None"
proof -
  have "norm_segs [] (split_on CHR ''/'' ''/'') = []" "path_join (path_string []) ''.git'' = ''/.git''" by code_simp+
  then show ?thesis
    by (simp add: resolveHookGitExcludeTarget_def find_git_exclude.simps existsSync_def ex_fs_def)
qed

definition ex_cache1 :: cache where
  "ex_cache1 = [(''s'', \<lparr>cs_updatedAt = 5, cs_files =
     [(''/a.js'', \<lparr>cf_editCount = 1, cf_findings = [''x:3''], cf_cursorDenials = []\<rparr>)]\<rparr>)]"

lemma ex_first_scan:
  assumes "scan_files (run_env 5 ex_fs (ex_det 3) (ex_text 3) ex_event ''/'' [''/a.js'']) [''/a.js'']
      (init_scan [] audit) = Inr s"
  shows "sc_cache s = ex_cache1"
proof -
  let ?E = "run_env 5 ex_fs (ex_det 3) (ex_text 3) ex_event ''/'' [''/a.js'']"
  have sc: "scannable ?E ''/a.js''" by (rule ex_scannable[OF ex_like_ex_fs])
  have fd: "filterDetectionFindings (JArr [ex_finding 3]) (hc_detection (readConfig ex_fs ''/'')) = [ex_finding 3]"
    by (simp add: ex_config[OF ex_like_ex_fs] cloneDefaultConfig_def ex_filter)
  show ?thesis
    using assms sc[unfolded scannable_def]
    by (simp add: scan_file_def Let_def count_edit_def bumpEditCount_def ensureFile_def ensureSession_def init_scan_def
        run_env_def ex_session touch_session_def set_file_def new_session_def new_file_def EDIT_COUNT_THRESHOLD_def
        readFileSync_def ex_fs_def detect_def ex_det_def ex_text_def js_or_def use_findings_def fd[unfolded ex_fs_def]
        dedupeAgainstCache_def rememberFindings_def ex_keys uniq_def ex_cache1_def split: if_splits) auto
qed

lemma ex_cache1_ok: "cache_ok ex_cache1"
  by (simp add: cache_ok_def ex_cache1_def session_ok_def)

lemma ex_first_run:
  assumes "scan_project 5 msg env (Some (ex_det 3)) ex_event h ''/'' [''/a.js''] audit ex_fs = (r, fs1)"
    and "hr_emission r = Some (Fresh gs)"
  shows "readCache fs1 ''/'' = ex_cache1" "ex_like fs1"
proof -
  obtain d dt s where s: "Some (ex_det 3) = Some d" "det_text d = Some dt"
    "scan_files (run_env 5 ex_fs d dt ex_event ''/'' [''/a.js'']) (expandScanTargets ex_fs [''/a.js''] ''/'')
       (init_scan (readCache ex_fs ''/'') audit) = Inr s"
    "fs1 = persistCache ''/'' (sc_cache s) ex_fs"
    using assms by (rule scan_project_fresh)
  then have "scan_files (run_env 5 ex_fs (ex_det 3) (ex_text 3) ex_event ''/'' [''/a.js'']) [''/a.js'']
      (init_scan [] audit) = Inr s"
    by (auto simp: ex_targets ex_cache ex_det_def)
  then have c: "sc_cache s = ex_cache1" by (rule ex_first_scan)
  show "readCache fs1 ''/'' = ex_cache1"
    unfolding s(4) c persist_then_read[OF ex_cache1_ok] by (simp add: gc_sessions_def CACHE_MAX_SESSIONS_def ex_cache1_def)
  have "fs1 q = ex_fs q" if "q \<noteq> ''/.impeccable/hook.cache.json''" for q
    unfolding s(4) using that by (intro persist_elsewhere) (simp_all add: ex_path ex_git)
  then show "ex_like fs1" using ex_like_ex_fs by (simp add: ex_like_def)
qed

abbreviation ex_run :: "int \<Rightarrow> int \<Rightarrow> fs \<Rightarrow> hook_result \<times> fs" where
  "ex_run now n fs \<equiv>
     scan_project now '''' (\<lambda>_. None) (Some (ex_det n)) ex_event ''claude'' ''/'' [''/a.js''] (JObj []) fs"

lemma ex_runs:
  obtains r fs1 xs r2 fs3 ys where
    "ex_run 5 3 ex_fs = (r, fs1)" "hr_emission r = Some (Fresh [(''/a.js'', xs)])" "xs \<noteq> []"
    "readCache fs1 ''/'' = ex_cache1"
    "ex_run 6 4 fs1 = (r2, fs3)" "hr_emission r2 = Some (Fresh [(''/a.js'', ys)])"
proof -
  obtain r fs1 xs where 1: "ex_run 5 3 ex_fs = (r, fs1)" "hr_emission r = Some (Fresh [(''/a.js'', xs)])" "xs \<noteq> []"
    using ex_reports[OF ex_like_ex_fs, of 3 5 "''''" "\<lambda>_. None" "''claude''" "JObj []"]
    by (auto simp: ex_cache edits_of_def known_keys_def file_of_def)
  note c = ex_first_run[OF 1(1,2)]
  obtain r2 fs3 ys where 2: "ex_run 6 4 fs1 = (r2, fs3)" "hr_emission r2 = Some (Fresh [(''/a.js'', ys)])"
    using ex_reports[OF c(2), of 4 6 "''''" "\<lambda>_. None" "''claude''" "JObj []"]
    by (auto simp: c(1) ex_keys ex_cache1_def edits_of_def known_keys_def file_of_def)
  show ?thesis by (rule that[OF 1 c(1) 2])
qed


lemma reported_findings_sound_witness:
  "\<exists>r fs1 xs. ex_run 5 3 ex_fs = (r, fs1) \<and> hr_emission r = Some (Fresh [(''/a.js'', xs)]) \<and>
     set xs \<subseteq> {ex_finding 3}"
proof -
  obtain r fs1 xs where a: "ex_run 5 3 ex_fs = (r, fs1)" "hr_emission r = Some (Fresh [(''/a.js'', xs)])"
    by (rule ex_runs)
  have d: "det_text (ex_det 3) = Some (ex_text 3)" by (simp add: ex_det_def)
  show ?thesis using reported_findings_sound[OF a(1) d a(2), of "''/a.js''" xs] a ex_kept(1)[OF ex_like_ex_fs] by auto
qed


lemma report_length_witness:
  "\<exists>r fs1 t. ex_run 5 3 ex_fs = (r, fs1) \<and> hr_stdout r = payload t ''claude'' \<and>
     length t \<le> max_chars_of (readConfig ex_fs ''/'') + length design_note"
proof -
  obtain r fs1 xs where a: "ex_run 5 3 ex_fs = (r, fs1)" "hr_emission r = Some (Fresh [(''/a.js'', xs)])"
    by (rule ex_runs)
  show ?thesis using report_length[OF a] a(1) by blast
qed


end
