(* ===== verification/WriteGate.thy ===== *)
theory WriteGate
  imports HookPromises
begin

text \<open>
  The write gate (\<open>hook-before-edit.mjs\<close>), which Cursor asks before a file is written: the file and
  the text a tool call is about to write, taken from its arguments or from a shell command, the
  findings of the detector on that text, and the decision. A write is refused at most six times for
  the same findings on the same file. The theorems state when a write is refused, that the refusals
  end, and that a projected edit is what the edit tool will produce.

  \<open>SENSITIVE_PATH\<close>, the configuration, the cache and the rendering are those of the design hook.
  An exception (only a finding that cannot be printed and a working directory that is not a string
  cause one) ends in \<open>main().catch\<close>, the decision \<open>Threw\<close>. Durations are left out of the audit entry.
\<close>

section \<open>Shell commands\<close>

abbreviation quote_char :: char where "quote_char \<equiv> CHR 0x22"
abbreviation apos_char :: char where "apos_char \<equiv> CHR 0x27"
abbreviation RQuot :: re where "RQuot \<equiv> ROneOf [quote_char, apos_char]"

definition cap_text :: "rmatch_result \<Rightarrow> nat \<Rightarrow> string" where
  "cap_text m k = (case cap m k of None \<Rightarrow> [] | Some s \<Rightarrow> s)"

definition first_cap :: "rmatch_result \<Rightarrow> string" where
  "first_cap m = (if cap_text m 1 \<noteq> [] then cap_text m 1 else if cap_text m 2 \<noteq> [] then cap_text m 2 else cap_text m 3)"

definition toolInput :: "jsval \<Rightarrow> jsval" where
  "toolInput event =
     (let t = get_prop event ''tool_input'' in if truthy t \<and> typeof_object t then t else JObj [])"

definition shellCommand :: "jsval \<Rightarrow> string" where
  "shellCommand input =
     (case get_prop input ''command'' of
        JStr c \<Rightarrow> c
      | _ \<Rightarrow> (case get_prop (get_prop input ''args'') ''command'' of JStr c \<Rightarrow> c | _ \<Rightarrow> []))"

definition redirect_re :: re where
  "redirect_re = RSeqs
     [RAlt RBol (RCls (\<lambda>c. is_space c \<or> c \<in> set '';&|'')),
      RAlt (RSeq (RChr CHR ''>'') (ROpt (RChr CHR ''>'')))
        (RSeqs [RChr CHR ''1'', RChr CHR ''>'', ROpt (RChr CHR ''>'')]),
      RStar RSp,
      RAlts [RSeqs [RChr quote_char, RGrp 1 (RPlus (RNot [quote_char])), RChr quote_char],
        RSeqs [RChr apos_char, RGrp 2 (RPlus (RNot [apos_char])), RChr apos_char],
        RGrp 3 (RPlus (RCls (\<lambda>c. c \<notin> set ''<>'' \<and> \<not> is_space c)))]]"

definition shellRedirectPath :: "string \<Rightarrow> string" where
  "shellRedirectPath command =
     (case re_exec redirect_re command of None \<Rightarrow> [] | Some m \<Rightarrow> trim (first_cap m))"

definition word_re :: re where
  "word_re = RAlts
     [RSeqs [RChr quote_char,
        RGrp 1 (RStar (RAlt (RSeq (RChr CHR 0x5C) (RChr quote_char)) (RNot [quote_char]))), RChr quote_char],
      RSeqs [RChr apos_char,
        RGrp 2 (RStar (RAlt (RSeq (RChr CHR 0x5C) (RChr apos_char)) (RNot [apos_char]))), RChr apos_char],
      RGrp 3 (RPlus (RCls (\<lambda>c. \<not> is_space c)))]"

definition escaped_quote_re :: re where
  "escaped_quote_re = RSeq (RChr CHR 0x5C) (RGrp 1 RQuot)"

definition word_of :: "rmatch_result \<Rightarrow> string" where
  "word_of m =
     re_replace_all escaped_quote_re (\<lambda>q. cap_text q 1)
       (case cap m 1 of Some w \<Rightarrow> w | None \<Rightarrow>
          (case cap m 2 of Some w \<Rightarrow> w | None \<Rightarrow> cap_text m 3))"

definition shellWords :: "string \<Rightarrow> string list" where
  "shellWords command = map word_of (re_match_all word_re command)"

definition separators :: "string list" where
  "separators = [''&&'', ''||'', '';'', ''|'']"

text \<open>The arguments before the next separator, without flags.\<close>

fun plain_args :: "string list \<Rightarrow> string list" where
  "plain_args [] = []"
| "plain_args (w # ws) =
     (if w \<in> set separators then []
      else if starts_with w ''-'' then plain_args ws
      else w # plain_args ws)"

definition shellTeeDestination :: "string \<Rightarrow> string" where
  "shellTeeDestination command =
     (case dropWhile (\<lambda>w. path_basename w \<noteq> ''tee'') (shellWords command) of
        [] \<Rightarrow> []
      | tee # ws \<Rightarrow> (case plain_args ws of [] \<Rightarrow> [] | w # more_words \<Rightarrow> w))"

definition shellCopyPaths :: "string \<Rightarrow> (string \<times> string) option" where
  "shellCopyPaths command =
     (let words = shellWords command in
      if length words < 3 \<or> path_basename (hd words) \<noteq> ''cp'' then None
      else let args = plain_args (tl words)
           in if length args < 2 then None else Some (args ! (length args - 2), args ! (length args - 1)))"

section \<open>Python one-liners\<close>

definition python_re :: re where
  "python_re = RSeqs [RWordB, RLit ''python'', ROpt (RLit ''3''), RWordB]"

definition sp_re :: re where "sp_re = RStar RSp"
definition pathlib_re :: re where "pathlib_re = RSeq (ROpt (RLit ''pathlib.'')) (RLit ''Path('')"

definition direct_path_re :: re where
  "direct_path_re = RSeqs
     [RAlt RBol (RCls (\<lambda>c. \<not> is_word c \<and> c \<noteq> CHR ''.'')), pathlib_re, sp_re, RGrp 1 RQuot,
      RGrp 2 (RLazy RAny), RRef 1, sp_re, RLit '')'', sp_re, RLit ''.write_text'', sp_re, RLit ''('']"

definition name_re :: re where
  "name_re = RSeq (RCls (\<lambda>c. is_alpha c \<or> c = CHR ''_'')) (RStar (RCls is_word))"

definition assignment_re :: re where
  "assignment_re = RSeqs
     [RWordB, RGrp 1 name_re, sp_re, RLit ''='', sp_re, pathlib_re, sp_re, RGrp 2 RQuot,
      RGrp 3 (RLazy RAny), RRef 2, sp_re, RLit '')'']"

definition write_var_re :: re where
  "write_var_re = RSeqs [RWordB, RGrp 1 name_re, RLit ''.write_text'', sp_re, RLit ''('']"

definition open_re :: re where
  "open_re = RSeqs
     [RWordB, RLit ''open('', sp_re, RGrp 1 RQuot, RGrp 2 (RLazy RAny), RRef 1, sp_re, RLit '','', sp_re,
      RGrp 3 RQuot, ROneOf ''wax'', ROpt (RLit ''+''), ROpt (RLit ''b''), RRef 3]"

definition firstMatch :: "string \<Rightarrow> re \<Rightarrow> string" where
  "firstMatch v r = (case re_exec r v of None \<Rightarrow> [] | Some m \<Rightarrow> trim (cap_text m 2))"

text \<open>\<open>pathsByVar\<close>: of two assignments to a variable the later one counts.\<close>

definition paths_by_var :: "string \<Rightarrow> (string \<times> string) list" where
  "paths_by_var command =
     fold (\<lambda>m vs. (cap_text m 1, cap_text m 3) # vs) (re_match_all assignment_re command) []"

definition written_var :: "string \<Rightarrow> string" where
  "written_var command =
     (case filter (\<lambda>p. p \<noteq> [])
        (map (\<lambda>m. case map_of (paths_by_var command) (cap_text m 1) of Some p \<Rightarrow> p | None \<Rightarrow> [])
          (re_match_all write_var_re command)) of
        [] \<Rightarrow> [] | p # ps \<Rightarrow> p)"

definition shellPythonWriteDestination :: "string \<Rightarrow> string" where
  "shellPythonWriteDestination command =
     (if \<not> re_test python_re command then []
      else let direct = firstMatch command direct_path_re in
        if direct \<noteq> [] then direct
        else if written_var command \<noteq> [] then written_var command
        else firstMatch command open_re)"

definition shellWriteDestination :: "string \<Rightarrow> string" where
  "shellWriteDestination command =
     (let r = shellRedirectPath command; t = shellTeeDestination command;
          c = (case shellCopyPaths command of Some (src, dest) \<Rightarrow> dest | None \<Rightarrow> []) in
      if r \<noteq> [] then r else if t \<noteq> [] then t else if c \<noteq> [] then c
      else shellPythonWriteDestination command)"

section \<open>The text of a shell command\<close>

definition here_doc_re :: re where
  "here_doc_re = RSeqs
     [RLit ''<<'', ROpt (RLit ''-''), sp_re, ROpt RQuot,
      RGrp 1 (RPlus (RCls (\<lambda>c. is_alpha c \<or> is_digit c \<or> c \<in> set ''_.-''))), ROpt RQuot,
      RStar (RCls (\<lambda>c. \<not> is_line_term c)), ROpt (RChr (CHR 0x0D)), RChr (CHR 0x0A)]"

text \<open>The end of a here document; the marker stands for itself (\<open>escapeRegExp\<close>).\<close>

definition here_end_re :: "string \<Rightarrow> re" where
  "here_end_re marker = RSeqs
     [ROpt (RChr (CHR 0x0D)), RChr (CHR 0x0A), RLit marker,
      RAlt (RSeq (ROpt (RChr (CHR 0x0D))) (RChr (CHR 0x0A))) REol]"

definition shellHereDocContent :: "string \<Rightarrow> string" where
  "shellHereDocContent command =
     (case re_exec here_doc_re command of
        None \<Rightarrow> []
      | Some m \<Rightarrow>
          (case re_exec (here_end_re (cap_text m 1)) (m_after m) of
             None \<Rightarrow> [] | Some e \<Rightarrow> m_before e))"

text \<open>A Python string literal after its opening quote; \<open>None\<close>: it does not end.\<close>

fun python_scan :: "char \<Rightarrow> string \<Rightarrow> string option" where
  "python_scan q [] = None"
| "python_scan q (c # cs) =
     (if c = CHR 0x5C then
        (case cs of [] \<Rightarrow> None | d # ds \<Rightarrow> map_option ((#) d) (python_scan q ds))
      else if c = q then Some []
      else map_option ((#) c) (python_scan q cs))"

text \<open>What a match of the prefix pattern leads to; \<open>None\<close> goes on to the next match.\<close>

definition python_arg_at :: "string \<Rightarrow> string option" where
  "python_arg_at rest =
     (let triple = take 3 rest in
      if triple = [apos_char, apos_char, apos_char] \<or> triple = [quote_char, quote_char, quote_char]
      then map_option (\<lambda>i. take i (drop 3 rest)) (index_of (drop 3 rest) triple)
      else case rest of
        [] \<Rightarrow> None
      | q # cs \<Rightarrow> if q = quote_char \<or> q = apos_char then python_scan q cs else None)"

definition pythonStringArg :: "string \<Rightarrow> re \<Rightarrow> string" where
  "pythonStringArg script prefixRe =
     (case List.map_filter (\<lambda>m. python_arg_at (m_after m)) (re_match_all prefixRe script) of
        [] \<Rightarrow> [] | s # ss \<Rightarrow> s)"

definition write_text_re :: re where
  "write_text_re = RSeqs [RLit ''.write_text'', sp_re, RLit ''('', sp_re]"

definition write_re :: re where
  "write_re = RSeqs [RLit ''.write'', sp_re, RLit ''('', sp_re]"

definition shellPythonWriteContent :: "string \<Rightarrow> string" where
  "shellPythonWriteContent command =
     (if \<not> re_test python_re command then []
      else let h = shellHereDocContent command; script = (if h \<noteq> [] then h else command);
               t = pythonStringArg script write_text_re
           in if t \<noteq> [] then t else pythonStringArg script write_re)"

section \<open>Projected edits\<close>

definition gate_inside :: "string \<Rightarrow> string \<Rightarrow> bool" where
  "gate_inside filePath cwd \<longleftrightarrow>
     (let rel = path_relative cwd filePath
      in rel = [] \<or> (\<not> starts_with rel ''..'' \<and> \<not> is_absolute rel))"

text \<open>The size of a file in bytes.\<close>

definition utf8_size :: "string \<Rightarrow> nat" where
  "utf8_size t = sum_list (map (\<lambda>c. if code c < 128 then 1 else 2) t)"

definition readExistingProjectFile :: "fs \<Rightarrow> string \<Rightarrow> string \<Rightarrow> string option" where
  "readExistingProjectFile fs filePath cwd =
     (if \<not> gate_inside filePath cwd then None
      else if re_test SENSITIVE_PATH filePath \<or> re_test GENERATED_PATH filePath then None
      else case fs filePath of
        Some (File t) \<Rightarrow> if 1024 * 1024 < utf8_size t then None else Some t
      | _ \<Rightarrow> None)"

definition shellCopiedFileContent :: "fs \<Rightarrow> string \<Rightarrow> string \<Rightarrow> string" where
  "shellCopiedFileContent fs command cwd =
     (case shellCopyPaths command of
        None \<Rightarrow> []
      | Some (src, dest) \<Rightarrow>
          if src = [] then []
          else let sourcePath = (if is_absolute src then src else path_resolve cwd src) in
            if \<not> gate_inside sourcePath cwd then []
            else if re_test SENSITIVE_PATH sourcePath \<or> re_test GENERATED_PATH sourcePath then []
            else case fs sourcePath of
              Some (File t) \<Rightarrow> if 1024 * 1024 < utf8_size t then [] else t
            | _ \<Rightarrow> [])"

fun firstString :: "jsval \<Rightarrow> string list \<Rightarrow> string option" where
  "firstString ob [] = None"
| "firstString ob (k # ks) = (case get_prop ob k of JStr s \<Rightarrow> Some s | _ \<Rightarrow> firstString ob ks)"

definition old_string :: "jsval \<Rightarrow> string option" where
  "old_string v = firstString v [''old_string'', ''oldString'', ''old_str'', ''target'']"

definition new_string :: "jsval \<Rightarrow> string option" where
  "new_string v = firstString v [''new_string'', ''newString'', ''new_str'', ''replacement'']"

definition replaceOnce :: "string \<Rightarrow> string \<Rightarrow> string \<Rightarrow> string option" where
  "replaceOnce original oldString newString =
     (if oldString = [] then None
      else map_option (\<lambda>i. take i original @ newString @ drop (i + length oldString) original)
             (index_of original oldString))"

datatype proposal = Content string | Skipped string

definition replace_result :: "string option \<Rightarrow> proposal" where
  "replace_result r = (case r of None \<Rightarrow> Skipped ''edit-old-string-missing'' | Some t \<Rightarrow> Content t)"

fun project_edits :: "string \<Rightarrow> jsval list \<Rightarrow> proposal" where
  "project_edits projected [] = Content projected"
| "project_edits projected (edit # edits) =
     (if \<not> truthy edit \<or> \<not> typeof_object edit then Skipped ''fragment-only-edit''
      else case (old_string edit, new_string edit) of
        (Some a, Some b) \<Rightarrow>
          (case replaceOnce projected a b of
             None \<Rightarrow> Skipped ''edit-old-string-missing''
           | Some t \<Rightarrow> project_edits t edits)
      | _ \<Rightarrow> Skipped ''fragment-only-edit'')"

text \<open>\<open>None\<close> is \<open>undefined\<close>: the input is no edit.\<close>

definition projectedEditContent :: "fs \<Rightarrow> jsval \<Rightarrow> string \<Rightarrow> string \<Rightarrow> proposal option" where
  "projectedEditContent fs input filePath cwd =
     (if filePath = [] then None
      else case (old_string input, new_string input) of
        (Some a, Some b) \<Rightarrow>
          Some (case readExistingProjectFile fs filePath cwd of
             None \<Rightarrow> Skipped ''edit-original-unreadable''
           | Some original \<Rightarrow> replace_result (replaceOnce original a b))
      | (None, None) \<Rightarrow>
          (case get_prop input ''edits'' of
             JArr edits \<Rightarrow>
               Some (case readExistingProjectFile fs filePath cwd of
                  None \<Rightarrow> Skipped ''edit-original-unreadable''
                | Some original \<Rightarrow> project_edits original edits)
           | _ \<Rightarrow> None)
      | _ \<Rightarrow> Some (Skipped ''fragment-only-edit''))"

definition hasFragmentEditContent :: "jsval \<Rightarrow> bool" where
  "hasFragmentEditContent input \<longleftrightarrow>
     truthy input \<and> typeof_object input \<and>
     (new_string input \<noteq> None \<or>
      (case get_prop input ''edits'' of
         JArr edits \<Rightarrow> list_ex (\<lambda>e. truthy e \<and> typeof_object e) edits | _ \<Rightarrow> False))"

text \<open>The text about to be written.\<close>

definition shell_content :: "fs \<Rightarrow> string \<Rightarrow> string \<Rightarrow> string" where
  "shell_content fs command cwd =
     (let p = shellPythonWriteContent command; h = shellHereDocContent command
      in if p \<noteq> [] then p else if h \<noteq> [] then h else shellCopiedFileContent fs command cwd)"

definition proposedContent :: "fs \<Rightarrow> jsval \<Rightarrow> string \<Rightarrow> string \<Rightarrow> proposal" where
  "proposedContent fs event cwd filePath =
     (let input = toolInput event in
      case firstString input [''content'', ''streamContent'', ''text''] of
        Some t \<Rightarrow> Content t
      | None \<Rightarrow>
          (case projectedEditContent fs input filePath cwd of
             Some p \<Rightarrow> p
           | None \<Rightarrow>
               if hasFragmentEditContent input then Skipped ''fragment-only-edit''
               else Content (shell_content fs (shellCommand input) cwd)))"

section \<open>The file\<close>

definition proposed_candidate :: "jsval \<Rightarrow> string" where
  "proposed_candidate event =
     (let input = toolInput event;
          raw = js_or (get_prop input ''file_path'') (js_or (get_prop input ''path'')
                  (js_or (get_prop input ''target_file'') (get_prop event ''file_path'')))
      in if is_string raw \<and> trim (to_str raw) \<noteq> [] then to_str raw
         else shellWriteDestination (shellCommand input))"

definition proposedFilePath :: "jsval \<Rightarrow> string \<Rightarrow> string" where
  "proposedFilePath event cwd =
     (let candidate = proposed_candidate event in
      if trim candidate = [] then []
      else if is_absolute candidate then candidate else path_resolve cwd candidate)"

definition relativePath :: "string \<Rightarrow> string \<Rightarrow> string" where
  "relativePath filePath cwd =
     (let rel = path_relative cwd filePath
      in if rel = [] \<or> starts_with rel ''..'' \<or> is_absolute rel then filePath else rel)"

section \<open>The refusal\<close>

definition block_header :: string where
  "block_header = ''[impeccable@1] Design hook findings requiring review''"

definition blocked_header :: string where
  "blocked_header = ''[impeccable@1] Impeccable design hook blocked this write before it landed. Design hook findings requiring review''"

definition cursorBlockMessage :: "jsval list \<Rightarrow> string \<Rightarrow> hook_config \<Rightarrow> string \<Rightarrow> string option" where
  "cursorBlockMessage findings filePath config cwd =
     map_option (\<lambda>rendered.
       let blocked = (case replaceOnce rendered block_header blocked_header of Some t \<Rightarrow> t | None \<Rightarrow> rendered)
       in if 4000 < length blocked then take 3984 blocked @ newline @ ''...(truncated)'' else blocked)
       (renderTemplate findings filePath config cwd)"

definition findingSignature :: "jsval list \<Rightarrow> string" where
  "findingSignature findings =
     join ''|'' (sort (map (\<lambda>f. to_str (js_or (get_prop f ''antipattern'') (JStr ''unknown'')) @ '':'' @
       to_str (js_or (get_prop f ''line'') (JInt 0))) findings))"

definition denials_in :: "cfile \<Rightarrow> string \<Rightarrow> int" where
  "denials_in e key = (case map_of (cf_cursorDenials e) key of Some n \<Rightarrow> n | None \<Rightarrow> 0)"

definition bumpCursorDenial :: "int \<Rightarrow> string \<Rightarrow> string \<Rightarrow> jsval list \<Rightarrow> cache \<Rightarrow> (string \<times> int) \<times> cache" where
  "bumpCursorDenial now sessionId filePath findings c =
     (let c1 = touch_session now sessionId c;
          (e, c2) = ensureFile now sessionId filePath c1;
          key = findingSignature findings;
          n = denials_in e key + 1
      in ((key, n), set_file now sessionId filePath
            (e\<lparr>cf_cursorDenials := AList.update key n (cf_cursorDenials e)\<rparr>) c2))"

section \<open>The decision\<close>

text \<open>The audit entry with the fields of the answer, or the message of a refusal.\<close>

datatype decision =
    Allowed jsval "(string \<times> jsval) list"
  | Denied string jsval
  | Threw

definition pass_by :: "jsval \<Rightarrow> string \<Rightarrow> decision" where
  "pass_by audit why = Allowed (set_prop audit ''skipped'' (JStr why)) []"

definition ordinal_warning :: "string \<Rightarrow> int \<Rightarrow> string" where
  "ordinal_warning message n =
     message @ newline @ newline @ ''This is the '' @ int_digits n @
     ''th repeated denial for the same file and finding signature, so Impeccable is allowing this write to avoid a loop. Reconsider the issue immediately after the tool runs.''"

definition gate_session :: "jsval \<Rightarrow> string" where
  "gate_session event =
     to_str (js_or (get_prop event ''session_id'') (js_or (get_prop event ''conversation_id'') (JStr ''unknown'')))"

definition refuse ::
  "int \<Rightarrow> hook_config \<Rightarrow> jsval \<Rightarrow> jsval \<Rightarrow> string \<Rightarrow> string \<Rightarrow> jsval \<Rightarrow> jsval list \<Rightarrow> jsval \<Rightarrow> fs \<Rightarrow> decision \<times> fs" where
  "refuse now config scanOptions event cwd filePath found filtered audit fs =
     (case cursorBlockMessage filtered filePath config cwd of
        None \<Rightarrow> (Threw, fs)
      | Some blocked \<Rightarrow>
          let message = appendDesignSystemNote blocked scanOptions;
              ((key, n), c) = bumpCursorDenial now (gate_session event) filePath filtered (readCache fs cwd);
              fs1 = persistCache cwd c fs;
              entries = [(''findings'', get_prop found ''length''), (''blockedFindings'', JInt (int (length filtered))),
                (''cursorDenialKey'', JStr key), (''cursorDenialCount'', JInt n)];
              warning = ordinal_warning message n
          in if EDIT_COUNT_THRESHOLD < n
             then (Allowed (spread audit (JObj (entries @ [(''downgraded'', JBool True),
                      (''chars'', JInt (int (length warning)))])))
                    [(''user_message'', JStr warning), (''agent_message'', JStr warning)], fs1)
             else (Denied message (spread audit (JObj (entries @ [(''chars'', JInt (int (length message)))]))), fs1))"

definition gate_scan ::
  "int \<Rightarrow> detector option \<Rightarrow> hook_config \<Rightarrow> jsval \<Rightarrow> string \<Rightarrow> string \<Rightarrow> string \<Rightarrow> jsval \<Rightarrow> fs \<Rightarrow> decision \<times> fs" where
  "gate_scan now det config event cwd filePath content audit fs =
     (case loaded_detector det of
        None \<Rightarrow> (pass_by audit ''detector-missing'', fs)
      | Some (d, detectText) \<Rightarrow>
          let scanOptions = designSystemOptions config d cwd in
          (case detectText content filePath scanOptions of
             None \<Rightarrow> (Allowed (set_prop audit ''error'' (JStr ''detector-threw'')) [], fs)
           | Some v \<Rightarrow>
               let found = js_or v (JArr []);
                   filtered = filterDetectionFindings found (hc_detection config)
               in if filtered = []
                  then (Allowed (spread audit (JObj [(''findings'', get_prop found ''length''),
                          (''blockedFindings'', JInt 0)])) [], fs)
                  else refuse now config scanOptions event cwd filePath found filtered audit fs))"

text \<open>The checks of the file, once the project directory is a string.\<close>

definition gate_file ::
  "int \<Rightarrow> detector option \<Rightarrow> jsval \<Rightarrow> string \<Rightarrow> string \<Rightarrow> jsval \<Rightarrow> fs \<Rightarrow> decision \<times> fs" where
  "gate_file now det event cwd filePath audit0 fs =
     (let ext = to_lower (path_extname filePath); audit = set_prop audit0 ''ext'' (JStr ext) in
      if filePath = [] then (pass_by audit0 ''no-file-path'', fs)
      else if \<not> gate_inside filePath cwd then (pass_by audit0 ''outside-project'', fs)
      else if re_test SENSITIVE_PATH filePath then (pass_by audit0 ''sensitive'', fs)
      else if re_test GENERATED_PATH filePath then (pass_by audit0 ''generated'', fs)
      else if ext \<notin> set ALLOWED_EXTS then (pass_by audit ''extension'', fs)
      else case proposedContent fs event cwd filePath of
        Skipped why \<Rightarrow> (pass_by audit why, fs)
      | Content content \<Rightarrow>
          let config = readConfig fs cwd; ignoreFiles = dc_ignoreFiles (hc_detection config) in
          if content = [] then (pass_by audit ''no-proposed-content'', fs)
          else if \<not> hc_enabled config then (pass_by audit ''config-disabled'', fs)
          else if matchesAnyGlob (relativePath filePath cwd) ignoreFiles \<or> matchesAnyGlob filePath ignoreFiles
          then (pass_by audit ''config-ignore-file'', fs)
          else gate_scan now det config event cwd filePath content audit fs)"

definition gate_audit :: "jsval \<Rightarrow> jsval \<Rightarrow> string \<Rightarrow> jsval" where
  "gate_audit event cwd filePath =
     JObj [(''harness'', JStr ''cursor''), (''cwd'', cwd), (''tool'', js_or (get_prop event ''tool_name'') JNull),
       (''file'', if filePath = [] then JNull else JStr filePath)]"

definition gate_event :: "int \<Rightarrow> env \<Rightarrow> string \<Rightarrow> detector option \<Rightarrow> jsval \<Rightarrow> fs \<Rightarrow> decision \<times> fs" where
  "gate_event now env processCwd det event fs =
     (case resolveProjectCwd env event (JStr processCwd) of
        JStr cwd \<Rightarrow>
          let filePath = proposedFilePath event cwd
          in gate_file now det event cwd filePath (gate_audit event (JStr cwd) filePath) fs
      | cwd \<Rightarrow>
          let filePath = proposed_candidate event in
          if trim filePath = [] then (pass_by (gate_audit event cwd []) ''no-file-path'', fs)
          else if is_absolute filePath then (pass_by (gate_audit event cwd filePath) ''outside-project'', fs)
          else (Threw, fs))"

definition gate_verdict :: "int \<Rightarrow> env \<Rightarrow> string \<Rightarrow> detector option \<Rightarrow> string \<Rightarrow> fs \<Rightarrow> decision \<times> fs" where
  "gate_verdict now env processCwd det stdin fs =
     (if truthy_env (env ''IMPECCABLE_HOOK_DISABLED'') then (pass_by (JObj []) ''env-disabled'', fs)
      else if stdin = [] then (pass_by (JObj []) ''stdin-empty'', fs)
      else case json_parse stdin of
        None \<Rightarrow> (pass_by (JObj []) ''stdin-malformed'', fs)
      | Some event \<Rightarrow>
          if \<not> truthy event \<or> \<not> typeof_object event then (pass_by (JObj []) ''stdin-empty'', fs)
          else gate_event now env processCwd det event fs)"

text \<open>\<open>allow\<close>, \<open>deny\<close> and \<open>done\<close>: the standard output and the audit log.\<close>

definition gate_main ::
  "string \<Rightarrow> int \<Rightarrow> env \<Rightarrow> string \<Rightarrow> detector option \<Rightarrow> string \<Rightarrow> fs \<Rightarrow> string \<times> fs" where
  "gate_main ts now env processCwd det stdin fs =
     (let (v, fs1) = gate_verdict now env processCwd det stdin fs;
          stamp = [(''ts'', JStr ts), (''event'', JStr ''preToolUse'')] in
      case v of
        Allowed extra reply \<Rightarrow>
          (json_text 0 0 (spread (JObj [(''permission'', JStr ''allow'')]) (JObj reply)),
           snd (writeAuditLog env (spread (JObj stamp) extra) processCwd ts fs1))
      | Denied message audit \<Rightarrow>
          (json_text 0 0 (JObj [(''permission'', JStr ''deny''), (''user_message'', JStr message),
             (''agent_message'', JStr message)]),
           snd (writeAuditLog env (spread (JObj (stamp @ [(''blocked'', JBool True)])) audit) processCwd ts fs1))
      | Threw \<Rightarrow> (json_text 0 0 (JObj [(''permission'', JStr ''allow'')]), fs1))"

section \<open>Projected edits are replacements\<close>

text \<open>One edit as a relation: the first occurrence of \<open>a\<close> in \<open>t\<close> becomes \<open>b\<close>.\<close>

definition first_replaced :: "string \<Rightarrow> string \<Rightarrow> string \<Rightarrow> string \<Rightarrow> bool" where
  "first_replaced a b t t' \<longleftrightarrow>
     (\<exists>pre post. t = pre @ a @ post \<and> t' = pre @ b @ post \<and>
        (\<forall>pre' post'. t = pre' @ a @ post' \<longrightarrow> length pre \<le> length pre'))"

lemma index_of_before: "\<exists>i. index_of (pre @ a @ post) a = Some i \<and> i \<le> length pre"
proof (induction pre)
  case Nil
  show ?case
  proof (cases "a @ post")
    case Nil
    then show ?thesis by simp
  next
    case (Cons c s)
    then have "starts_with (c # s) a" using starts_with_append[of a post] by simp
    then show ?thesis using Cons by simp
  qed
qed auto

lemma index_of_split: "index_of t a = Some i \<Longrightarrow> t = take i t @ a @ drop (i + length a) t \<and> i \<le> length t"
proof -
  assume "index_of t a = Some i"
  then have "i \<le> length t" "starts_with (drop i t) a" by (auto dest: index_of_take)
  moreover obtain s where "drop i t = a @ s" using calculation(2) by (auto simp: starts_with_prefix prefix_def)
  ultimately show ?thesis by (metis append_eq_conv_conj append_take_drop_id drop_drop add.commute)
qed

lemma replaceOnce_first_replaced:
  "replaceOnce t a b = Some t' \<longleftrightarrow> a \<noteq> [] \<and> first_replaced a b t t'"
proof (cases "a = []")
  case True
  then show ?thesis by (simp add: replaceOnce_def)
next
  case False
  show ?thesis
  proof
    assume "replaceOnce t a b = Some t'"
    then obtain i where i: "index_of t a = Some i" "t' = take i t @ b @ drop (i + length a) t"
      using False by (auto simp: replaceOnce_def)
    have "length (take i t) \<le> length pre'" if "t = pre' @ a @ post'" for pre' post'
      using index_of_before[of pre' a post'] i(1) that by auto
    then show "a \<noteq> [] \<and> first_replaced a b t t'"
      using False index_of_split[OF i(1)] i(2) unfolding first_replaced_def by blast
  next
    assume "a \<noteq> [] \<and> first_replaced a b t t'"
    then obtain pre post where p: "t = pre @ a @ post" "t' = pre @ b @ post"
      "\<And>pre' post'. t = pre' @ a @ post' \<Longrightarrow> length pre \<le> length pre'"
      unfolding first_replaced_def by blast
    obtain i where i: "index_of t a = Some i" "i \<le> length pre" using index_of_before p(1) by blast
    have "t = take i t @ a @ drop (i + length a) t" "i \<le> length t" using index_of_split[OF i(1)] by auto
    then have "i = length pre" using p(3)[of "take i t"] i(2) by fastforce
    then show "replaceOnce t a b = Some t'" using False i(1) p(1,2) by (simp add: replaceOnce_def)
  qed
qed

text \<open>A list of edits, each with its strings, applied one after the other.\<close>

inductive edited :: "string \<Rightarrow> jsval list \<Rightarrow> string \<Rightarrow> bool" where
  edited_nil: "edited t [] t"
| edited_cons: "truthy e \<Longrightarrow> typeof_object e \<Longrightarrow> old_string e = Some a \<Longrightarrow> new_string e = Some b \<Longrightarrow> a \<noteq> [] \<Longrightarrow>
    first_replaced a b t t1 \<Longrightarrow> edited t1 es t' \<Longrightarrow> edited t (e # es) t'"

inductive_cases edited_nilE: "edited t [] t'"
inductive_cases edited_consE: "edited t (e # es) t'"

text \<open>C15: The text the gate checks for a list of edits is the one the edit tool will write: it is \<open>t'\<close> exactly
  when every edit of the list names an old and a new string and the first occurrence of each old
  string in turn, beginning with the file's present text, is replaced. When an old string does not
  occur, the gate has no text to check.\<close>

theorem projected_edits_correct: "project_edits t es = Content t' \<longleftrightarrow> edited t es t'"
proof
  assume "project_edits t es = Content t'"
  then show "edited t es t'"
    by (induction es arbitrary: t)
      (auto split: if_splits option.splits intro: edited.intros simp: replaceOnce_first_replaced)
next
  assume "edited t es t'"
  then show "project_edits t es = Content t'"
  proof induction
    case (edited_cons e a b t t1 es t')
    then have "replaceOnce t a b = Some t1" by (simp add: replaceOnce_first_replaced)
    then show ?case using edited_cons by simp
  qed simp
qed

section \<open>When a write is refused\<close>

lemma refuse_denied:
  assumes "refuse now config opts event cwd f found filtered audit fs = (Denied m a, fs')"
  obtains blocked c key n where "cursorBlockMessage filtered f config cwd = Some blocked"
    "m = appendDesignSystemNote blocked opts"
    "bumpCursorDenial now (gate_session event) f filtered (readCache fs cwd) = ((key, n), c)"
    "n \<le> EDIT_COUNT_THRESHOLD" "fs' = persistCache cwd c fs"
    "a = spread audit (JObj [(''findings'', get_prop found ''length''), (''blockedFindings'', JInt (int (length filtered))),
                (''cursorDenialKey'', JStr key), (''cursorDenialCount'', JInt n), (''chars'', JInt (int (length m)))])"
  using assms unfolding refuse_def Let_def by (auto split: option.splits if_splits prod.splits)

lemma gate_scan_denied:
  assumes "gate_scan now det config event cwd f content audit fs = (Denied m a, fs')"
  obtains d detectText v where "det = Some d" "det_text d = Some detectText"
    "detectText content f (designSystemOptions config d cwd) = Some v"
    "filterDetectionFindings (js_or v (JArr [])) (hc_detection config) \<noteq> []"
    "refuse now config (designSystemOptions config d cwd) event cwd f (js_or v (JArr []))
       (filterDetectionFindings (js_or v (JArr [])) (hc_detection config)) audit fs = (Denied m a, fs')"
proof -
  obtain d dt where d: "loaded_detector det = Some (d, dt)"
    using assms by (cases "loaded_detector det") (auto simp: gate_scan_def pass_by_def)
  have dd: "det = Some d" "det_text d = Some dt" using d by (auto simp: loaded_detector_def split: option.splits)
  obtain v where v: "dt content f (designSystemOptions config d cwd) = Some v"
    using assms d by (cases "dt content f (designSystemOptions config d cwd)") (auto simp: gate_scan_def Let_def)
  have "filterDetectionFindings (js_or v (JArr [])) (hc_detection config) \<noteq> []"
    using assms d v by (auto simp: gate_scan_def Let_def)
  then show ?thesis using that[OF dd v] assms d v by (simp add: gate_scan_def Let_def)
qed

lemma gate_file_denied:
  assumes "gate_file now det event cwd f audit0 fs = (Denied m a, fs')"
  obtains content where "gate_inside f cwd" "\<not> re_test SENSITIVE_PATH f" "\<not> re_test GENERATED_PATH f"
    "to_lower (path_extname f) \<in> set ALLOWED_EXTS" "proposedContent fs event cwd f = Content content" "content \<noteq> []"
    "hc_enabled (readConfig fs cwd)" "\<not> matchesAnyGlob (relativePath f cwd) (dc_ignoreFiles (hc_detection (readConfig fs cwd)))"
    "\<not> matchesAnyGlob f (dc_ignoreFiles (hc_detection (readConfig fs cwd)))" "f \<noteq> []"
    "gate_scan now det (readConfig fs cwd) event cwd f content
       (set_prop audit0 ''ext'' (JStr (to_lower (path_extname f)))) fs = (Denied m a, fs')"
  using assms unfolding gate_file_def Let_def
  by (auto simp: pass_by_def split: if_splits proposal.splits)

lemma gate_event_denied:
  assumes "gate_event now env pc det event fs = (Denied m a, fs')"
  obtains cwd where "resolveProjectCwd env event (JStr pc) = JStr cwd"
    "gate_file now det event cwd (proposedFilePath event cwd)
       (gate_audit event (JStr cwd) (proposedFilePath event cwd)) fs = (Denied m a, fs')"
  using assms unfolding gate_event_def Let_def
  by (cases "resolveProjectCwd env event (JStr pc)") (auto simp: pass_by_def split: if_splits)


section \<open>The refusals end\<close>

text \<open>How often the cache has a refusal for findings with this signature on this file.\<close>

definition refusals :: "cache \<Rightarrow> string \<Rightarrow> string \<Rightarrow> string \<Rightarrow> int" where
  "refusals c sid f key = (case file_of c sid f of Some e \<Rightarrow> denials_in e key | None \<Rightarrow> 0)"

text \<open>A cache in which the session \<open>sid\<close> will be the latest from time \<open>t\<close> on.\<close>

definition latest_from :: "int \<Rightarrow> string \<Rightarrow> cache \<Rightarrow> bool" where
  "latest_from t sid c \<longleftrightarrow> cache_ok c \<and> (\<forall>i s. (i, s) \<in> set c \<longrightarrow> i \<noteq> sid \<longrightarrow> cs_updatedAt s < t)"

lemma bump_denial:
  assumes "bumpCursorDenial now sid f xs c = ((key, n), c')"
  shows "key = findingSignature xs" "n = refusals c sid f key + 1"
    "refusals c' sid g k = (if g = f \<and> k = key then n else refusals c sid g k)"
    "cache_ok c \<Longrightarrow> cache_ok c'" "local_step now sid c c'" "session_stamped now sid c'"
proof -
  let ?c1 = "touch_session now sid c"
  let ?e = "fst (ensureFile now sid f ?c1)" and ?c2 = "snd (ensureFile now sid f ?c1)"
  have d: "key = findingSignature xs" "n = denials_in ?e key + 1"
    "c' = set_file now sid f (?e\<lparr>cf_cursorDenials := AList.update key n (cf_cursorDenials ?e)\<rparr>) ?c2"
    using assms by (auto simp: bumpCursorDenial_def Let_def case_prod_beta simp del: ensureFile_simps)
  show "key = findingSignature xs" by (rule d(1))
  show n: "n = refusals c sid f key + 1"
    unfolding d(2) by (auto simp: refusals_def denials_in_def new_file_def split: option.splits)
  show "refusals c' sid g k = (if g = f \<and> k = key then n else refusals c sid g k)"
    unfolding d(3) by (auto simp: refusals_def denials_in_def new_file_def split: option.splits)
  show "local_step now sid c c'"
    unfolding d(3) using local_trans[OF local_trans[OF local_touch local_ensureFile] local_set_file] .
  have "session_stamped now sid ?c2" using local_ensureFile touch_stamps unfolding local_step_def by blast
  then show "session_stamped now sid c'" unfolding d(3) using local_set_file unfolding local_step_def by blast
  assume "cache_ok c"
  then have "distinct (map fst (cf_cursorDenials ?e)) \<and> cache_ok ?c2" by (intro ensureFile_ok touch_ok)
  then show "cache_ok c'" unfolding d(3) by (intro set_file_ok) (auto intro: distinct_update)
qed

lemma latest_local:
  assumes "latest_from t sid c" "local_step now sid c c'" "cache_ok c'"
  shows "latest_from t sid c'"
  unfolding latest_from_def
proof (intro conjI allI impI)
  fix i s assume "(i, s) \<in> set c'" "i \<noteq> sid"
  then have "map_of c' i = Some s" using assms(3) by (intro map_of_is_SomeI) (simp_all add: cache_ok_def)
  then have "map_of c i = Some s" using assms(2) \<open>i \<noteq> sid\<close> by (simp add: local_step_def)
  then show "cs_updatedAt s < t" using assms(1) \<open>i \<noteq> sid\<close> map_of_SomeD unfolding latest_from_def by fast
qed (rule assms(3))

lemma latest_gc: "latest_from t sid c \<Longrightarrow> latest_from t sid (gc_sessions c)"
  using gc_ok[of c] set_take_subset[of CACHE_MAX_SESSIONS "sort_key (\<lambda>(i, s). - cs_updatedAt s) c"]
  unfolding latest_from_def gc_sessions_def by (auto split: if_splits)

lemma refusals_cong: "map_of c sid = map_of c' sid \<Longrightarrow> refusals c sid f k = refusals c' sid f k"
  by (simp add: refusals_def file_of_def)

text \<open>A decision that refuses file \<open>f\<close> for the signature \<open>key\<close>.\<close>

definition refused :: "string \<Rightarrow> string \<Rightarrow> decision \<Rightarrow> bool" where
  "refused f key v =
     (case v of
        Denied m a \<Rightarrow> get_prop a ''file'' = JStr f \<and> get_prop a ''cursorDenialKey'' = JStr key
      | _ \<Rightarrow> False)"

lemma refused_simps [simp]: "\<not> refused f key (Allowed x y)" "\<not> refused f key Threw" "\<not> refused f key (pass_by x w)"
  by (simp_all add: refused_def pass_by_def)

lemma prop_spread:
  "get_prop (spread (JObj kvs) (JObj xs)) k =
     (case map_of (rev xs) k of Some v \<Rightarrow> v | None \<Rightarrow> get_prop (JObj kvs) k)"
proof -
  have "map_of (fold (\<lambda>(k, v) kvs. fields_set k v kvs) xs kvs) k =
      (case map_of (rev xs) k of Some v \<Rightarrow> Some v | None \<Rightarrow> map_of kvs k)"
    by (induction xs arbitrary: kvs) (auto simp: map_add_def split: option.splits)
  then show ?thesis by (simp add: spread_def split: option.splits)
qed

lemma refuse_step:
  assumes "refuse now config opts event P f found filtered audit fs = (v, fs')"
    and ready: "latest_from t (gate_session event) (readCache fs P)" "t \<le> now"
    and fld: "get_prop audit ''file'' = JStr f" "\<exists>kvs. audit = JObj kvs"
  shows "latest_from t (gate_session event) (readCache fs' P)"
    "refusals (readCache fs P) (gate_session event) g k \<le> refusals (readCache fs' P) (gate_session event) g k"
    "refused g k v \<Longrightarrow>
       refusals (readCache fs' P) (gate_session event) g k = refusals (readCache fs P) (gate_session event) g k + 1 \<and>
       refusals (readCache fs' P) (gate_session event) g k \<le> EDIT_COUNT_THRESHOLD"
proof -
  let ?sid = "gate_session event" and ?c = "readCache fs P"
  have "(fs' = fs \<and> v = Threw) \<or> (\<exists>key n c. bumpCursorDenial now ?sid f filtered ?c = ((key, n), c) \<and>
      fs' = persistCache P c fs \<and> (refused g k v \<longrightarrow> g = f \<and> k = key \<and> n \<le> EDIT_COUNT_THRESHOLD))"
  proof (cases "cursorBlockMessage filtered f config P")
    case None
    then show ?thesis using assms(1) by (simp add: refuse_def)
  next
    case (Some blocked)
    obtain key n c where b: "bumpCursorDenial now ?sid f filtered ?c = ((key, n), c)" by (metis surj_pair)
    have "fs' = persistCache P c fs" using assms(1) Some b by (auto simp: refuse_def Let_def split: if_splits)
    moreover have "refused g k v \<longrightarrow> g = f \<and> k = key \<and> n \<le> EDIT_COUNT_THRESHOLD"
    proof
      assume r: "refused g k v"
      then obtain m a where v: "v = Denied m a" by (auto simp: refused_def split: decision.splits)
      obtain key' n' c' where "bumpCursorDenial now ?sid f filtered ?c = ((key', n'), c')" "n' \<le> EDIT_COUNT_THRESHOLD"
        "a = spread audit (JObj [(''findings'', get_prop found ''length''), (''blockedFindings'', JInt (int (length filtered))),
                (''cursorDenialKey'', JStr key'), (''cursorDenialCount'', JInt n'), (''chars'', JInt (int (length m)))])"
        using assms(1)[unfolded v] by (rule refuse_denied)
      note a = this
      obtain kvs where kvs: "audit = JObj kvs" using fld(2) by blast
      have "key' = key" "n' = n" using a(1) b by simp_all
      moreover have "get_prop a ''file'' = JStr f" "get_prop a ''cursorDenialKey'' = JStr key'"
        using fld(1) unfolding a(3) kvs prop_spread by simp_all
      ultimately show "g = f \<and> k = key \<and> n \<le> EDIT_COUNT_THRESHOLD"
        using r a(2) unfolding v refused_def by simp
    qed
    ultimately show ?thesis using b by blast
  qed
  then consider (threw) "fs' = fs" "v = Threw"
    | (kept) key n c where "bumpCursorDenial now ?sid f filtered ?c = ((key, n), c)" "fs' = persistCache P c fs"
      "refused g k v \<longrightarrow> g = f \<and> k = key \<and> n \<le> EDIT_COUNT_THRESHOLD" by blast
  then have "latest_from t ?sid (readCache fs' P) \<and> refusals ?c ?sid g k \<le> refusals (readCache fs' P) ?sid g k \<and>
    (refused g k v \<longrightarrow> refusals (readCache fs' P) ?sid g k = refusals ?c ?sid g k + 1 \<and>
       refusals (readCache fs' P) ?sid g k \<le> EDIT_COUNT_THRESHOLD)"
  proof cases
    case threw
    then show ?thesis using ready by simp
  next
    case kept
    note b = bump_denial[OF kept(1)]
    have ok: "cache_ok c" using b(4) ready(1) by (simp add: latest_from_def)
    have l: "latest_from t ?sid c" using ready(1) b(5) ok by (rule latest_local)
    obtain s where s: "map_of c ?sid = Some s" "cs_updatedAt s = now" using b(6) by (auto simp: session_stamped_def)
    have "map_of (gc_sessions c) ?sid = Some s"
      by (rule gc_keeps_stamped[OF ok s]) (use l ready(2) in \<open>fastforce simp: latest_from_def\<close>)
    then have r: "refusals (readCache fs' P) ?sid g k = refusals c ?sid g k"
      unfolding kept(2) persist_then_read[OF ok] using s(1) by (intro refusals_cong) simp
    have l': "latest_from t ?sid (readCache fs' P)"
      unfolding kept(2) persist_then_read[OF ok] using l by (rule latest_gc)
    have "refusals c ?sid g k = (if g = f \<and> k = key then n else refusals ?c ?sid g k)" by (rule b(3))
    then have "refusals ?c ?sid g k \<le> refusals c ?sid g k"
      "g = f \<and> k = key \<Longrightarrow> refusals c ?sid g k = refusals ?c ?sid g k + 1 \<and> refusals c ?sid g k = n"
      using b(2) by (simp_all split: if_splits)
    then show ?thesis unfolding r using l' kept(3) by metis
  qed
  then show "latest_from t ?sid (readCache fs' P)" "refusals ?c ?sid g k \<le> refusals (readCache fs' P) ?sid g k"
    "refused g k v \<Longrightarrow> refusals (readCache fs' P) ?sid g k = refusals ?c ?sid g k + 1 \<and>
       refusals (readCache fs' P) ?sid g k \<le> EDIT_COUNT_THRESHOLD"
    by auto
qed

lemma gate_event_form:
  assumes "gate_event now env pc det event fs = (v, fs')" "resolveProjectCwd env event (JStr pc) = JStr P"
  shows "fs' = fs \<and> (\<forall>f k. \<not> refused f k v) \<or>
    (\<exists>config opts f found filtered audit. refuse now config opts event P f found filtered audit fs = (v, fs') \<and>
       get_prop audit ''file'' = JStr f \<and> (\<exists>kvs. audit = JObj kvs))"
proof -
  let ?f = "proposedFilePath event P"
  let ?a = "gate_audit event (JStr P) ?f"
  have g: "gate_file now det event P ?f ?a fs = (v, fs')" using assms by (simp add: gate_event_def Let_def)
  let ?audit = "set_prop ?a ''ext'' (JStr (to_lower (path_extname ?f)))"
  have a: "get_prop ?audit ''file'' = JStr ?f" "\<exists>kvs. ?audit = JObj kvs" if "?f \<noteq> []"
    using that by (auto simp: gate_audit_def set_prop_def)
  have quiet: "fs' = fs \<and> (\<forall>f k. \<not> refused f k v)" if "(v, fs') = (pass_by x w, fs)" for x w
    using that by simp
  show ?thesis
  proof (cases "?f = []")
    case True
    then have "(v, fs') = (pass_by ?a ''no-file-path'', fs)" using g by (simp add: gate_file_def)
    then show ?thesis using quiet by blast
  next
    case False
    have "(\<exists>x w. (v, fs') = (pass_by x w, fs)) \<or>
        (\<exists>content. gate_scan now det (readConfig fs P) event P ?f content ?audit fs = (v, fs'))"
      using g unfolding gate_file_def Let_def by (auto split: if_splits proposal.splits)
    moreover have ?thesis if "gate_scan now det (readConfig fs P) event P ?f content ?audit fs = (v, fs')" for content
      using that a[OF False] unfolding gate_scan_def Let_def
      by (auto split: option.splits if_splits) 
    ultimately show ?thesis using quiet by blast
  qed
qed

text \<open>A history of a project: the gate runs for events of one session, and files other than its cache change.\<close>

inductive gate_run :: "int \<Rightarrow> string \<Rightarrow> string \<Rightarrow> fs \<Rightarrow> decision list \<Rightarrow> fs \<Rightarrow> bool" for t P sid fs where
  run_start: "gate_run t P sid fs [] fs"
| run_edit: "gate_run t P sid fs vs fs1 \<Longrightarrow> fs2 (getCachePath P) = fs1 (getCachePath P) \<Longrightarrow> gate_run t P sid fs vs fs2"
| run_gate: "gate_run t P sid fs vs fs1 \<Longrightarrow> t \<le> now \<Longrightarrow> resolveProjectCwd env event (JStr pc) = JStr P \<Longrightarrow>
    gate_session event = sid \<Longrightarrow> gate_event now env pc det event fs1 = (v, fs2) \<Longrightarrow>
    gate_run t P sid fs (vs @ [v]) fs2"

lemma readCache_cong: "fs2 (getCachePath P) = fs1 (getCachePath P) \<Longrightarrow> readCache fs2 P = readCache fs1 P"
  by (simp add: readCache_def hook_readJson_def readFileSync_def)

lemma gate_run_counts:
  assumes "gate_run t P sid fs vs fs'" "latest_from t sid (readCache fs P)"
  shows "latest_from t sid (readCache fs' P) \<and>
    int (length (filter (refused f k) vs)) + refusals (readCache fs P) sid f k \<le> refusals (readCache fs' P) sid f k \<and>
    (filter (refused f k) vs = [] \<or>
     int (length (filter (refused f k) vs)) + refusals (readCache fs P) sid f k \<le> EDIT_COUNT_THRESHOLD)"
  using assms(1)
proof induction
  case run_start
  then show ?case using assms(2) by simp
next
  case (run_edit vs fs1 fs2)
  have "readCache fs2 P = readCache fs1 P" using run_edit(2) by (rule readCache_cong)
  then show ?case using run_edit by simp
next
  case (run_gate vs fs1 now env event pc det v fs2)
  from gate_event_form[OF run_gate(5,3)] show ?case
  proof
    assume "fs2 = fs1 \<and> (\<forall>f k. \<not> refused f k v)"
    then show ?thesis using run_gate by simp
  next
    assume "\<exists>config opts f found filtered audit. refuse now config opts event P f found filtered audit fs1 = (v, fs2) \<and>
       get_prop audit ''file'' = JStr f \<and> (\<exists>kvs. audit = JObj kvs)"
    then obtain config opts g found filtered audit where r:
      "refuse now config opts event P g found filtered audit fs1 = (v, fs2)"
      "get_prop audit ''file'' = JStr g" "\<exists>kvs. audit = JObj kvs" by blast
    have l: "latest_from t (gate_session event) (readCache fs1 P)" using run_gate by simp
    note s = refuse_step[OF r(1) l run_gate(2) r(2,3), unfolded run_gate(4)]
    show ?thesis using run_gate.IH s(1) s(2)[of f k] s(3)[of f k] by (cases "refused f k v") auto
  qed
qed


section \<open>Witnesses\<close>

definition ex_write :: jsval where
  "ex_write = JObj [(''cwd'', JStr ''/''), (''session_id'', JStr ''s''),
     (''tool_input'', JObj [(''file_path'', JStr ''/a.js''), (''content'', JStr ''x'')])]"

lemma ex_write_facts:
  "resolveProjectCwd (\<lambda>_. None) ex_write (JStr p) = JStr ''/''" "gate_session ex_write = ''s''"
  "proposedFilePath ex_write ''/'' = ''/a.js''" "proposedContent fs ex_write ''/'' f = Content ''x''"
  by (simp_all add: ex_write_def resolveProjectCwd_def js_or_def gate_session_def proposedFilePath_def
      proposed_candidate_def toolInput_def proposedContent_def is_absolute_def starts_with_def)
    (simp add: trim_def trim_start_def trim_end_def is_space_def code_def Let_def is_absolute_def starts_with_def)

lemma ex_gate_path: "gate_inside ''/a.js'' ''/''" "findingSignature [ex_finding 3] = ''x:3''"
  by code_simp+

lemma ex_denied:
  obtains m a fs1 where "gate_event 5 (\<lambda>_. None) ''/'' (Some (ex_det 3)) ex_write ex_fs = (Denied m a, fs1)"
    "refused ''/a.js'' ''x:3'' (Denied m a)"
proof -
  let ?a = "set_prop (gate_audit ex_write (JStr ''/'') ''/a.js'') ''ext'' (JStr ''.js'')"
  let ?o = "designSystemOptions cloneDefaultConfig (ex_det 3) ''/''"
  let ?r = "refuse 5 cloneDefaultConfig ?o ex_write ''/'' ''/a.js'' (JArr [ex_finding 3]) [ex_finding 3] ?a ex_fs"
  have f: "filterDetectionFindings (JArr [ex_finding 3]) (hc_detection cloneDefaultConfig) = [ex_finding 3]"
    by (simp add: cloneDefaultConfig_def ex_filter)
  have "gate_event 5 (\<lambda>_. None) ''/'' (Some (ex_det 3)) ex_write ex_fs = ?r"
    using ex_scannable[OF ex_like_ex_fs, unfolded scannable_def]
    by (simp add: gate_event_def ex_write_facts gate_file_def ex_gate_path ex_path ALLOWED_EXTS_def Let_def
        ex_config[OF ex_like_ex_fs] gate_scan_def loaded_detector_def ex_det_def ex_text_def js_or_def f)
      (simp add: cloneDefaultConfig_def cloneDetectionConfig_def matchesAnyGlob_def)
  moreover have "\<exists>m a fs1. ?r = (Denied m a, fs1) \<and> refused ''/a.js'' ''x:3'' (Denied m a)"
  proof -
    have "list_all printable_finding [ex_finding 3]" by (simp add: printable_finding_def trimmable_def ex_finding_def)
    then obtain t where "renderTemplate [ex_finding 3] ''/a.js'' cloneDefaultConfig ''/'' = Some t"
      using renderTemplate_prints by blast
    then obtain b where b: "cursorBlockMessage [ex_finding 3] ''/a.js'' cloneDefaultConfig ''/'' = Some b"
      by (auto simp: cursorBlockMessage_def)
    obtain key n c where d: "bumpCursorDenial 5 (gate_session ex_write) ''/a.js'' [ex_finding 3] (readCache ex_fs ''/'') = ((key, n), c)"
      by (metis surj_pair)
    have kn: "key = ''x:3''" "n = 1"
      using bump_denial(1,2)[OF d] ex_gate_path(2) by (simp_all add: ex_cache refusals_def file_of_def)
    obtain kvs where a: "?a = JObj kvs" by (simp add: set_prop_def)
    have "get_prop (JObj kvs) ''file'' = JStr ''/a.js''" unfolding a[symmetric] by (simp add: gate_audit_def)
    then show ?thesis
      using b d kn unfolding refuse_def a by (simp add: Let_def EDIT_COUNT_THRESHOLD_def refused_def prop_spread)
  qed
  ultimately show ?thesis using that by metis
qed



end
