(* ===== verification/HookManifests.thy ===== *)
theory HookManifests
  imports HookConfig
begin

text \<open>
  The manifests that make the coding agents call the design hook (\<open>hook-admin.mjs\<close>): where each
  provider has its manifest and what ours says, the merge with the entries of others, the removal of
  our entries from a manifest, and the repair of all manifests with the backup of a broken one. The
  lemmas show that the merge keeps what is not ours (\<open>manifest_keeps_others\<close>) and that a repair is
  stable (\<open>repair_settles\<close>): the entries written are recognised as ours and replaced by themselves.

  An exception of \<open>node:fs\<close> in the repair is \<open>Inl\<close> with the files as they are by then; a directory in
  the place of a manifest or of its backup causes one.
\<close>

section \<open>Constants\<close>

definition IMPECCABLE_HOOK_COMMAND_MARKERS :: "string list" where
  "IMPECCABLE_HOOK_COMMAND_MARKERS =
     [''skills/impeccable/scripts/hook-probe.mjs'', ''skills/impeccable/scripts/hook.mjs'',
      ''skills/impeccable/scripts/hook-before-edit.mjs'', ''skills/impeccable/scripts/hook-after-edit.mjs'',
      ''skills/impeccable/scripts/hook-stop.mjs'']"

definition TIMEOUT_SECONDS :: jsval where "TIMEOUT_SECONDS = JInt 5"
definition STATUS_MESSAGE :: jsval where "STATUS_MESSAGE = JStr ''Checking UI changes''"

text \<open>The place of a provider's manifest and its content.\<close>

record target =
  tg_provider :: string
  tg_skillRel :: string
  tg_destRel :: string
  tg_sharedDestRel :: "string option"
  tg_manifest :: jsval

definition claude_target :: target where
  "claude_target =
     \<lparr>tg_provider = ''.claude'', tg_skillRel = ''.claude/skills/impeccable'', tg_destRel = ''.claude/settings.local.json'',
      tg_sharedDestRel = Some ''.claude/settings.json'',
      tg_manifest = JObj
        [(''description'', JStr ''Impeccable design detector: runs after Edit/Write/MultiEdit on UI files and surfaces findings as system reminders.''),
         (''hooks'', JObj [(''PostToolUse'', JArr [JObj
            [(''matcher'', JStr ''Edit|Write|MultiEdit''),
             (''hooks'', JArr [JObj
                [(''type'', JStr ''command''),
                 (''command'', JStr ''node \"${CLAUDE_PROJECT_DIR}/.claude/skills/impeccable/scripts/hook.mjs\"''),
                 (''timeout'', TIMEOUT_SECONDS), (''statusMessage'', STATUS_MESSAGE)]])]])])]\<rparr>"

definition agents_target :: target where
  "agents_target =
     \<lparr>tg_provider = ''.agents'', tg_skillRel = ''.agents/skills/impeccable'', tg_destRel = ''.codex/hooks.json'',
      tg_sharedDestRel = None,
      tg_manifest = JObj
        [(''hooks'', JObj [(''PostToolUse'', JArr [JObj
            [(''matcher'', JStr ''Edit|Write|apply_patch''),
             (''hooks'', JArr [JObj
                [(''type'', JStr ''command''),
                 (''command'', JStr ''node \".agents/skills/impeccable/scripts/hook.mjs\"''),
                 (''timeout'', TIMEOUT_SECONDS), (''statusMessage'', STATUS_MESSAGE)]])]])])]\<rparr>"

definition cursor_target :: target where
  "cursor_target =
     \<lparr>tg_provider = ''.cursor'', tg_skillRel = ''.cursor/skills/impeccable'', tg_destRel = ''.cursor/hooks.json'',
      tg_sharedDestRel = None,
      tg_manifest = JObj
        [(''version'', JInt 1),
         (''hooks'', JObj [(''preToolUse'', JArr [JObj
            [(''command'', JStr ''node \".cursor/skills/impeccable/scripts/hook-before-edit.mjs\"''),
             (''timeout'', TIMEOUT_SECONDS)]])])]\<rparr>"

definition github_target :: target where
  "github_target =
     \<lparr>tg_provider = ''.github'', tg_skillRel = ''.github/skills/impeccable'', tg_destRel = ''.github/hooks/impeccable.json'',
      tg_sharedDestRel = None,
      tg_manifest = JObj
        [(''version'', JInt 1),
         (''hooks'', JObj [(''postToolUse'', JArr [JObj
            [(''type'', JStr ''command''), (''matcher'', JStr ''edit|create|apply_patch''),
             (''bash'', JStr ''node \"$(git rev-parse --show-toplevel)/.github/skills/impeccable/scripts/hook.mjs\"''),
             (''timeoutSec'', TIMEOUT_SECONDS)]])])]\<rparr>"

definition HOOK_MANIFEST_TARGETS :: "target list" where
  "HOOK_MANIFEST_TARGETS = [claude_target, agents_target, cursor_target, github_target]"

section \<open>Hook manifests\<close>

fun has_marker :: "jsval \<Rightarrow> bool" and has_marker_list :: "jsval list \<Rightarrow> bool"
  and has_marker_fields :: "(string \<times> jsval) list \<Rightarrow> bool" where
  "has_marker (JStr s) = list_ex (str_includes s) IMPECCABLE_HOOK_COMMAND_MARKERS"
| "has_marker (JArr xs) = has_marker_list xs"
| "has_marker (JObj kvs) = has_marker_fields kvs"
| "has_marker _ = False"
| "has_marker_list [] = False"
| "has_marker_list (x # xs) = (has_marker x \<or> has_marker_list xs)"
| "has_marker_fields [] = False"
| "has_marker_fields ((k, v) # kvs) = (has_marker v \<or> has_marker_fields kvs)"

definition own_command :: "jsval \<Rightarrow> bool" where
  "own_command entry \<longleftrightarrow>
     has_marker (get_prop entry ''command'') \<or> has_marker (get_prop entry ''args'') \<or>
     has_marker (get_prop entry ''bash'') \<or> has_marker (get_prop entry ''powershell'')"

lemma size_of_field: "map_of kvs k = Some v \<Longrightarrow> size v < Suc (size_list (size_prod (\<lambda>_. 0) size) kvs)"
  by (induction kvs) (auto split: if_splits)

lemma size_of_hooks:
  assumes "get_prop entry k = JArr xs" "x \<in> set xs"
  shows "size x < size entry"
proof -
  obtain kvs where kvs: "entry = JObj kvs" "map_of kvs k = Some (JArr xs)"
    using assms(1) by (cases entry) (auto split: option.splits if_splits)
  have "size x < size (JArr xs)" using assms(2) by (simp add: size_list_estimation' less_Suc_eq_le)
  then show ?thesis using size_of_field[OF kvs(2)] kvs(1) by simp
qed

function strip_entry :: "jsval \<Rightarrow> jsval" where
  "strip_entry entry =
     (if \<not> truthy entry \<or> \<not> typeof_object entry then entry
      else if own_command entry then JNull
      else case get_prop entry ''hooks'' of
        JArr hooks \<Rightarrow>
          let strippedHooks = filter truthy (map strip_entry hooks) in
          if strippedHooks = [] \<and> has_marker_list hooks then JNull
          else set_prop entry ''hooks'' (JArr strippedHooks)
      | _ \<Rightarrow> entry)"
  by pat_completeness auto
termination by (relation "measure size") (auto intro: size_of_hooks)

declare strip_entry.simps [simp del]

definition strip_entries :: "jsval \<Rightarrow> jsval list" where
  "strip_entries entries = filter truthy (map strip_entry (arr_of entries))"

definition object_or_empty :: "jsval \<Rightarrow> jsval" where
  "object_or_empty v = (if plain_object v then v else JObj [])"

text \<open>The events of both manifests, those of the existing one first.\<close>

definition hook_events :: "jsval \<Rightarrow> jsval \<Rightarrow> string list" where
  "hook_events existingHooks freshHooks =
     uniq (map fst (obj_fields existingHooks) @ map fst (obj_fields freshHooks))"

definition merged_entries :: "jsval \<Rightarrow> jsval \<Rightarrow> string \<Rightarrow> jsval list" where
  "merged_entries existingHooks freshHooks event =
     strip_entries (get_prop existingHooks event) @ arr_of (get_prop freshHooks event)"

definition mergeHookManifests :: "jsval \<Rightarrow> jsval \<Rightarrow> jsval" where
  "mergeHookManifests existing fresh =
     (let existingObject = object_or_empty existing;
          freshObject = object_or_empty fresh;
          existingHooks = object_or_empty (get_prop existingObject ''hooks'');
          freshHooks = object_or_empty (get_prop freshObject ''hooks'');
          hooks = JObj (map (\<lambda>e. (e, JArr (merged_entries existingHooks freshHooks e)))
                    (filter (\<lambda>e. merged_entries existingHooks freshHooks e \<noteq> []) (hook_events existingHooks freshHooks)));
          m1 = set_prop existingObject ''hooks'' hooks;
          m2 = (if get_prop freshObject ''version'' \<noteq> JUndef
                then set_prop m1 ''version'' (get_prop freshObject ''version'') else m1)
      in if get_prop freshObject ''description'' \<noteq> JUndef
         then set_prop m2 ''description'' (get_prop freshObject ''description'') else m2)"

definition fileHasImpeccableHookMarker :: "fs \<Rightarrow> string \<Rightarrow> bool" where
  "fileHasImpeccableHookMarker fs p =
     (case Option.bind (readFileSync fs p) json_parse of
        None \<Rightarrow> False
      | Some parsed \<Rightarrow>
          plain_object parsed \<and> truthy (get_prop parsed ''hooks'') \<and> typeof_object (get_prop parsed ''hooks'') \<and>
          has_marker (get_prop parsed ''hooks''))"

text \<open>The manifest without our entries; \<open>None\<close>: nothing is left of it.\<close>

definition pruned :: "jsval \<Rightarrow> jsval option" where
  "pruned parsed =
     (let existingHooks = object_or_empty (get_prop parsed ''hooks'');
          cleaned = filter (\<lambda>(e, v). v \<noteq> JArr [])
            (map (\<lambda>(e, entries). (e, JArr (strip_entries entries))) (obj_fields existingHooks));
          nxt = (if cleaned \<noteq> [] then set_prop parsed ''hooks'' (JObj cleaned)
                 else delete_prop (delete_prop (delete_prop parsed ''hooks'') ''description'') ''version'')
      in if obj_fields nxt = [] then None else Some nxt)"

definition pruneImpeccableHookFromManifest :: "string \<Rightarrow> fs \<Rightarrow> fs" where
  "pruneImpeccableHookFromManifest p fs =
     (if \<not> fileHasImpeccableHookMarker fs p then fs
      else case Option.bind (readFileSync fs p) json_parse of
        None \<Rightarrow> fs
      | Some parsed \<Rightarrow>
          (case pruned parsed of None \<Rightarrow> unlinkSync p fs | Some nxt \<Rightarrow> write_json 2 p nxt fs))"

record repair =
  rp_written :: "string list"
  rp_already :: "string list"
  rp_backups :: "string list"

definition json_line :: "jsval \<Rightarrow> string" where
  "json_line v = (case json_stringify 2 v of Some t \<Rightarrow> t | None \<Rightarrow> ''undefined'') @ newline"

text \<open>One provider; \<open>Inl\<close>: an exception, with the files as they are then.\<close>

definition repair_target :: "string \<Rightarrow> target \<Rightarrow> repair \<times> fs \<Rightarrow> fs + repair \<times> fs" where
  "repair_target cwd tg st =
     (case st of (res, fs) \<Rightarrow>
        let dest = path_join cwd (tg_destRel tg); fresh = tg_manifest tg;
            shared = (case tg_sharedDestRel tg of
              Some s \<Rightarrow> fileHasImpeccableHookMarker fs (path_join cwd s) | None \<Rightarrow> False) in
        if \<not> existsSync fs (path_join cwd (tg_skillRel tg)) then Inr (res, fs)
        else if shared
        then Inr (res\<lparr>rp_already := rp_already res @ [tg_provider tg]\<rparr>, pruneImpeccableHookFromManifest dest fs)
        else if fs dest = Some Dir then Inl fs
        else
          let parsed = Option.bind (readFileSync fs dest) json_parse;
              broken = existsSync fs dest \<and> parsed = None;
              nxt = (case parsed of Some old \<Rightarrow> mergeHookManifests old fresh | None \<Rightarrow> fresh);
              fs1 = (if broken then writeFileSync (dest @ ''.bak'') (the (readFileSync fs dest)) fs else fs);
              res1 = (if broken then res\<lparr>rp_backups := rp_backups res @ [dest @ ''.bak'']\<rparr> else res)
          in if broken \<and> fs (dest @ ''.bak'') = Some Dir then Inl fs
             else if readFileSync fs1 dest = Some (json_line nxt)
             then Inr (res1\<lparr>rp_already := rp_already res1 @ [tg_provider tg]\<rparr>, fs1)
             else Inr (res1\<lparr>rp_written := rp_written res1 @ [tg_provider tg]\<rparr>, writeFileSync dest (json_line nxt) fs1))"

fun repair_targets :: "string \<Rightarrow> target list \<Rightarrow> repair \<times> fs \<Rightarrow> fs + repair \<times> fs" where
  "repair_targets cwd [] st = Inr st"
| "repair_targets cwd (tg # tgs) st =
     (case repair_target cwd tg st of Inl fs \<Rightarrow> Inl fs | Inr st' \<Rightarrow> repair_targets cwd tgs st')"

definition repairHookManifests :: "string \<Rightarrow> fs \<Rightarrow> fs + repair \<times> fs" where
  "repairHookManifests cwd fs =
     repair_targets cwd HOOK_MANIFEST_TARGETS (\<lparr>rp_written = [], rp_already = [], rp_backups = []\<rparr>, fs)"

section \<open>JSON values and paths\<close>

lemma wf_set_prop: "json_wf (JObj m) \<Longrightarrow> json_wf v \<Longrightarrow> json_wf (set_prop (JObj m) k v)"
  unfolding set_prop_def obj_fields.simps by (rule fields_set_wf)

lemma wf_filter: "json_wf (JObj m) \<Longrightarrow> json_wf (JObj (filter P m))"
  by (auto simp: list_all_iff distinct_map_filter)

lemma wf_delete_prop: "json_wf (JObj m) \<Longrightarrow> json_wf (delete_prop (JObj m) k)"
  unfolding delete_prop_def obj_fields.simps by (rule wf_filter)

lemma wf_spread: "json_wf (JObj a) \<Longrightarrow> json_wf (JObj b) \<Longrightarrow> json_wf (spread (JObj a) (JObj b))"
  unfolding spread_def obj_fields.simps by (rule fold_fields_set_wf) auto

lemma wf_get: "json_wf v \<Longrightarrow> get_prop v k = JUndef \<or> json_wf (get_prop v k)"
  by (cases v) (auto simp: list_all_iff split: option.splits dest: map_of_SomeD)

lemma norm_segs_append: "norm_segs acc (xs @ ys) = norm_segs (rev (norm_segs acc xs)) ys"
  by (induction acc xs rule: norm_segs.induct) auto

lemma split_on_sep: "split_on d (xs @ d # ys) = split_on d xs @ split_on d ys"
  by (induction xs) (auto split: list.splits)

text \<open>A plain relative path is the absolute one's last part.\<close>

definition root_of :: "string \<Rightarrow> string" where
  "root_of cwd = concat (map (\<lambda>s. CHR ''/'' # s) (norm_segs [] (split_on CHR ''/'' cwd)))"

lemma join_slashes: "xs \<noteq> [] \<Longrightarrow> CHR ''/'' # join ''/'' xs = concat (map (\<lambda>s. CHR ''/'' # s) xs)"
proof (induction xs)
  case (Cons x xs)
  then show ?case by (cases xs) (simp_all add: join_Cons_nonempty)
qed simp

lemma norm_segs_plain:
  "(\<And>s. s \<in> set ss \<Longrightarrow> s \<notin> {[], ''.'', ''..''}) \<Longrightarrow> norm_segs acc ss = rev acc @ ss"
  by (induction acc ss rule: norm_segs.induct) auto

lemma path_plain:
  assumes "list_all (\<lambda>s. s \<notin> {[], ''.'', ''..''}) (split_on CHR ''/'' p)"
  shows "path_join cwd p = root_of cwd @ CHR ''/'' # p"
proof -
  let ?N = "norm_segs [] (split_on CHR ''/'' cwd)" and ?ss = "split_on CHR ''/'' p"
  have "norm_segs [] (split_on CHR ''/'' (cwd @ ''/'' @ p)) = ?N @ ?ss"
    using assms norm_segs_plain[of ?ss] by (simp add: split_on_sep norm_segs_append list_all_iff)
  then have "path_join cwd p = CHR ''/'' # join ''/'' (?N @ ?ss)" by (simp add: path_join_def path_string_def)
  also have "\<dots> = root_of cwd @ CHR ''/'' # join ''/'' ?ss" using join_slashes[of ?ss] by (simp add: join_slashes root_of_def)
  finally show ?thesis by (simp only: join_split_on)
qed

text \<open>The state and configuration files of a project are different files.\<close>

lemma impeccable_paths:
  "getConfigPath cwd = root_of cwd @ ''/.impeccable/config.json''"
  "getLocalConfigPath cwd = root_of cwd @ ''/.impeccable/config.local.json''"
  "getCachePath cwd = root_of cwd @ ''/.impeccable/hook.cache.json''"
  "getPendingPath cwd = root_of cwd @ ''/.impeccable/hook.pending.json''"
  by (simp_all add: getConfigPath_def getLocalConfigPath_def getCachePath_def getPendingPath_def path_plain)

lemma paths_differ:
  "getConfigPath cwd \<noteq> getLocalConfigPath cwd" "getConfigPath cwd \<noteq> getCachePath cwd" "getConfigPath cwd \<noteq> getPendingPath cwd"
  "getLocalConfigPath cwd \<noteq> getCachePath cwd" "getLocalConfigPath cwd \<noteq> getPendingPath cwd"
  "getCachePath cwd \<noteq> getPendingPath cwd"
  by (simp_all add: impeccable_paths)

section \<open>Manifests\<close>

lemma strip_entry_atom: "\<not> truthy e \<or> \<not> typeof_object e \<Longrightarrow> strip_entry e = e"
  by (subst strip_entry.simps) simp

lemma set_prop_same: "get_prop (JObj m) k = v \<Longrightarrow> v \<noteq> JUndef \<Longrightarrow> set_prop (JObj m) k v = JObj m"
  by (auto simp: set_prop_def fields_set_same split: option.splits)

lemma get_array_obj: "get_prop e k = JArr xs \<Longrightarrow> \<exists>kvs. e = JObj kvs"
  by (cases e) (auto split: if_splits)

lemma strip_entry_idem: "strip_entry (strip_entry e) = strip_entry e"
proof (induction e rule: strip_entry.induct)
  case (1 e)
  show ?case
  proof (cases "\<not> truthy e \<or> \<not> typeof_object e \<or> own_command e \<or> (\<forall>hooks. get_prop e ''hooks'' \<noteq> JArr hooks)")
    case True
    then have "strip_entry e = e \<or> strip_entry e = JNull"
      by (subst (1 2) strip_entry.simps) (auto split: jsval.splits)
    then show ?thesis by (auto simp: strip_entry_atom)
  next
    case False
    then obtain hooks where h: "truthy e" "typeof_object e" "\<not> own_command e" "get_prop e ''hooks'' = JArr hooks" by auto
    obtain kvs where kvs: "e = JObj kvs" using get_array_obj[OF h(4)] by blast
    let ?S = "filter truthy (map strip_entry hooks)"
    have s: "strip_entry e = (if ?S = [] \<and> has_marker_list hooks then JNull else set_prop e ''hooks'' (JArr ?S))"
      using h by (subst strip_entry.simps) (simp add: Let_def)
    have IH: "strip_entry (strip_entry x) = strip_entry x" if "x \<in> set hooks" for x
      using 1[OF _ _ h(4) that] h by blast
    have S: "filter truthy (map strip_entry ?S) = ?S" using IH by (induction hooks) auto
    obtain m where m: "set_prop e ''hooks'' (JArr ?S) = JObj m" by (simp add: set_prop_def)
    have "\<not> own_command (JObj m)" using h(3) unfolding m[symmetric] by (simp add: own_command_def kvs)
    moreover have g: "get_prop (JObj m) ''hooks'' = JArr ?S" unfolding m[symmetric] by simp
    ultimately have "strip_entry (JObj m) = (if ?S = [] \<and> has_marker_list ?S then JNull else set_prop (JObj m) ''hooks'' (JArr ?S))"
      using S by (subst strip_entry.simps) (simp add: Let_def del: get_prop.simps)
    then show ?thesis using s m set_prop_same[OF g] by (auto simp: strip_entry_atom)
  qed
qed

lemma strip_entry_wf: "json_wf e \<Longrightarrow> json_wf (strip_entry e)"
proof (induction e rule: strip_entry.induct)
  case (1 e)
  show ?case
  proof (cases "\<not> truthy e \<or> \<not> typeof_object e \<or> own_command e \<or> (\<forall>hooks. get_prop e ''hooks'' \<noteq> JArr hooks)")
    case True
    then have "strip_entry e = e \<or> strip_entry e = JNull"
      by (subst (1 2) strip_entry.simps) (auto split: jsval.splits)
    then show ?thesis using 1 by auto
  next
    case False
    then obtain hooks where h: "truthy e" "typeof_object e" "\<not> own_command e" "get_prop e ''hooks'' = JArr hooks" by auto
    obtain kvs where kvs: "e = JObj kvs" using get_array_obj[OF h(4)] by blast
    have "json_wf (JArr hooks)" using wf_get[OF 1(2), of "''hooks''"] by (simp add: h(4))
    then have "list_all json_wf (map strip_entry hooks)" using 1(1)[OF _ _ h(4)] h by (auto simp: list_all_iff)
    then have "json_wf (JArr (filter truthy (map strip_entry hooks)))" by (auto simp: list_all_iff)
    then show ?thesis using h 1(2) wf_set_prop unfolding kvs by (subst strip_entry.simps) (auto simp: Let_def)
  qed
qed

lemma strip_entries_idem: "strip_entries (JArr (strip_entries v @ ys)) = strip_entries v @ strip_entries (JArr ys)"
proof -
  have "filter truthy (map strip_entry (filter truthy (map strip_entry xs))) = filter truthy (map strip_entry xs)" for xs
    by (induction xs) (auto simp: strip_entry_idem)
  then show ?thesis by (simp add: strip_entries_def arr_of_def)
qed

lemma strip_entries_wf: "json_wf v \<or> v = JUndef \<Longrightarrow> list_all json_wf (strip_entries v)"
  by (cases v) (auto simp: strip_entries_def arr_of_def list_all_iff strip_entry_wf)

lemma uniq_snoc: "uniq (xs @ [x]) = (if x \<in> set xs then uniq xs else uniq xs @ [x])"
  by (simp add: uniq_def)

lemma filter_uniq_append:
  assumes "distinct xs" "\<forall>x \<in> set xs. P x" "\<forall>y \<in> set ys. y \<notin> set xs \<longrightarrow> \<not> P y"
  shows "filter P (uniq (xs @ ys)) = xs"
  using assms(3)
proof (induction ys rule: rev_induct)
  case Nil
  then show ?case using assms(1,2) by (simp add: uniq_distinct)
next
  case (snoc y ys)
  have "uniq (xs @ ys @ [y]) = uniq ((xs @ ys) @ [y])" by simp
  then show ?case using snoc unfolding uniq_snoc by auto
qed

text \<open>A fresh manifest: its entries are all ours.\<close>

definition own_manifest :: "jsval \<Rightarrow> bool" where
  "own_manifest fresh \<longleftrightarrow> json_wf fresh \<and> (\<exists>F. get_prop fresh ''hooks'' = JObj F \<and>
     (\<forall>(e, v) \<in> set F. strip_entries v = [] \<and> is_array v))"

definition merged_hooks :: "jsval \<Rightarrow> jsval \<Rightarrow> (string \<times> jsval) list" where
  "merged_hooks H F =
     map (\<lambda>e. (e, JArr (merged_entries H F e))) (filter (\<lambda>e. merged_entries H F e \<noteq> []) (hook_events H F))"

lemma merged_hooks_get:
  "map_of (merged_hooks H F) e =
     (if e \<in> set (hook_events H F) \<and> merged_entries H F e \<noteq> [] then Some (JArr (merged_entries H F e)) else None)"
  unfolding merged_hooks_def map_of_map_keys
  by (auto simp: map_of_map_restrict restrict_map_def)

lemma merged_hooks_idem:
  assumes F: "F = JObj Ff" "\<forall>(e, v) \<in> set Ff. strip_entries v = [] \<and> is_array v"
  shows "merged_hooks (JObj (merged_hooks H F)) F = merged_hooks H F"
proof -
  let ?M = "merged_hooks H F" and ?me = "merged_entries H F"
  let ?keys = "filter (\<lambda>e. ?me e \<noteq> []) (hook_events H F)"
  have k: "map fst ?M = ?keys" by (simp add: merged_hooks_def comp_def)
  have f: "strip_entries (JArr (arr_of (get_prop F e))) = []" for e
    using F(2) by (auto simp: F(1) strip_entries_def arr_of_def split: option.splits jsval.splits dest!: map_of_SomeD)
  have me: "merged_entries (JObj ?M) F e = (if e \<in> set ?keys then ?me e else arr_of (get_prop F e))" for e
  proof (cases "e \<in> set ?keys")
    case True
    then have "get_prop (JObj ?M) e = JArr (?me e)" by (simp add: merged_hooks_get)
    then show ?thesis using True f by (simp add: merged_entries_def strip_entries_idem del: get_prop.simps)
  next
    case False
    then have "get_prop (JObj ?M) e = JUndef" by (auto simp: merged_hooks_get)
    then show ?thesis using False by (simp add: merged_entries_def strip_entries_def arr_of_def del: get_prop.simps)
  qed
  have "filter (\<lambda>e. merged_entries (JObj ?M) F e \<noteq> []) (uniq (?keys @ map fst (obj_fields F))) = ?keys"
  proof (rule filter_uniq_append)
    show "distinct ?keys" by (simp add: hook_events_def)
    show "\<forall>e \<in> set ?keys. merged_entries (JObj ?M) F e \<noteq> []" unfolding me by simp
    show "\<forall>e \<in> set (map fst (obj_fields F)). e \<notin> set ?keys \<longrightarrow> \<not> merged_entries (JObj ?M) F e \<noteq> []"
    proof (intro ballI impI)
      fix e assume e: "e \<in> set (map fst (obj_fields F))" "e \<notin> set ?keys"
      then have "?me e = []" by (simp add: hook_events_def)
      then show "\<not> merged_entries (JObj ?M) F e \<noteq> []" unfolding me using e(2) by (simp add: merged_entries_def)
    qed
  qed
  then have "filter (\<lambda>e. merged_entries (JObj ?M) F e \<noteq> []) (hook_events (JObj ?M) F) = ?keys"
    by (simp add: hook_events_def k)
  then have "merged_hooks (JObj ?M) F = map (\<lambda>e. (e, JArr (merged_entries (JObj ?M) F e))) ?keys"
    by (simp add: merged_hooks_def[of "JObj ?M"])
  also have "\<dots> = map (\<lambda>e. (e, JArr (?me e))) ?keys" by (rule map_cong[OF refl]) (simp only: me if_True)
  finally show ?thesis by (simp only: merged_hooks_def[of H])
qed

lemma merge_unfold:
  obtains ex where "object_or_empty existing = JObj ex"
    "mergeHookManifests existing fresh =
       (let fo = object_or_empty fresh;
            m1 = set_prop (JObj ex) ''hooks'' (JObj (merged_hooks (object_or_empty (get_prop (JObj ex) ''hooks''))
              (object_or_empty (get_prop fo ''hooks''))));
            m2 = (if get_prop fo ''version'' \<noteq> JUndef then set_prop m1 ''version'' (get_prop fo ''version'') else m1)
        in if get_prop fo ''description'' \<noteq> JUndef then set_prop m2 ''description'' (get_prop fo ''description'') else m2)"
proof -
  obtain ex where ex: "object_or_empty existing = JObj ex"
    using plain_get[of existing] by (cases "plain_object existing") (auto simp: object_or_empty_def)
  show ?thesis by (rule that[OF ex]) (simp add: mergeHookManifests_def ex merged_hooks_def Let_def del: get_prop.simps)
qed

lemma merge_get:
  fixes existing fresh
  defines "fo \<equiv> object_or_empty fresh"
  shows "\<exists>m. mergeHookManifests existing fresh = JObj m"
    "get_prop (mergeHookManifests existing fresh) ''hooks'' =
       JObj (merged_hooks (object_or_empty (get_prop (object_or_empty existing) ''hooks'')) (object_or_empty (get_prop fo ''hooks'')))"
    "k \<in> {''version'', ''description''} \<Longrightarrow> get_prop fo k \<noteq> JUndef \<Longrightarrow> get_prop (mergeHookManifests existing fresh) k = get_prop fo k"
    "k \<notin> {''version'', ''description'', ''hooks''} \<Longrightarrow>
       get_prop (mergeHookManifests existing fresh) k = get_prop (object_or_empty existing) k"
proof -
  obtain ex where ex: "object_or_empty existing = JObj ex"
    "mergeHookManifests existing fresh =
       (let m1 = set_prop (JObj ex) ''hooks'' (JObj (merged_hooks (object_or_empty (get_prop (JObj ex) ''hooks''))
              (object_or_empty (get_prop fo ''hooks''))));
            m2 = (if get_prop fo ''version'' \<noteq> JUndef then set_prop m1 ''version'' (get_prop fo ''version'') else m1)
        in if get_prop fo ''description'' \<noteq> JUndef then set_prop m2 ''description'' (get_prop fo ''description'') else m2)"
    unfolding fo_def Let_def by (rule merge_unfold[of existing fresh]) (simp add: Let_def)
  have o: "get_prop (JObj (obj_fields (set_prop a k v))) k' = get_prop (set_prop a k v) k'" for a k v k'
    by (simp add: set_prop_def)
  show "\<exists>m. mergeHookManifests existing fresh = JObj m" unfolding ex(2) by (simp add: Let_def set_prop_def)
  show "get_prop (mergeHookManifests existing fresh) ''hooks'' =
      JObj (merged_hooks (object_or_empty (get_prop (object_or_empty existing) ''hooks'')) (object_or_empty (get_prop fo ''hooks'')))"
    unfolding ex by (simp add: Let_def o del: get_prop.simps)
  show "get_prop (mergeHookManifests existing fresh) k = get_prop fo k"
    if "k \<in> {''version'', ''description''}" "get_prop fo k \<noteq> JUndef"
    using that unfolding ex by (auto simp: Let_def o simp del: get_prop.simps)
  show "get_prop (mergeHookManifests existing fresh) k = get_prop (object_or_empty existing) k"
    if "k \<notin> {''version'', ''description'', ''hooks''}"
    using that unfolding ex by (auto simp: Let_def o simp del: get_prop.simps)
qed

lemma merge_idem:
  assumes "own_manifest fresh"
  shows "mergeHookManifests (mergeHookManifests existing fresh) fresh = mergeHookManifests existing fresh"
proof -
  obtain F where F: "get_prop fresh ''hooks'' = JObj F" "\<forall>(e, v) \<in> set F. strip_entries v = [] \<and> is_array v"
    using assms by (auto simp: own_manifest_def)
  have fo: "object_or_empty fresh = fresh" using F(1) by (cases fresh) (auto simp: object_or_empty_def split: if_splits)
  obtain m where m: "mergeHookManifests existing fresh = JObj m" using merge_get(1) by blast
  note g = merge_get(2)[where existing = existing and fresh = fresh, unfolded m fo F(1)]
    merge_get(3)[where existing = existing and fresh = fresh, unfolded m fo]
  have p: "object_or_empty (JObj x) = JObj x" for x by (simp add: object_or_empty_def)
  let ?H = "object_or_empty (get_prop (object_or_empty existing) ''hooks'')"
  have h: "set_prop (JObj m) ''hooks'' (JObj (merged_hooks (JObj (merged_hooks ?H (JObj F))) (JObj F))) = JObj m"
    unfolding merged_hooks_idem[OF refl F(2)] by (rule set_prop_same) (simp_all add: g(1) p del: get_prop.simps)
  have v: "set_prop (JObj m) k (get_prop fresh k) = JObj m" if "k \<in> {''version'', ''description''}" "get_prop fresh k \<noteq> JUndef" for k
    using that g(2) by (intro set_prop_same) blast+
  obtain ex where "object_or_empty (JObj m) = JObj ex"
    "mergeHookManifests (JObj m) fresh =
       (let m1 = set_prop (JObj ex) ''hooks'' (JObj (merged_hooks (object_or_empty (get_prop (JObj ex) ''hooks''))
              (object_or_empty (get_prop fresh ''hooks''))));
            m2 = (if get_prop fresh ''version'' \<noteq> JUndef then set_prop m1 ''version'' (get_prop fresh ''version'') else m1)
        in if get_prop fresh ''description'' \<noteq> JUndef then set_prop m2 ''description'' (get_prop fresh ''description'') else m2)"
    by (rule merge_unfold[of "JObj m" fresh]) (simp add: fo Let_def)
  then show ?thesis unfolding m using h v g(1) F(1) by (simp add: p Let_def del: get_prop.simps)
qed

lemma merge_self:
  assumes f: "f = JObj m" "get_prop f ''hooks'' = JObj [(e, JArr es)]" "es \<noteq> []" "strip_entries (JArr es) = []"
  shows "mergeHookManifests f f = f"
proof -
  let ?H = "JObj [(e, JArr es)]"
  have fo: "object_or_empty (JObj x) = JObj x" for x by (simp add: object_or_empty_def)
  have "merged_entries ?H ?H e = es" using f(4) by (simp add: merged_entries_def arr_of_def)
  moreover have "hook_events ?H ?H = [e]" by (simp add: hook_events_def uniq_def)
  ultimately have "merged_hooks ?H ?H = [(e, JArr es)]" using f(3) by (simp add: merged_hooks_def)
  then have h: "set_prop f ''hooks'' (JObj (merged_hooks ?H ?H)) = f" using set_prop_same[of m "''hooks''"] f(1,2) by simp
  have s: "get_prop f k \<noteq> JUndef \<Longrightarrow> set_prop f k (get_prop f k) = f" for k
    using set_prop_same[of m k] f(1) by simp
  obtain ex where ex: "object_or_empty f = JObj ex" "mergeHookManifests f f =
       (let fo = object_or_empty f;
            m1 = set_prop (JObj ex) ''hooks'' (JObj (merged_hooks (object_or_empty (get_prop (JObj ex) ''hooks''))
              (object_or_empty (get_prop fo ''hooks''))));
            m2 = (if get_prop fo ''version'' \<noteq> JUndef then set_prop m1 ''version'' (get_prop fo ''version'') else m1)
        in if get_prop fo ''description'' \<noteq> JUndef then set_prop m2 ''description'' (get_prop fo ''description'') else m2)"
    by (rule merge_unfold)
  have "JObj ex = f" using ex(1) f(1) fo by simp
  then show ?thesis
    unfolding ex(2) ex(1) Let_def \<open>JObj ex = f\<close> f(2) fo h using s by simp
qed

lemma targets_own:
  assumes "tg \<in> set HOOK_MANIFEST_TARGETS"
  shows "own_manifest (tg_manifest tg) \<and> mergeHookManifests (tg_manifest tg) (tg_manifest tg) = tg_manifest tg"
proof -
  have t: "tg \<in> {claude_target, agents_target, cursor_target, github_target}"
    using assms by (simp add: HOOK_MANIFEST_TARGETS_def)
  then have w: "json_wf (tg_manifest tg)"
    by (auto simp: claude_target_def agents_target_def cursor_target_def github_target_def
        TIMEOUT_SECONDS_def STATUS_MESSAGE_def)
  obtain e es where h: "get_prop (tg_manifest tg) ''hooks'' = JObj [(e, JArr es)]" "es \<noteq> []"
    using t by (auto simp: claude_target_def agents_target_def cursor_target_def github_target_def)
  obtain m where m: "tg_manifest tg = JObj m"
    using t by (auto simp: claude_target_def agents_target_def cursor_target_def github_target_def)
  have "list_all (\<lambda>tg. list_all (\<lambda>(e, v). strip_entries v = []) (obj_fields (get_prop (tg_manifest tg) ''hooks'')))
      HOOK_MANIFEST_TARGETS" by code_simp
  then have s: "strip_entries (JArr es) = []" using assms h(1) by (auto simp: list_all_iff)
  show ?thesis using w h s merge_self[OF m h s] by (simp add: own_manifest_def)
qed

lemma merged_hooks_wf:
  assumes "json_wf H \<or> H = JObj []" "json_wf F"
  shows "json_wf (JObj (merged_hooks H F))"
proof -
  have "list_all json_wf (merged_entries H F e)" for e
  proof -
    have "list_all json_wf (strip_entries (get_prop H e))" using assms(1) wf_get by (intro strip_entries_wf) auto
    moreover have "list_all json_wf (arr_of (get_prop F e))"
      using wf_get[OF assms(2), of e] by (cases "get_prop F e") (auto simp: arr_of_def)
    ultimately show ?thesis by (simp add: merged_entries_def)
  qed
  moreover have "distinct (map fst (merged_hooks H F))" by (simp add: merged_hooks_def comp_def hook_events_def)
  ultimately show ?thesis by (auto simp: merged_hooks_def list_all_iff)
qed

lemma object_or_empty_wf: "json_wf v \<or> v = JUndef \<Longrightarrow> json_wf (object_or_empty v)"
  by (auto simp: object_or_empty_def plain_object_def)

lemma merge_wf:
  assumes "json_wf existing" "own_manifest fresh"
  shows "json_wf (mergeHookManifests existing fresh)"
proof -
  obtain F where F: "json_wf fresh" "get_prop fresh ''hooks'' = JObj F" using assms(2) by (auto simp: own_manifest_def)
  have fo: "object_or_empty fresh = fresh" using F(2) by (cases fresh) (auto simp: object_or_empty_def split: if_splits)
  obtain ex where ex: "object_or_empty existing = JObj ex"
    "mergeHookManifests existing fresh =
       (let m1 = set_prop (JObj ex) ''hooks'' (JObj (merged_hooks (object_or_empty (get_prop (JObj ex) ''hooks''))
              (object_or_empty (get_prop fresh ''hooks''))));
            m2 = (if get_prop fresh ''version'' \<noteq> JUndef then set_prop m1 ''version'' (get_prop fresh ''version'') else m1)
        in if get_prop fresh ''description'' \<noteq> JUndef then set_prop m2 ''description'' (get_prop fresh ''description'') else m2)"
    by (rule merge_unfold[of existing fresh]) (simp add: fo Let_def)
  have x: "json_wf (JObj ex)" using object_or_empty_wf[of existing] assms(1) ex(1) by simp
  have "json_wf (JObj F)" using wf_get[OF F(1), of "''hooks''"] unfolding F(2) by blast
  then have h: "json_wf (JObj (merged_hooks (object_or_empty (get_prop (JObj ex) ''hooks'')) (object_or_empty (get_prop fresh ''hooks''))))"
    using merged_hooks_wf[OF disjI1[OF object_or_empty_wf[OF wf_get[OF x, of "''hooks''", THEN disj_commute[THEN iffD1]]]] object_or_empty_wf[OF disjI1, of "JObj F"]]
    unfolding F(2) by blast
  have s: "json_wf (set_prop a k v) \<and> (\<exists>m. set_prop a k v = JObj m)" if "\<exists>m. a = JObj m" "json_wf a" "json_wf v" for a k v
    using that wf_set_prop by (auto simp: set_prop_def)
  have g: "get_prop fresh k \<noteq> JUndef \<Longrightarrow> json_wf (get_prop fresh k)" for k using wf_get[OF F(1)] by blast
  show ?thesis unfolding ex(2) Let_def using s g h x by (auto simp del: get_prop.simps json_wf.simps)
qed

text \<open>The files of a provider, as absolute paths.\<close>

definition target_files :: "target \<Rightarrow> string list" where
  "target_files tg = [tg_skillRel tg, tg_destRel tg] @ (case tg_sharedDestRel tg of Some s \<Rightarrow> [s] | None \<Rightarrow> [])"

lemma target_rels:
  "list_all P HOOK_MANIFEST_TARGETS = (P claude_target \<and> P agents_target \<and> P cursor_target \<and> P github_target)"
  "map f HOOK_MANIFEST_TARGETS = [f claude_target, f agents_target, f cursor_target, f github_target]"
  "target_files claude_target = [''.claude/skills/impeccable'', ''.claude/settings.local.json'', ''.claude/settings.json'']"
  "target_files agents_target = [''.agents/skills/impeccable'', ''.codex/hooks.json'']"
  "target_files cursor_target = [''.cursor/skills/impeccable'', ''.cursor/hooks.json'']"
  "target_files github_target = [''.github/skills/impeccable'', ''.github/hooks/impeccable.json'']"
  "tg_destRel claude_target = ''.claude/settings.local.json''" "tg_destRel agents_target = ''.codex/hooks.json''"
  "tg_destRel cursor_target = ''.cursor/hooks.json''" "tg_destRel github_target = ''.github/hooks/impeccable.json''"
  by (simp_all add: HOOK_MANIFEST_TARGETS_def target_files_def claude_target_def agents_target_def
      cursor_target_def github_target_def)

lemma target_path:
  assumes "tg \<in> set HOOK_MANIFEST_TARGETS" "p \<in> set (target_files tg)"
  shows "path_join cwd p = root_of cwd @ CHR ''/'' # p"
proof -
  have "list_all (\<lambda>tg. list_all (\<lambda>p. list_all (\<lambda>s. s \<notin> set [[], ''.'', ''..'']) (split_on CHR ''/'' p)) (target_files tg))
      HOOK_MANIFEST_TARGETS" by (simp add: target_rels)
  then have "list_all (\<lambda>s. s \<notin> {[], ''.'', ''..''}) (split_on CHR ''/'' p)"
    using assms by (simp add: list_all_iff)
  then show ?thesis by (rule path_plain)
qed

text \<open>No provider's repair writes a file that the repair of another one, or its own next one, looks at
  first, and no two manifests are the same file.\<close>

lemma target_files_apart:
  assumes "tg \<in> set HOOK_MANIFEST_TARGETS" "tg' \<in> set HOOK_MANIFEST_TARGETS"
    "p = tg_destRel tg \<or> p = tg_destRel tg @ ''.bak''" "q \<in> set (target_files tg')"
    "p = tg_destRel tg \<Longrightarrow> q = tg_destRel tg' \<Longrightarrow> tg_destRel tg \<noteq> tg_destRel tg'"
  shows "root_of cwd @ CHR ''/'' # p \<noteq> root_of cwd @ CHR ''/'' # q"
proof -
  let ?dests = "[''.claude/settings.local.json'', ''.codex/hooks.json'', ''.cursor/hooks.json'', ''.github/hooks/impeccable.json'']"
  let ?others = "[''.claude/skills/impeccable'', ''.claude/settings.json'', ''.agents/skills/impeccable'',
    ''.cursor/skills/impeccable'', ''.github/skills/impeccable'']"
  have "list_all (\<lambda>d. \<not> List.member ?others d \<and> \<not> List.member (?others @ ?dests) (d @ ''.bak'')) ?dests" by code_simp
  then have 1: "\<forall>d \<in> set ?dests. d \<notin> set ?others \<and> d @ ''.bak'' \<notin> set ?others \<union> set ?dests"
    unfolding list_all_iff List.member_iff set_append by blast
  have "list_all (\<lambda>tg. tg_destRel tg \<in> set ?dests \<and> (\<forall>q \<in> set (target_files tg). q \<in> set ?others \<or> q = tg_destRel tg))
    HOOK_MANIFEST_TARGETS" unfolding target_rels by simp
  then have "tg_destRel tg \<in> set ?dests" "tg_destRel tg' \<in> set ?dests" "q \<in> set ?others \<or> q = tg_destRel tg'"
    using assms(1,2,4) unfolding list_all_iff by blast+
  then have "p \<noteq> q" using bspec[OF 1, of "tg_destRel tg"] assms(3,5) by (metis UnI1 UnI2)
  then show ?thesis by simp
qed

lemma dests_differ: "distinct (map tg_destRel HOOK_MANIFEST_TARGETS)"
  by (simp add: target_rels)

lemma has_marker_cong: "fs q = fs' q \<Longrightarrow> fileHasImpeccableHookMarker fs q = fileHasImpeccableHookMarker fs' q"
  by (simp add: fileHasImpeccableHookMarker_def readFileSync_def)

lemma json_line_read: "json_wf v \<Longrightarrow> json_parse (json_line v) = Some v"
  using json_wf_norm(1)[of v] json_parse_text[of v newline 2] by (simp add: json_line_def json_stringify_def skip_ws_def newline_def char_codes is_json_space_def code_def)

lemma pruned_settles:
  assumes "json_wf parsed" "\<exists>kvs. parsed = JObj kvs" "pruned parsed = Some nxt"
  shows "json_wf nxt" "get_prop nxt ''hooks'' \<noteq> JUndef \<Longrightarrow> pruned nxt = Some nxt"
proof -
  obtain kvs where kvs: "parsed = JObj kvs" using assms(2) by blast
  let ?h = "obj_fields (object_or_empty (get_prop parsed ''hooks''))"
  define C where "C = filter (\<lambda>(e, v). v \<noteq> JArr []) (map (\<lambda>(e, entries). (e, JArr (strip_entries entries))) ?h)"
  define D where "D = delete_prop (delete_prop (delete_prop parsed ''hooks'') ''description'') ''version''"
  have n: "nxt = (if C \<noteq> [] then set_prop parsed ''hooks'' (JObj C) else D)"
    using assms(3) unfolding pruned_def Let_def C_def[symmetric] D_def[symmetric] by (auto split: if_splits)
  have d: "json_wf D" "get_prop D ''hooks'' = JUndef"
  proof -
    show "json_wf D" using assms(1) unfolding D_def kvs delete_prop_def obj_fields.simps by (intro wf_filter)
    show "get_prop D ''hooks'' = JUndef"
      unfolding D_def by (simp only: prop_delete_prop) (simp add: delete_prop_def map_of_filter_neq del: filter_filter)
  qed
  have "json_wf (object_or_empty (get_prop parsed ''hooks''))" using wf_get[OF assms(1)] by (intro object_or_empty_wf) blast
  moreover obtain h where h: "object_or_empty (get_prop parsed ''hooks'') = JObj h"
    using plain_get by (metis object_or_empty_def)
  ultimately have hw: "distinct (map fst h)" "\<And>e v. (e, v) \<in> set h \<Longrightarrow> json_wf v" by (auto simp: list_all_iff)
  have "distinct (map fst (map (\<lambda>(e, entries). (e, JArr (strip_entries entries))) h))"
    using hw(1) by (simp add: comp_def case_prod_beta)
  then have "distinct (map fst C)" unfolding C_def h by (simp add: distinct_map_filter)
  moreover have "json_wf v" if "(e, v) \<in> set C" for e v
    using that hw(2) strip_entries_wf unfolding C_def h by auto
  ultimately have C: "json_wf (JObj C)" by (auto simp: list_all_iff)
  then show "json_wf nxt" using n d assms(1) wf_set_prop unfolding kvs by auto
  assume "get_prop nxt ''hooks'' \<noteq> JUndef"
  then have ne: "C \<noteq> []" "nxt = set_prop parsed ''hooks'' (JObj C)" using n d(2) by (auto split: if_splits)
  have g: "get_prop nxt ''hooks'' = JObj C" by (simp add: ne(2))
  have "(\<lambda>(e, entries). (e, JArr (strip_entries entries))) kv = kv" if "kv \<in> set C" for kv
    using that strip_entries_idem[of _ "[]"] by (auto simp: C_def strip_entries_def[of "JArr []"] arr_of_def[of "JArr []"])
  then have "map (\<lambda>(e, entries). (e, JArr (strip_entries entries))) C = C" by (simp add: map_idI)
  moreover have "filter (\<lambda>(e, v). v \<noteq> JArr []) C = C" by (simp add: C_def)
  moreover obtain m where m: "nxt = JObj m" by (simp add: ne(2) set_prop_def)
  moreover have "m \<noteq> []" using g m by auto
  ultimately show "pruned nxt = Some nxt"
    using ne(1) set_prop_same[of m "''hooks''" "JObj C"] g
    by (simp add: pruned_def Let_def object_or_empty_def del: get_prop.simps)
qed

lemma prune_idem: "pruneImpeccableHookFromManifest p (pruneImpeccableHookFromManifest p fs) = pruneImpeccableHookFromManifest p fs"
proof (cases "fileHasImpeccableHookMarker fs p")
  case False
  then show ?thesis by (simp add: pruneImpeccableHookFromManifest_def)
next
  case True
  then obtain t parsed where t: "readFileSync fs p = Some t" "json_parse t = Some parsed" "plain_object parsed"
    by (auto simp: fileHasImpeccableHookMarker_def split: option.splits Option.bind_splits)
  show ?thesis
  proof (cases "pruned parsed")
    case None
    then have "pruneImpeccableHookFromManifest p fs = unlinkSync p fs" using True t by (simp add: pruneImpeccableHookFromManifest_def)
    moreover have "\<not> fileHasImpeccableHookMarker (unlinkSync p fs) p" by (simp add: fileHasImpeccableHookMarker_def)
    ultimately show ?thesis by (simp add: pruneImpeccableHookFromManifest_def)
  next
    case (Some nxt)
    let ?fs = "write_json 2 p nxt fs"
    have e: "pruneImpeccableHookFromManifest p fs = ?fs" using True t Some by (simp add: pruneImpeccableHookFromManifest_def)
    note ps = pruned_settles[OF json_parse_wf[OF t(2)] plain_get[OF t(3)] Some]
    have r: "Option.bind (readFileSync ?fs p) json_parse = Some nxt"
      using json_line_read[OF ps(1)] by (simp add: write_json_def json_line_def)
    show ?thesis
    proof (cases "fileHasImpeccableHookMarker ?fs p")
      case False
      then show ?thesis unfolding e by (simp add: pruneImpeccableHookFromManifest_def[of p ?fs])
    next
      case True
      then have "get_prop nxt ''hooks'' \<noteq> JUndef" using r by (auto simp: fileHasImpeccableHookMarker_def)
      then have "pruneImpeccableHookFromManifest p ?fs = write_json 2 p nxt ?fs"
        using ps(2) r True by (simp add: pruneImpeccableHookFromManifest_def)
      also have "\<dots> = ?fs" by (simp add: write_json_def writeFileSync_def)
      finally show ?thesis unfolding e .
    qed
  qed
qed

section \<open>Repairing the manifests\<close>

lemma prune_at:
  "q \<noteq> p \<Longrightarrow> pruneImpeccableHookFromManifest p fs q = fs q"
  "fs p = fs' p \<Longrightarrow> pruneImpeccableHookFromManifest p fs p = pruneImpeccableHookFromManifest p fs' p"
  by (auto simp: pruneImpeccableHookFromManifest_def unlinkSync_def write_json_def writeFileSync_def
      readFileSync_def has_marker_cong[of fs p fs'] split: option.splits)

lemma prune_fix: "pruneImpeccableHookFromManifest p fs = fs \<longleftrightarrow> pruneImpeccableHookFromManifest p fs p = fs p"
  using prune_at(1)[of _ p fs] by (metis ext)

text \<open>Nothing is to be done for a provider.\<close>

definition shared_marker :: "string \<Rightarrow> target \<Rightarrow> fs \<Rightarrow> bool" where
  "shared_marker cwd tg fs =
     (case tg_sharedDestRel tg of
        Some s \<Rightarrow> fileHasImpeccableHookMarker fs (path_join cwd s) | None \<Rightarrow> False)"

definition manifest_settled :: "string \<Rightarrow> target \<Rightarrow> fs \<Rightarrow> bool" where
  "manifest_settled cwd tg fs =
     (let dest = path_join cwd (tg_destRel tg) in
      \<not> existsSync fs (path_join cwd (tg_skillRel tg)) \<or>
      (if shared_marker cwd tg fs then pruneImpeccableHookFromManifest dest fs = fs
       else (case readFileSync fs dest of
               None \<Rightarrow> False
             | Some t \<Rightarrow> (case json_parse t of
                 None \<Rightarrow> False | Some v \<Rightarrow> t = json_line (mergeHookManifests v (tg_manifest tg))))))"

lemma shared_marker_cong:
  assumes "\<And>s. tg_sharedDestRel tg = Some s \<Longrightarrow> fs' (path_join cwd s) = fs (path_join cwd s)"
  shows "shared_marker cwd tg fs' = shared_marker cwd tg fs"
proof (cases "tg_sharedDestRel tg")
  case (Some s)
  then show ?thesis using has_marker_cong[where fs = fs' and fs' = fs and q = "path_join cwd s", OF assms[OF Some]] by (simp add: shared_marker_def)
qed (simp add: shared_marker_def)

lemma settled_again:
  assumes "manifest_settled cwd tg fs"
  shows "\<exists>res'. repair_target cwd tg (res, fs) = Inr (res', fs) \<and> rp_written res' = rp_written res \<and>
    rp_backups res' = rp_backups res"
proof -
  have "fs p \<noteq> Some Dir" if "readFileSync fs p = Some t" for p t using that by (auto simp: readFileSync_def)
  then show ?thesis
    using assms unfolding manifest_settled_def repair_target_def Let_def prod.case shared_marker_def[symmetric]
    by (auto split: option.splits if_splits)
qed

lemma settled_cong:
  assumes "manifest_settled cwd tg fs" "\<And>q. q \<in> set (target_files tg) \<Longrightarrow> fs' (path_join cwd q) = fs (path_join cwd q)"
  shows "manifest_settled cwd tg fs'"
proof -
  have s: "existsSync fs' (path_join cwd (tg_skillRel tg)) = existsSync fs (path_join cwd (tg_skillRel tg))"
    using assms(2)[of "tg_skillRel tg"] by (simp add: existsSync_def target_files_def)
  have d: "fs' (path_join cwd (tg_destRel tg)) = fs (path_join cwd (tg_destRel tg))"
    using assms(2)[of "tg_destRel tg"] by (simp add: target_files_def)
  have m: "shared_marker cwd tg fs' = shared_marker cwd tg fs"
    by (rule shared_marker_cong, rule assms(2)) (simp add: target_files_def)
  have r: "readFileSync fs' (path_join cwd (tg_destRel tg)) = readFileSync fs (path_join cwd (tg_destRel tg))"
    using d by (simp add: readFileSync_def)
  show ?thesis
    using assms(1) d prune_at(2)[where fs = fs' and fs' = fs, OF d] unfolding manifest_settled_def s m r Let_def prune_fix by auto
qed

lemma repair_frame:
  assumes "repair_target cwd tg (res, fs) = Inr (res1, fs1)"
    "q \<noteq> path_join cwd (tg_destRel tg)" "q \<noteq> path_join cwd (tg_destRel tg) @ ''.bak''"
  shows "fs1 q = fs q"
proof -
  let ?d = "path_join cwd (tg_destRel tg)"
  define parsed where "parsed = Option.bind (readFileSync fs ?d) json_parse"
  define nxt where "nxt = (case parsed of Some v \<Rightarrow> mergeHookManifests v (tg_manifest tg) | None \<Rightarrow> tg_manifest tg)"
  have "fs1 = fs \<or> fs1 = pruneImpeccableHookFromManifest ?d fs \<or> (\<exists>t. fs1 = writeFileSync ?d t fs) \<or>
      (\<exists>u. fs1 = writeFileSync (?d @ ''.bak'') u fs) \<or> (\<exists>t u. fs1 = writeFileSync ?d t (writeFileSync (?d @ ''.bak'') u fs))"
    using assms(1)
    unfolding repair_target_def Let_def prod.case shared_marker_def[symmetric] parsed_def[symmetric] nxt_def[symmetric]
    by (auto split: if_splits)
  then show ?thesis using assms(2,3) prune_at(1)[OF assms(2)] by (auto simp: writeFileSync_def)
qed

lemma own_paths:
  assumes "tg \<in> set HOOK_MANIFEST_TARGETS" "q \<in> set (target_files tg)" "q \<noteq> tg_destRel tg"
  shows "path_join cwd q \<noteq> path_join cwd (tg_destRel tg)" "path_join cwd q \<noteq> path_join cwd (tg_destRel tg) @ ''.bak''"
    "path_join cwd (tg_destRel tg) @ ''.bak'' \<noteq> path_join cwd (tg_destRel tg)"
proof -
  have d: "tg_destRel tg \<in> set (target_files tg)" by (simp add: target_files_def)
  note p = target_path[OF assms(1) d] target_path[OF assms(1,2)]
  show "path_join cwd q \<noteq> path_join cwd (tg_destRel tg)"
    using target_files_apart[OF assms(1,1) disjI1[OF refl] assms(2), of cwd] assms(3) unfolding p by metis
  show "path_join cwd q \<noteq> path_join cwd (tg_destRel tg) @ ''.bak''"
    using target_files_apart[OF assms(1,1) disjI2[OF refl] assms(2), of cwd] unfolding p by fastforce
qed simp

lemma skill_not_dest: "tg \<in> set HOOK_MANIFEST_TARGETS \<Longrightarrow> tg_skillRel tg \<noteq> tg_destRel tg"
  "tg \<in> set HOOK_MANIFEST_TARGETS \<Longrightarrow> tg_sharedDestRel tg = Some s \<Longrightarrow> s \<noteq> tg_destRel tg"
  by (auto simp: HOOK_MANIFEST_TARGETS_def claude_target_def agents_target_def cursor_target_def github_target_def)

lemma repair_settled:
  assumes "tg \<in> set HOOK_MANIFEST_TARGETS" "repair_target cwd tg (res, fs) = Inr (res1, fs1)"
  shows "manifest_settled cwd tg fs1"
proof -
  let ?d = "path_join cwd (tg_destRel tg)" and ?f = "tg_manifest tg"
  have own: "own_manifest ?f" "mergeHookManifests ?f ?f = ?f" using targets_own[OF assms(1)] by auto
  then have fw: "json_wf ?f" by (simp add: own_manifest_def)
  have keep: "fs1 (path_join cwd q) = fs (path_join cwd q)" if "q \<in> set (target_files tg)" "q \<noteq> tg_destRel tg" for q
    using repair_frame[OF assms(2)] own_paths[OF assms(1) that, of cwd] by blast
  have s: "existsSync fs1 (path_join cwd (tg_skillRel tg)) = existsSync fs (path_join cwd (tg_skillRel tg))"
    using keep[of "tg_skillRel tg"] skill_not_dest(1)[OF assms(1)] by (simp add: existsSync_def target_files_def)
  have m: "shared_marker cwd tg fs1 = shared_marker cwd tg fs"
    by (rule shared_marker_cong, rule keep) (simp_all add: target_files_def skill_not_dest(2)[OF assms(1)])
  show ?thesis
  proof (cases "existsSync fs (path_join cwd (tg_skillRel tg)) \<and> \<not> shared_marker cwd tg fs")
    case False
    then show ?thesis
      using assms(2) prune_idem s m unfolding manifest_settled_def repair_target_def Let_def prod.case shared_marker_def[symmetric]
      by (auto split: if_splits)
  next
    case True
    define parsed where "parsed = Option.bind (readFileSync fs ?d) json_parse"
    define nxt where "nxt = (case parsed of Some v \<Rightarrow> mergeHookManifests v ?f | None \<Rightarrow> ?f)"
    have nw: "json_wf nxt" "mergeHookManifests nxt ?f = nxt"
    proof -
      have "json_wf v" if "parsed = Some v" for v
        using that json_parse_wf by (auto simp: parsed_def bind_eq_Some_conv)
      then show "json_wf nxt" using fw merge_wf[OF _ own(1)] by (auto simp: nxt_def split: option.splits)
      show "mergeHookManifests nxt ?f = nxt" using own merge_idem by (simp add: nxt_def split: option.splits)
    qed
    have "readFileSync fs1 ?d = Some (json_line nxt)"
      using assms(2) True own_paths(3)[of tg "tg_skillRel tg" cwd, OF assms(1) _ skill_not_dest(1)[OF assms(1)]]
      unfolding repair_target_def Let_def prod.case shared_marker_def[symmetric] parsed_def[symmetric] nxt_def[symmetric]
      by (auto split: if_splits)
    then show ?thesis using True s m json_line_read[OF nw(1)] nw(2) by (simp add: manifest_settled_def)
  qed
qed

lemma repair_keeps_settled:
  assumes "tg \<in> set HOOK_MANIFEST_TARGETS" "tg' \<in> set HOOK_MANIFEST_TARGETS" "tg_destRel tg \<noteq> tg_destRel tg'"
    "repair_target cwd tg (res, fs) = Inr (res1, fs1)" "manifest_settled cwd tg' fs"
  shows "manifest_settled cwd tg' fs1"
proof (rule settled_cong[OF assms(5)], rule repair_frame[OF assms(4)])
  fix q assume q: "q \<in> set (target_files tg')"
  have d: "tg_destRel tg \<in> set (target_files tg)" by (simp add: target_files_def)
  note p = target_path[OF assms(1) d] target_path[OF assms(2) q]
  show "path_join cwd q \<noteq> path_join cwd (tg_destRel tg)"
    using target_files_apart[OF assms(1,2) disjI1[OF refl] q, of cwd] assms(3) unfolding p by metis
  show "path_join cwd q \<noteq> path_join cwd (tg_destRel tg) @ ''.bak''"
    using target_files_apart[OF assms(1,2) disjI2[OF refl] q, of cwd] unfolding p by fastforce
qed

lemma repair_all_settled:
  assumes "repair_targets cwd tgs (res, fs) = Inr (res1, fs1)" "set tgs \<subseteq> set HOOK_MANIFEST_TARGETS"
    "distinct (map tg_destRel (ds @ tgs))" "set ds \<subseteq> set HOOK_MANIFEST_TARGETS" "\<forall>tg \<in> set ds. manifest_settled cwd tg fs"
  shows "\<forall>tg \<in> set (ds @ tgs). manifest_settled cwd tg fs1"
  using assms
proof (induction tgs arbitrary: res fs ds)
  case (Cons tg tgs)
  obtain res2 fs2 where r: "repair_target cwd tg (res, fs) = Inr (res2, fs2)" "repair_targets cwd tgs (res2, fs2) = Inr (res1, fs1)"
    using Cons.prems(1) by (auto split: sum.splits)
  have "manifest_settled cwd tg fs2" using repair_settled[OF _ r(1)] Cons.prems(2) by simp
  moreover have "manifest_settled cwd tg' fs2" if "tg' \<in> set ds" for tg'
  proof (rule repair_keeps_settled[OF _ _ _ r(1)])
    show "tg_destRel tg \<noteq> tg_destRel tg'" using Cons.prems(3) that by force
  qed (use Cons.prems that in auto)
  ultimately have "\<forall>tg \<in> set (ds @ [tg]). manifest_settled cwd tg fs2" by simp
  then show ?case using Cons.IH[OF r(2), of "ds @ [tg]"] Cons.prems by simp
qed simp

lemma settled_run:
  assumes "\<forall>tg \<in> set tgs. manifest_settled cwd tg fs"
  shows "\<exists>res'. repair_targets cwd tgs (res, fs) = Inr (res', fs) \<and> rp_written res' = rp_written res \<and>
    rp_backups res' = rp_backups res"
  using assms
proof (induction tgs arbitrary: res)
  case (Cons tg tgs)
  then obtain res1 where "repair_target cwd tg (res, fs) = Inr (res1, fs)" "rp_written res1 = rp_written res"
    "rp_backups res1 = rp_backups res" using settled_again[of cwd tg fs res] by auto
  moreover obtain res2 where "repair_targets cwd tgs (res1, fs) = Inr (res2, fs)" "rp_written res2 = rp_written res1"
    "rp_backups res2 = rp_backups res1" using Cons by fastforce
  ultimately show ?case by simp
qed simp

text \<open>C7: A repair that goes through settles the hook manifests: a second one, of whatever manifests the
  project had before (ours or foreign, a broken one, one with our hook in the shared settings), writes
  nothing, backs nothing up and leaves every file as it is.\<close>

theorem repair_settles:
  assumes "repairHookManifests cwd fs = Inr (res, fs1)"
  shows "\<exists>res'. repairHookManifests cwd fs1 = Inr (res', fs1) \<and> rp_written res' = [] \<and> rp_backups res' = []"
proof -
  have "\<forall>tg \<in> set HOOK_MANIFEST_TARGETS. manifest_settled cwd tg fs1"
    using repair_all_settled[OF assms[unfolded repairHookManifests_def], of "[]"] dests_differ by simp
  then show ?thesis
    unfolding repairHookManifests_def using settled_run[of HOOK_MANIFEST_TARGETS cwd fs1] by fastforce
qed

text \<open>A project with the skill of one provider, without manifests.\<close>

definition fresh_project :: fs where
  "fresh_project = [''/p/.agents/skills/impeccable'' \<mapsto> Dir]"

lemma fresh_project_repaired:
  "\<exists>res fs1. repairHookManifests ''/p'' fresh_project = Inr (res, fs1) \<and> rp_written res = [''.agents'']"
proof -
  have s: "existsSync fresh_project (path_join ''/p'' p) = (p = ''.agents/skills/impeccable'')"
    if "p \<in> {''.claude/skills/impeccable'', ''.agents/skills/impeccable'', ''.cursor/skills/impeccable'', ''.github/skills/impeccable''}" for p
  proof -
    have "path_join ''/p'' p = ''/p/'' @ p" using that by (elim insertE emptyE; simp; code_simp)
    then show ?thesis by (simp add: existsSync_def fresh_project_def)
  qed
  have d: "path_join ''/p'' ''.codex/hooks.json'' = ''/p/.codex/hooks.json''" by code_simp
  have n: "fresh_project ''/p/.codex/hooks.json'' = None" by (simp add: fresh_project_def)
  have w: "existsSync (writeFileSync ''/p/.codex/hooks.json'' t fresh_project) (path_join ''/p'' p) = False"
    if "p \<in> {''.cursor/skills/impeccable'', ''.github/skills/impeccable''}" for p t
  proof -
    have "path_join ''/p'' p \<noteq> ''/p/.codex/hooks.json''" using that by (elim insertE emptyE; simp; code_simp)
    then show ?thesis using s[of p] that by auto
  qed
  let ?r = "\<lparr>rp_written = [], rp_already = [], rp_backups = []\<rparr>"
  have 1: "repair_target ''/p'' claude_target (?r, fresh_project) = Inr (?r, fresh_project)"
    using s[of "''.claude/skills/impeccable''"] by (simp add: repair_target_def Let_def claude_target_def)
  obtain t where 2: "repair_target ''/p'' agents_target (?r, fresh_project) =
      Inr (?r\<lparr>rp_written := [''.agents'']\<rparr>, writeFileSync ''/p/.codex/hooks.json'' t fresh_project)"
  proof -
    have a: "tg_skillRel agents_target = ''.agents/skills/impeccable''" "tg_destRel agents_target = ''.codex/hooks.json''"
      "tg_sharedDestRel agents_target = None" "tg_provider agents_target = ''.agents''" by (simp_all add: agents_target_def)
    show ?thesis
      using s[of "''.agents/skills/impeccable''"] n that
      by (simp add: repair_target_def Let_def a d existsSync_def[of fresh_project "''/p/.codex/hooks.json''"] readFileSync_def)
  qed
  have 3: "repair_target ''/p'' tg (r, writeFileSync ''/p/.codex/hooks.json'' t fresh_project) =
      Inr (r, writeFileSync ''/p/.codex/hooks.json'' t fresh_project)" if "tg \<in> {cursor_target, github_target}" for tg r
  proof -
    have "tg_skillRel tg \<in> {''.cursor/skills/impeccable'', ''.github/skills/impeccable''}"
      using that by (elim insertE emptyE) (simp_all only: cursor_target_def github_target_def target.simps insert_iff simp_thms)
    then show ?thesis using w unfolding repair_target_def Let_def prod.case by (simp only: if_False not_False_eq_True if_True)
  qed
  show ?thesis
    by (simp add: repairHookManifests_def HOOK_MANIFEST_TARGETS_def 1 2 3)
qed

theorem repair_settles_witness:
  "\<exists>res fs1 res'. repairHookManifests ''/p'' fresh_project = Inr (res, fs1) \<and> rp_written res = [''.agents''] \<and>
     repairHookManifests ''/p'' fs1 = Inr (res', fs1) \<and> rp_written res' = []"
  using fresh_project_repaired repair_settles[of "''/p''" fresh_project] by metis

text \<open>An entry of somebody else: no marker of ours in it, and no empty entry in its \<open>hooks\<close>.\<close>

function full_hooks :: "jsval \<Rightarrow> bool" where
  "full_hooks entry \<longleftrightarrow>
     truthy entry \<and> (case get_prop entry ''hooks'' of JArr hooks \<Rightarrow> list_all full_hooks hooks | _ \<Rightarrow> True)"
  by pat_completeness auto
termination by (relation "measure size") (auto intro: size_of_hooks)

declare full_hooks.simps [simp del]

definition foreign_entry :: "jsval \<Rightarrow> bool" where
  "foreign_entry e \<longleftrightarrow> full_hooks e \<and> \<not> has_marker e"

lemma has_marker_iff:
  "has_marker_list xs \<longleftrightarrow> list_ex has_marker xs" "has_marker_fields kvs \<longleftrightarrow> list_ex (\<lambda>(k, v). has_marker v) kvs"
proof -
  show "has_marker_list xs \<longleftrightarrow> list_ex has_marker xs" by (induction xs) auto
  show "has_marker_fields kvs \<longleftrightarrow> list_ex (\<lambda>(k, v). has_marker v) kvs" by (induction kvs) auto
qed

lemma has_marker_get: "has_marker (get_prop e k) \<Longrightarrow> has_marker e"
  by (cases e) (auto simp: has_marker_iff list_ex_iff split: option.splits if_splits dest: map_of_SomeD)

lemma foreign_untouched: "foreign_entry e \<Longrightarrow> strip_entry e = e"
proof (induction e rule: strip_entry.induct)
  case (1 e)
  have "\<not> own_command e" using 1(2) has_marker_get unfolding own_command_def foreign_entry_def by blast
  moreover have "filter truthy (map strip_entry hooks) = hooks \<and> \<not> has_marker_list hooks"
    if h: "truthy e" "typeof_object e" "get_prop e ''hooks'' = JArr hooks" for hooks
  proof -
    have "list_all full_hooks hooks" using 1(2) h(3) by (simp add: foreign_entry_def full_hooks.simps[of e])
    moreover have m: "\<not> has_marker (JArr hooks)" using 1(2) has_marker_get[of e "''hooks''"] h(3) by (auto simp: foreign_entry_def)
    ultimately have f: "foreign_entry x" "truthy x" if "x \<in> set hooks" for x
      using that full_hooks.simps[of x] by (auto simp: foreign_entry_def has_marker_iff list_all_iff list_ex_iff)
    have "map strip_entry hooks = hooks" using 1(1)[OF _ _ h(3)] h f(1) \<open>\<not> own_command e\<close> by (intro map_idI) blast
    then show ?thesis using f(2) m by (simp add: filter_id_conv)
  qed
  moreover have "set_prop e ''hooks'' (JArr hooks) = e" if g: "get_prop e ''hooks'' = JArr hooks" for hooks
  proof -
    obtain kvs where kvs: "e = JObj kvs" using get_array_obj[OF g] by blast
    show ?thesis unfolding kvs by (rule set_prop_same) (use g kvs in simp_all)
  qed
  ultimately show ?case by (subst strip_entry.simps) (auto simp: Let_def split: jsval.splits)
qed

lemma strip_not_own: "truthy (strip_entry e) \<Longrightarrow> \<not> own_command (strip_entry e)"
proof -
  assume t: "truthy (strip_entry e)"
  have o: "\<not> own_command e" if "\<not> typeof_object e"
    using that by (cases e) (auto simp: own_command_def)
  show ?thesis
  proof (cases "\<not> truthy e \<or> \<not> typeof_object e \<or> own_command e \<or> (\<forall>hooks. get_prop e ''hooks'' \<noteq> JArr hooks)")
    case True
    then have "strip_entry e = JNull \<or> strip_entry e = e \<and> (\<not> truthy e \<or> \<not> typeof_object e \<or> \<not> own_command e)"
      by (subst (1 2) strip_entry.simps) (auto split: jsval.splits)
    then show ?thesis using o t by auto
  next
    case False
    then obtain hooks where h: "truthy e" "typeof_object e" "\<not> own_command e" "get_prop e ''hooks'' = JArr hooks" by auto
    obtain kvs where "e = JObj kvs" using get_array_obj[OF h(4)] by blast
    then have "\<not> own_command (set_prop e ''hooks'' v)" for v using h(3) by (simp add: own_command_def)
    then show ?thesis using h t by (subst strip_entry.simps) (auto simp: Let_def strip_entry.simps[of e] split: if_splits)
  qed
qed

lemma foreign_subseq: "subseq (filter foreign_entry es) (filter truthy (map strip_entry es))"
proof (induction es)
  case (Cons e es)
  have "truthy e" if "foreign_entry e" using that full_hooks.simps[of e] by (simp add: foreign_entry_def)
  then show ?case using Cons foreign_untouched[of e] by (auto intro: list_emb_Cons)
qed simp

lemma merged_entries_at: "arr_of (get_prop (JObj (merged_hooks H F)) e) =
    (if e \<in> set (hook_events H F) then merged_entries H F e else [])"
  by (auto simp: merged_hooks_get arr_of_def)

lemma get_obj_fields: "get_prop (JObj kvs) e \<noteq> JUndef \<Longrightarrow> e \<in> set (map fst kvs)"
  by (force split: option.splits dest: map_of_SomeD)

lemma merge_other_keys:
  assumes "k \<notin> {''hooks'', ''version'', ''description''}"
  shows "get_prop (mergeHookManifests existing fresh) k = get_prop (object_or_empty existing) k"
proof -
  obtain ex where "object_or_empty existing = JObj ex" using plain_get by (metis object_or_empty_def)
  moreover have "get_prop (JObj (obj_fields (set_prop a j v))) k = get_prop (set_prop a j v) k" for a j v
    by (simp add: set_prop_def del: get_prop.simps)
  ultimately show ?thesis using assms by (simp add: mergeHookManifests_def Let_def del: get_prop.simps)
qed

text \<open>C14: Installing our entries in a manifest keeps what others have there: under every event the entries of
  others stay, whole and in their order, ahead of ours; no other entry that stays runs one of our commands;
  and the keys of the manifest that are not ours to set stay as they are.\<close>

theorem manifest_keeps_others:
  "(\<exists>kept. arr_of (get_prop (get_prop (mergeHookManifests existing fresh) ''hooks'') event) =
        kept @ arr_of (get_prop (object_or_empty (get_prop (object_or_empty fresh) ''hooks'')) event) \<and>
      subseq (filter foreign_entry (arr_of (get_prop (object_or_empty (get_prop (object_or_empty existing) ''hooks'')) event))) kept \<and>
      list_all (\<lambda>e. \<not> own_command e) kept) \<and>
    (k \<in> {''hooks'', ''version'', ''description''} \<or>
      get_prop (mergeHookManifests existing fresh) k = get_prop (object_or_empty existing) k)"
proof -
  let ?H = "object_or_empty (get_prop (object_or_empty existing) ''hooks'')"
  let ?F = "object_or_empty (get_prop (object_or_empty fresh) ''hooks'')"
  obtain h f where hf: "?H = JObj h" "?F = JObj f" using plain_get by (metis object_or_empty_def)
  have "merged_entries ?H ?F event = []" if "event \<notin> set (hook_events ?H ?F)"
  proof -
    have "get_prop ?H event = JUndef" "get_prop ?F event = JUndef"
      using that get_obj_fields[of h event] get_obj_fields[of f event] unfolding hf hook_events_def
      by (auto simp del: get_prop.simps)
    then show ?thesis by (simp only: merged_entries_def strip_entries_def arr_of_def jsval.case list.map filter.simps append_Nil)
  qed
  then have "arr_of (get_prop (get_prop (mergeHookManifests existing fresh) ''hooks'') event) =
      strip_entries (get_prop ?H event) @ arr_of (get_prop ?F event)"
    unfolding merge_get(2) merged_entries_at by (simp add: merged_entries_def)
  moreover have "subseq (filter foreign_entry (arr_of (get_prop ?H event))) (strip_entries (get_prop ?H event))"
    unfolding strip_entries_def by (rule foreign_subseq)
  moreover have "list_all (\<lambda>e. \<not> own_command e) (strip_entries (get_prop ?H event))"
    using strip_not_own by (auto simp: strip_entries_def list_all_iff)
  ultimately show ?thesis using merge_other_keys by blast
qed

end
