(* ===== verification/HookAdmin.thy ===== *)
theory HookAdmin
  imports WriteGate HookManifests
begin

text \<open>
  The command \<open>/impeccable hooks\<close> (\<open>hook-admin.mjs\<close>): the two configuration files and their waivers,
  and the actions \<open>status\<close>, \<open>on\<close>, \<open>off\<close>,
  \<open>ignore-rule\<close>, \<open>ignore-file\<close>, \<open>ignore-value\<close> and \<open>reset\<close>. The theorems say what an action means for
  the hook that runs next (theories DesignHook and WriteGate read the files written here): \<open>off\<close>
  silences both hooks, \<open>reset\<close> restores the defaults, and an ignored rule is never reported again. The
  manifests that \<open>on\<close> repairs are those of theory HookManifests.

  \<open>msg\<close> is the message of an exception of \<open>node:fs\<close>; a directory in the place of a file causes one.
  \<open>ts\<close> is the time of the command. The waiver functions that the command takes from \<open>hook-lib.mjs\<close> are
  those of theory IgnoreConfig.
\<close>

section \<open>Constants\<close>

definition ACTIONS :: "string list" where
  "ACTIONS = [''status'', ''on'', ''off'', ''ignore-rule'', ''ignore-file'', ''ignore-value'', ''reset'']"

section \<open>Reading and writing the configuration\<close>

record raw_file =
  rf_exists :: bool
  rf_malformed :: bool
  rf_raw :: jsval

definition readRawConfigFile :: "fs \<Rightarrow> string \<Rightarrow> raw_file" where
  "readRawConfigFile fs p =
     (if \<not> existsSync fs p then \<lparr>rf_exists = False, rf_malformed = False, rf_raw = JNull\<rparr>
      else case Option.bind (readFileSync fs p) json_parse of
        Some v \<Rightarrow> \<lparr>rf_exists = True, rf_malformed = False, rf_raw = v\<rparr>
      | None \<Rightarrow> \<lparr>rf_exists = True, rf_malformed = True, rf_raw = JNull\<rparr>)"

definition admin_hookSection :: "jsval \<Rightarrow> jsval" where
  "admin_hookSection unified =
     (if plain_object unified \<and> plain_object (get_prop unified ''hook'') then get_prop unified ''hook'' else JNull)"

definition admin_detectorSection :: "jsval \<Rightarrow> jsval" where
  "admin_detectorSection unified =
     (if plain_object unified \<and> plain_object (get_prop unified ''detector'') then get_prop unified ''detector'' else JNull)"

definition config_path :: "string \<Rightarrow> bool \<Rightarrow> string" where
  "config_path cwd local = (if local then getLocalConfigPath cwd else getConfigPath cwd)"

definition readRawHookConfig :: "fs \<Rightarrow> string \<Rightarrow> jsval" where
  "readRawHookConfig fs cwd = admin_hookSection (rf_raw (readRawConfigFile fs (getConfigPath cwd)))"

definition ignoreValueEntryKey :: "jsval \<Rightarrow> string" where
  "ignoreValueEntryKey e =
     to_str (get_prop e ''rule'') @ [CHR 0x00] @ to_str (get_prop e ''value'') @ [CHR 0x00] @
     (case get_prop e ''files'' of
        JArr fs \<Rightarrow> if fs = [] then [] else join [CHR 0x1F] (to_str_list fs) | _ \<Rightarrow> [])"

definition mergeIgnoreValueEntries :: "jsval list \<Rightarrow> jsval \<Rightarrow> jsval list" where
  "mergeIgnoreValueEntries existing incoming =
     map snd (fold (\<lambda>e m. fields_set (ignoreValueEntryKey e) e m)
       (normalizeIgnoreValueEntries (JArr existing) @ normalizeIgnoreValueEntries incoming) [])"

text \<open>The detector part of the configuration as the command line edits it.\<close>

record detector_out =
  do_rules :: "string list"
  do_files :: "string list"
  do_values :: "jsval list"
  do_design :: "jsval option"

definition empty_out :: detector_out where
  "empty_out = \<lparr>do_rules = [], do_files = [], do_values = [], do_design = None\<rparr>"

definition detector_json :: "detector_out \<Rightarrow> jsval" where
  "detector_json c =
     JObj ([(''ignoreRules'', JArr (map JStr (do_rules c))), (''ignoreFiles'', JArr (map JStr (do_files c))),
            (''ignoreValues'', JArr (do_values c))] @
           (case do_design c of Some v \<Rightarrow> [(''designSystem'', v)] | None \<Rightarrow> []))"

definition seed_out :: "detector_out option \<Rightarrow> detector_out" where
  "seed_out seed =
     (case seed of
        None \<Rightarrow> empty_out
      | Some s \<Rightarrow>
          \<lparr>do_rules = do_rules s, do_files = do_files s, do_values = normalizeIgnoreValueEntries (JArr (do_values s)),
           do_design = (case do_design s of Some v \<Rightarrow> if plain_object v then Some v else None | None \<Rightarrow> None)\<rparr>)"

definition mergeDetectorConfig :: "jsval \<Rightarrow> detector_out option \<Rightarrow> detector_out" where
  "mergeDetectorConfig existing seed =
     (let base = (if truthy existing \<and> typeof_object existing then existing else JObj []);
          out0 = seed_out seed;
          out1 = (if plain_object (get_prop base ''designSystem'')
                  then out0\<lparr>do_design := Some (set_prop (case do_design out0 of Some v \<Rightarrow> v | None \<Rightarrow> JObj []) ''enabled''
                         (JBool (get_prop (get_prop base ''designSystem'') ''enabled'' \<noteq> JBool False)))\<rparr>
                  else out0);
          out2 = (if is_array (get_prop base ''ignoreRules'')
                  then out1\<lparr>do_rules := uniq (do_rules out1 @ map to_str (arr_of (get_prop base ''ignoreRules'')))\<rparr>
                  else out1);
          out3 = (if is_array (get_prop base ''ignoreFiles'')
                  then out2\<lparr>do_files := uniq (do_files out2 @ map to_str (arr_of (get_prop base ''ignoreFiles'')))\<rparr>
                  else out2)
      in if is_array (get_prop base ''ignoreValues'')
         then out3\<lparr>do_values := mergeIgnoreValueEntries (do_values out3) (get_prop base ''ignoreValues'')\<rparr>
         else out3)"

definition readRawDetectorConfig :: "fs \<Rightarrow> string \<Rightarrow> bool \<Rightarrow> detector_out" where
  "readRawDetectorConfig fs cwd local =
     (let unified = rf_raw (readRawConfigFile fs (config_path cwd local));
          merged = mergeDetectorConfig (admin_hookSection unified) None
      in mergeDetectorConfig (admin_detectorSection unified) (Some merged))"

definition admin_stripDetectorKeys :: "jsval \<Rightarrow> jsval" where
  "admin_stripDetectorKeys raw =
     (if plain_object raw then JObj (filter (\<lambda>(k, v). k \<notin> set DETECTOR_CONFIG_KEYS) (obj_fields raw)) else JObj [])"

text \<open>The object a file holds, the empty one when it holds something else.\<close>

definition existing_object :: "fs \<Rightarrow> string \<Rightarrow> jsval" where
  "existing_object fs p =
     (let raw = rf_raw (readRawConfigFile fs p) in if plain_object raw then raw else JObj [])"

definition local_excludes :: "string \<Rightarrow> bool \<Rightarrow> fs \<Rightarrow> fs" where
  "local_excludes cwd local fs = (if local then snd (ensureHookGitExcludes cwd fs) else fs)"

definition write_config :: "string \<Rightarrow> string \<Rightarrow> jsval \<Rightarrow> fs \<Rightarrow> (string + string) \<times> fs" where
  "write_config msg p v fs = (if fs p = Some Dir then (Inl msg, fs) else (Inr p, write_json 2 p v fs))"

definition writeHookConfig :: "string \<Rightarrow> string \<Rightarrow> jsval \<Rightarrow> bool \<Rightarrow> fs \<Rightarrow> (string + string) \<times> fs" where
  "writeHookConfig msg cwd hookConfig local fs =
     (let p = config_path cwd local; fs1 = local_excludes cwd local fs;
          existing = existing_object fs1 p;
          existingHook = admin_stripDetectorKeys (admin_hookSection existing)
      in write_config msg p (set_prop existing ''hook'' (spread existingHook hookConfig)) fs1)"

definition next_detector :: "jsval \<Rightarrow> detector_out \<Rightarrow> jsval" where
  "next_detector existing detectorConfig =
     (let nextHook = admin_stripDetectorKeys (admin_hookSection existing);
          existingDetector = mergeDetectorConfig (admin_detectorSection existing) None;
          nxt = set_prop existing ''detector''
                  (detector_json (mergeDetectorConfig (detector_json detectorConfig) (Some existingDetector)))
      in if obj_fields nextHook \<noteq> [] then set_prop nxt ''hook'' nextHook else delete_prop nxt ''hook'')"

definition writeDetectorConfig :: "string \<Rightarrow> string \<Rightarrow> detector_out \<Rightarrow> bool \<Rightarrow> fs \<Rightarrow> (string + string) \<times> fs" where
  "writeDetectorConfig msg cwd detectorConfig local fs =
     (let p = config_path cwd local; fs1 = local_excludes cwd local fs
      in write_config msg p (next_detector (existing_object fs1 p) detectorConfig) fs1)"

definition mergeHookConfig :: "jsval \<Rightarrow> jsval" where
  "mergeHookConfig existing =
     (let base = (if truthy existing \<and> typeof_object existing then existing else JObj []);
          limits = get_prop base ''limits'';
          limit = (\<lambda>k d. if is_finite_number (get_prop limits k) then get_prop limits k else d)
      in JObj [(''enabled'', JBool (get_prop base ''enabled'' \<noteq> JBool False)),
               (''limits'', JObj [(''maxFindings'', limit ''maxFindings'' (hc_maxFindings cloneDefaultConfig)),
                  (''maxChars'', limit ''maxChars'' (hc_maxChars cloneDefaultConfig))])])"

section \<open>The report\<close>

definition rel_or :: "string \<Rightarrow> string \<Rightarrow> string \<Rightarrow> string" where
  "rel_or cwd p d = (let r = path_relative cwd p in if r = [] then d else r)"

definition file_state :: "raw_file \<Rightarrow> string \<Rightarrow> string \<Rightarrow> string" where
  "file_state info relPath absent =
     (if rf_malformed info then relPath @ '' (malformed; ignored)''
      else if rf_exists info then relPath
      else relPath @ '' ('' @ absent @ '')'')"

definition listed :: "string list \<Rightarrow> string" where
  "listed xs = (if xs = [] then ''(none)'' else join '', '' xs)"

definition statusReport :: "env \<Rightarrow> fs \<Rightarrow> string \<Rightarrow> string" where
  "statusReport env fs cwd =
     (let shared = readRawConfigFile fs (getConfigPath cwd);
          local = readRawConfigFile fs (getLocalConfigPath cwd);
          cfg = readConfig fs cwd;
          dc = hc_detection cfg;
          envState = (case env ''IMPECCABLE_HOOK_DISABLED'' of
             Some v \<Rightarrow> if v \<noteq> [] then ''IMPECCABLE_HOOK_DISABLED='' @ v else ''unset'' | None \<Rightarrow> ''unset'');
          cfgPath = rel_or cwd (getConfigPath cwd) ''.impeccable/config.json'';
          localPath = rel_or cwd (getLocalConfigPath cwd) ''.impeccable/config.local.json'';
          cachePath = rel_or cwd (getCachePath cwd) ''.impeccable/hook.cache.json'';
          ignoreValues = map (\<lambda>e. to_str (get_prop e ''rule'') @ ''='' @ to_str (get_prop e ''value'')) (dc_ignoreValues dc)
      in join newline
        [''Impeccable design hook'',
         ''  state:        '' @ (if hc_enabled cfg then ''enabled'' else ''disabled''),
         ''  shared file:  '' @ file_state shared cfgPath ''using defaults; file not present'',
         ''  local file:   '' @ file_state local localPath ''not present'',
         ''  ignoreRules:  '' @ listed (dc_ignoreRules dc),
         ''  ignoreFiles:  '' @ listed (dc_ignoreFiles dc),
         ''  ignoreValues: '' @ listed ignoreValues,
         ''  maxFindings:  '' @ to_str (hc_maxFindings cfg),
         ''  maxChars:     '' @ to_str (hc_maxChars cfg),
         ''  env override: '' @ envState,
         ''  cache file:   '' @ (if existsSync fs (getCachePath cwd) then cachePath else cachePath @ '' (not present)'')])"

section \<open>The actions\<close>

text \<open>An action has an output or an error message, and the files afterwards.\<close>

type_synonym admin_outcome = "(string + string) \<times> fs"

definition enabled_report :: "string \<Rightarrow> string \<Rightarrow> string \<Rightarrow> repair \<Rightarrow> string" where
  "enabled_report cwd target localTarget repaired =
     join '' ''
       ([''Design hook enabled for this project (wrote '' @ rel_or cwd target target @ '').'',
         ''Recorded local hook consent in '' @ rel_or cwd localTarget localTarget @ ''.'',
         (if rp_written repaired \<noteq> []
          then ''Installed or repaired hook manifests for: '' @ join '', '' (rp_written repaired) @ ''.''
          else if rp_already repaired \<noteq> []
          then ''Hook manifests already installed for: '' @ join '', '' (rp_already repaired) @ ''.''
          else ''No installed provider skill folders found to repair.'')] @
        (if rp_backups repaired \<noteq> []
         then [''Backed up malformed manifest(s): '' @ join '', '' (map (\<lambda>p. rel_or cwd p p) (rp_backups repaired)) @ ''.'']
         else []))"

definition setEnabled :: "string \<Rightarrow> string \<Rightarrow> bool \<Rightarrow> fs \<Rightarrow> admin_outcome" where
  "setEnabled msg cwd on fs =
     (let config = set_prop (mergeHookConfig (readRawHookConfig fs cwd)) ''enabled'' (JBool on) in
      case writeHookConfig msg cwd config False fs of
        (Inl e, fs1) \<Rightarrow> (Inl e, fs1)
      | (Inr target, fs1) \<Rightarrow>
          if \<not> on then (Inr (''Design hook disabled for this project (wrote '' @ rel_or cwd target target @ '').''), fs1)
          else case writeHookConfig msg cwd (JObj [(''consent'', JStr ''accepted'')]) True fs1 of
            (Inl e, fs2) \<Rightarrow> (Inl e, fs2)
          | (Inr localTarget, fs2) \<Rightarrow>
              (case repairHookManifests cwd fs2 of
                 Inl fs3 \<Rightarrow> (Inl msg, fs3)
               | Inr (repaired, fs3) \<Rightarrow> (Inr (enabled_report cwd target localTarget repaired), fs3)))"

definition normalizeRuleId :: "string \<Rightarrow> string" where
  "normalizeRuleId rule = to_lower (trim rule)"

definition is_flag :: "string \<Rightarrow> bool" where
  "is_flag arg \<longleftrightarrow> starts_with arg ''--''"

text \<open>The positional arguments and whether \<open>--all-values\<close> is given, or the error.\<close>

function parse_rule_args :: "string list \<Rightarrow> string list \<Rightarrow> bool \<Rightarrow> string + string list \<times> bool" where
  "parse_rule_args [] positionals allValues = Inr (positionals, allValues)"
| "parse_rule_args (arg # args) positionals allValues =
     (if arg = ''--all-values'' then parse_rule_args args positionals True
      else if arg = ''--reason'' then parse_rule_args (dropWhile (\<lambda>a. \<not> is_flag a) args) positionals allValues
      else if starts_with arg ''--reason='' then parse_rule_args args positionals allValues
      else if is_flag arg then Inl (''Unknown ignore-rule flag: '' @ arg)
      else parse_rule_args args (positionals @ [arg]) allValues)"
  by pat_completeness auto
termination
  by (relation "measure (\<lambda>(args, p, b). length args)") (auto simp: less_Suc_eq_le intro: length_dropWhile_le)

definition parseIgnoreRuleArgs :: "string list \<Rightarrow> string + string \<times> bool" where
  "parseIgnoreRuleArgs args =
     (case parse_rule_args args [] False of
        Inl e \<Rightarrow> Inl e
      | Inr (positionals, allValues) \<Rightarrow>
          Inr (normalizeRuleId (case positionals of [] \<Rightarrow> [] | p # ps \<Rightarrow> p), allValues))"

definition current_config :: "fs \<Rightarrow> string \<Rightarrow> bool \<Rightarrow> detector_out" where
  "current_config fs cwd local = mergeDetectorConfig (detector_json (readRawDetectorConfig fs cwd local)) None"

definition add_once :: "string \<Rightarrow> string list \<Rightarrow> string list" where
  "add_once x xs = (if x \<in> set xs then xs else xs @ [x])"

definition addIgnoreRule :: "string \<Rightarrow> string \<Rightarrow> string list \<Rightarrow> fs \<Rightarrow> admin_outcome" where
  "addIgnoreRule msg cwd args fs =
     (case parseIgnoreRuleArgs args of
        Inl e \<Rightarrow> (Inl e, fs)
      | Inr (rule, allValues) \<Rightarrow>
          if rule = [] then (Inl ''Pass a rule id, e.g. /impeccable hooks ignore-rule side-tab'', fs)
          else if rule = ''overused-font'' \<and> \<not> allValues
          then (Inl ''overused-font is value-specific by default. Use /impeccable hooks ignore-value overused-font <font> for a confirmed font, or /impeccable hooks ignore-rule overused-font --all-values only when the user asked to ignore overused fonts generally.'', fs)
          else
            let config = current_config fs cwd False;
                rules = add_once rule (do_rules config) in
            (case writeDetectorConfig msg cwd (config\<lparr>do_rules := rules\<rparr>) False fs of
               (Inl e, fs1) \<Rightarrow> (Inl e, fs1)
             | (Inr target, fs1) \<Rightarrow>
                 (Inr (''Added \"'' @ rule @ ''\" to detector.ignoreRules. Current: '' @ join '', '' rules), fs1)))"

definition addIgnoreFile :: "string \<Rightarrow> string \<Rightarrow> string option \<Rightarrow> fs \<Rightarrow> admin_outcome" where
  "addIgnoreFile msg cwd arg fs =
     (case arg of
        None \<Rightarrow> (Inl ''Pass a glob, e.g. /impeccable hooks ignore-file \"src/legacy/**\"'', fs)
      | Some glob \<Rightarrow>
          if glob = [] then (Inl ''Pass a glob, e.g. /impeccable hooks ignore-file \"src/legacy/**\"'', fs)
          else
            let config = current_config fs cwd False;
                files = add_once glob (do_files config) in
            (case writeDetectorConfig msg cwd (config\<lparr>do_files := files\<rparr>) False fs of
               (Inl e, fs1) \<Rightarrow> (Inl e, fs1)
             | (Inr target, fs1) \<Rightarrow>
                 (Inr (''Added \"'' @ glob @ ''\" to detector.ignoreFiles. Current: '' @ join '', '' files), fs1)))"

record value_args =
  va_positionals :: "string list"
  va_shared :: bool
  va_local :: bool
  va_reason :: string

function parse_value_args :: "string list \<Rightarrow> value_args \<Rightarrow> value_args" where
  "parse_value_args [] a = a"
| "parse_value_args (arg # args) a =
     (if arg = ''--shared'' then parse_value_args args (a\<lparr>va_shared := True\<rparr>)
      else if arg = ''--local'' then parse_value_args args (a\<lparr>va_local := True\<rparr>)
      else if arg = ''--reason''
      then parse_value_args (dropWhile (\<lambda>x. \<not> is_flag x) args)
             (a\<lparr>va_reason := trim (join '' '' (takeWhile (\<lambda>x. \<not> is_flag x) args))\<rparr>)
      else if starts_with arg ''--reason='' then parse_value_args args (a\<lparr>va_reason := trim (drop 9 arg)\<rparr>)
      else parse_value_args args (a\<lparr>va_positionals := va_positionals a @ [arg]\<rparr>))"
  by pat_completeness auto
termination
  by (relation "measure (\<lambda>(args, a). length args)") (auto simp: less_Suc_eq_le intro: length_dropWhile_le)

definition parseIgnoreValueArgs :: "string list \<Rightarrow> value_args" where
  "parseIgnoreValueArgs args =
     parse_value_args args \<lparr>va_positionals = [], va_shared = False, va_local = False, va_reason = []\<rparr>"

definition value_rule :: "value_args \<Rightarrow> string" where
  "value_rule a = normalizeRuleId (case va_positionals a of [] \<Rightarrow> [] | p # ps \<Rightarrow> p)"

definition value_value :: "value_args \<Rightarrow> string" where
  "value_value a = normalizeIgnoreValue (JStr (join '' '' (drop 1 (va_positionals a))))"

text \<open>The waivers with the one that is asked for; an entry of that rule and value only gets the reason.\<close>

definition same_waiver :: "string \<Rightarrow> string \<Rightarrow> jsval \<Rightarrow> bool" where
  "same_waiver rule v e \<longleftrightarrow>
     to_str (get_prop e ''rule'') @ [CHR 0x00] @ to_str (get_prop e ''value'') = rule @ [CHR 0x00] @ v"

fun give_reason :: "string \<Rightarrow> string \<Rightarrow> string \<Rightarrow> jsval list \<Rightarrow> jsval list" where
  "give_reason rule v reason [] = []"
| "give_reason rule v reason (e # es) =
     (if same_waiver rule v e
      then (if reason \<noteq> [] then set_prop e ''reason'' (JStr reason) else e) # es
      else e # give_reason rule v reason es)"

definition with_waiver :: "string \<Rightarrow> string \<Rightarrow> string \<Rightarrow> string \<Rightarrow> jsval list \<Rightarrow> jsval list" where
  "with_waiver ts rule v reason es =
     (if list_ex (same_waiver rule v) es then give_reason rule v reason es
      else es @ [JObj ([(''rule'', JStr rule), (''value'', JStr v), (''createdAt'', JStr ts)] @
                  (if reason \<noteq> [] then [(''reason'', JStr reason)] else []))])"

definition addIgnoreValue :: "string \<Rightarrow> string \<Rightarrow> string \<Rightarrow> string list \<Rightarrow> fs \<Rightarrow> admin_outcome" where
  "addIgnoreValue msg ts cwd args fs =
     (let a = parseIgnoreValueArgs args; rule = value_rule a; v = value_value a; local = va_local a in
      if rule = [] \<or> v = []
      then (Inl ''Pass a rule id and value, e.g. /impeccable hooks ignore-value overused-font Inter'', fs)
      else if va_shared a \<and> local then (Inl ''Pass only one scope flag: --shared or --local'', fs)
      else
        let config = current_config fs cwd local in
        (case writeDetectorConfig msg cwd
            (config\<lparr>do_values := with_waiver ts rule v (va_reason a) (do_values config)\<rparr>) local fs of
           (Inl e, fs1) \<Rightarrow> (Inl e, fs1)
         | (Inr target, fs1) \<Rightarrow>
             (Inr (''Added '' @ rule @ ''='' @ v @ '' to '' @
                (if local then ''local detector.ignoreValues'' else ''shared detector.ignoreValues'') @
                '' ('' @ rel_or cwd target target @ '').''), fs1)))"

text \<open>The steps of \<open>reset\<close> on a configuration file and on a state file.\<close>

definition reset_config :: "string \<Rightarrow> string \<Rightarrow> string list \<times> fs \<Rightarrow> string list \<times> fs" where
  "reset_config cwd p st =
     (case st of (removed, fs) \<Rightarrow>
        let raw = rf_raw (readRawConfigFile fs p); rest = delete_prop (delete_prop raw ''hook'') ''detector'' in
        if \<not> plain_object raw \<or> (\<not> has_own raw ''hook'' \<and> \<not> has_own raw ''detector'') then (removed, fs)
        else (removed @ [rel_or cwd p p],
              if obj_fields rest = [] then unlinkSync p fs else write_json 2 p rest fs))"

definition reset_state :: "string \<Rightarrow> string \<Rightarrow> string list \<times> fs \<Rightarrow> string list \<times> fs" where
  "reset_state cwd p st =
     (case st of (removed, fs) \<Rightarrow>
        if existsSync fs p \<and> fs p \<noteq> Some Dir then (removed @ [rel_or cwd p p], unlinkSync p fs) else (removed, fs))"

definition reset :: "string \<Rightarrow> fs \<Rightarrow> admin_outcome" where
  "reset cwd fs =
     (let (removed, fs1) =
        fold (reset_state cwd) [getCachePath cwd, getPendingPath cwd]
          (fold (reset_config cwd) [getConfigPath cwd, getLocalConfigPath cwd] ([], fs))
      in (Inr (if removed \<noteq> []
               then ''Reset design hook config and cache (removed: '' @ join '', '' removed @ '').''
               else ''No hook config or cache to remove. Already at defaults.''), fs1))"

text \<open>The exit code, the standard output and the standard error.\<close>

definition run_action :: "string \<Rightarrow> string \<Rightarrow> env \<Rightarrow> string \<Rightarrow> string list \<Rightarrow> fs \<Rightarrow> string \<Rightarrow> admin_outcome" where
  "run_action msg ts env cwd args fs action =
     (if action = ''status'' then (Inr (statusReport env fs cwd), fs)
      else if action = ''on'' then setEnabled msg cwd True fs
      else if action = ''off'' then setEnabled msg cwd False fs
      else if action = ''ignore-rule'' then addIgnoreRule msg cwd args fs
      else if action = ''ignore-file'' then addIgnoreFile msg cwd (case args of [] \<Rightarrow> None | g # gs \<Rightarrow> Some g) fs
      else if action = ''ignore-value'' then addIgnoreValue msg ts cwd args fs
      else reset cwd fs)"

definition admin_main :: "string \<Rightarrow> string \<Rightarrow> env \<Rightarrow> string \<Rightarrow> string list \<Rightarrow> fs \<Rightarrow> int \<times> string \<times> string \<times> fs" where
  "admin_main msg ts env cwd argv fs =
     (let action = to_lower (case argv of [] \<Rightarrow> ''status'' | a # as \<Rightarrow> if a = [] then ''status'' else a) in
      if action \<notin> set ACTIONS
      then (1, [], ''Unknown action: '' @ action @ newline @ ''Valid: '' @ join '', '' ACTIONS @ newline, fs)
      else case run_action msg ts env cwd (drop 1 argv) fs action of
        (Inr out, fs1) \<Rightarrow> (0, out @ newline, [], fs1)
      | (Inl e, fs1) \<Rightarrow> (1, [], ''Error: '' @ e @ newline, fs1))"

section \<open>Files and paths\<close>

lemma read_written:
  assumes "json_wf v"
  shows "hook_readJson (write_json gap p v fs) q = (if q = p then v else hook_readJson fs q)"
proof -
  have "json_stringify gap v = Some (json_text gap 0 v)" by (simp add: json_stringify_def json_wf_norm(1)[OF assms])
  moreover have "json_parse (json_text gap 0 v @ newline) = Some v"
    by (rule json_parse_text[OF assms]) (simp add: skip_ws_def newline_def char_codes is_json_space_def code_def)
  ultimately show ?thesis by (simp add: hook_readJson_def write_json_def)
qed

lemma read_unlinked: "hook_readJson (unlinkSync p fs) q = (if q = p then JNull else hook_readJson fs q)"
  by (simp add: hook_readJson_def)

lemma rf_raw_read: "rf_raw (readRawConfigFile fs p) = hook_readJson fs p"
  by (auto simp: readRawConfigFile_def hook_readJson_def readFileSync_def existsSync_def split: option.splits fnode.splits)

lemma read_wf: "json_wf (hook_readJson fs p)"
  by (auto simp: hook_readJson_def json_parse_wf split: option.splits)

lemma existing_object_wf: "json_wf (existing_object fs p)" "\<exists>kvs. existing_object fs p = JObj kvs"
  using read_wf plain_get by (auto simp: existing_object_def rf_raw_read Let_def)

section \<open>Reset\<close>

lemma section_none: "get_prop raw ''hook'' = JUndef \<Longrightarrow> hookSection raw = JNull"
  "get_prop raw ''detector'' = JUndef \<Longrightarrow> detectorSection raw = JNull"
  by (simp_all add: hookSection_def detectorSection_def plain_object_def)

lemma not_plain_get: "\<not> plain_object raw \<Longrightarrow> k \<noteq> ''length'' \<Longrightarrow> get_prop raw k = JUndef"
  by (cases raw) (auto simp: plain_object_def)

lemma apply_no_sections: "get_prop raw ''hook'' = JUndef \<Longrightarrow> get_prop raw ''detector'' = JUndef \<Longrightarrow> apply_config_file raw c = c"
  by (simp add: apply_config_file_def section_none applyDetectorConfigSource_def applyConfigSource_def
      applyDetectionConfigSource_def)

lemma reset_config_reads:
  assumes "reset_config cwd p (removed, fs) = (r, fs')"
  shows "get_prop (hook_readJson fs' p) ''hook'' = JUndef \<and> get_prop (hook_readJson fs' p) ''detector'' = JUndef"
    "q \<noteq> p \<Longrightarrow> hook_readJson fs' q = hook_readJson fs q"
proof -
  let ?raw = "hook_readJson fs p" let ?rest = "delete_prop (delete_prop ?raw ''hook'') ''detector''"
  have "get_prop (hook_readJson fs' p) ''hook'' = JUndef \<and> get_prop (hook_readJson fs' p) ''detector'' = JUndef \<and>
      (q \<noteq> p \<longrightarrow> hook_readJson fs' q = hook_readJson fs q)"
  proof (cases "\<not> plain_object ?raw \<or> (\<not> has_own ?raw ''hook'' \<and> \<not> has_own ?raw ''detector'')")
    case True
    then have "fs' = fs" using assms by (auto simp: reset_config_def rf_raw_read Let_def)
    moreover have "get_prop ?raw k = JUndef" if "k \<in> {''hook'', ''detector''}" for k
    proof (cases "plain_object ?raw")
      case False
      then show ?thesis using that by (auto simp: not_plain_get)
    next
      case p: True
      then obtain kvs where "?raw = JObj kvs" using plain_get by blast
      then show ?thesis using True p that by (auto simp: has_own_def)
    qed
    ultimately show ?thesis by simp
  next
    case False
    then obtain kvs where kvs: "?raw = JObj kvs" using plain_get by blast
    have f: "fs' = (if obj_fields ?rest = [] then unlinkSync p fs else write_json 2 p ?rest fs)"
      using assms False by (auto simp: reset_config_def rf_raw_read Let_def)
    have "json_wf ?rest"
      using read_wf[of fs p] unfolding kvs delete_prop_def obj_fields.simps by (intro wf_filter)
    moreover have "get_prop ?rest ''hook'' = JUndef" "get_prop ?rest ''detector'' = JUndef"
      unfolding prop_delete_prop by (simp_all add: delete_prop_def map_of_filter_neq)
    ultimately show ?thesis using f by (simp add: read_written read_unlinked)
  qed
  then show "get_prop (hook_readJson fs' p) ''hook'' = JUndef \<and> get_prop (hook_readJson fs' p) ''detector'' = JUndef"
    "q \<noteq> p \<Longrightarrow> hook_readJson fs' q = hook_readJson fs q" by auto
qed

lemma reset_state_reads:
  assumes "reset_state cwd p (removed, fs) = (r, fs')"
  shows "hook_readJson fs' p = JNull" "q \<noteq> p \<Longrightarrow> hook_readJson fs' q = hook_readJson fs q"
proof -
  have "fs' = unlinkSync p fs \<or> fs' = fs \<and> (fs p = None \<or> fs p = Some Dir)"
    using assms by (auto simp: reset_state_def existsSync_def split: if_splits)
  then show "hook_readJson fs' p = JNull" "q \<noteq> p \<Longrightarrow> hook_readJson fs' q = hook_readJson fs q"
    by (auto simp: read_unlinked) (auto simp: hook_readJson_def readFileSync_def)
qed

text \<open>C37: After \<open>reset\<close> the hook starts afresh, whatever the files held: the configuration the next run
  reads is the default one and no session is remembered.\<close>

theorem reset_restores_defaults:
  "readConfig (snd (reset cwd fs)) cwd = cloneDefaultConfig \<and> readCache (snd (reset cwd fs)) cwd = []"
proof -
  obtain r1 f1 where 1: "reset_config cwd (getConfigPath cwd) ([], fs) = (r1, f1)" by fastforce
  obtain r2 f2 where 2: "reset_config cwd (getLocalConfigPath cwd) (r1, f1) = (r2, f2)" by fastforce
  obtain r3 f3 where 3: "reset_state cwd (getCachePath cwd) (r2, f2) = (r3, f3)" by fastforce
  obtain r4 f4 where 4: "reset_state cwd (getPendingPath cwd) (r3, f3) = (r4, f4)" by fastforce
  have f: "snd (reset cwd fs) = f4" by (simp add: reset_def 1 2 3 4)
  note d = paths_differ[of cwd] paths_differ[of cwd, symmetric]
  have c: "hook_readJson f4 (getConfigPath cwd) = hook_readJson f1 (getConfigPath cwd)"
    using reset_state_reads(2)[OF 4] reset_state_reads(2)[OF 3] reset_config_reads(2)[OF 2] d by simp
  have l: "hook_readJson f4 (getLocalConfigPath cwd) = hook_readJson f2 (getLocalConfigPath cwd)"
    using reset_state_reads(2)[OF 4] reset_state_reads(2)[OF 3] d by simp
  have k: "hook_readJson f4 (getCachePath cwd) = JNull"
    using reset_state_reads(2)[OF 4] reset_state_reads(1)[OF 3] d by simp
  show ?thesis
    unfolding f readConfig_def readCache_def using c l k reset_config_reads(1)[OF 1] reset_config_reads(1)[OF 2]
    by (simp add: apply_no_sections)
qed

section \<open>Switching off\<close>

lemma write_config_reads:
  assumes "write_config msg p v fs = (Inr t, fs')" "json_wf v"
  shows "hook_readJson fs' q = (if q = p then v else hook_readJson fs q)"
  using assms by (auto simp: write_config_def read_written split: if_splits)

lemma strip_wf: "\<exists>kvs. admin_stripDetectorKeys (admin_hookSection (existing_object fs p)) = JObj kvs \<and> json_wf (JObj kvs) \<and>
    (\<forall>k \<in> set DETECTOR_CONFIG_KEYS. map_of kvs k = None)"
proof -
  obtain ex where ex: "existing_object fs p = JObj ex" "json_wf (JObj ex)" using existing_object_wf[of fs p] by metis
  show ?thesis
  proof (cases "plain_object (get_prop (JObj ex) ''hook'')")
    case True
    then obtain h where h: "get_prop (JObj ex) ''hook'' = JObj h" using plain_get by blast
    have "json_wf (JObj h)" using wf_get[OF ex(2), of "''hook''"] by (simp only: h jsval.distinct simp_thms)
    moreover have "map_of (filter (\<lambda>(k, v). k \<notin> set DETECTOR_CONFIG_KEYS) h) k = None" if "k \<in> set DETECTOR_CONFIG_KEYS" for k
      using that by (induction h) auto
    ultimately show ?thesis using wf_filter[of h]
      by (simp add: admin_stripDetectorKeys_def admin_hookSection_def ex(1) h del: get_prop.simps json_wf.simps)
  next
    case False
    then show ?thesis
      by (intro exI[of _ "[]"]) (simp add: admin_stripDetectorKeys_def admin_hookSection_def ex(1) plain_object_def[of JNull] del: get_prop.simps)
  qed
qed

lemma writeHook_reads:
  assumes "writeHookConfig msg cwd (JObj hc) local fs = (Inr t, fs')" "json_wf (JObj hc)"
  obtains ex st where "existing_object (local_excludes cwd local fs) (config_path cwd local) = JObj ex"
    "hook_readJson fs' (config_path cwd local) = set_prop (JObj ex) ''hook'' (spread (JObj st) (JObj hc))"
    "\<And>k. k \<in> set DETECTOR_CONFIG_KEYS \<Longrightarrow> map_of st k = None"
    "\<And>q. q \<noteq> config_path cwd local \<Longrightarrow> hook_readJson fs' q = hook_readJson (local_excludes cwd local fs) q"
proof -
  let ?fs = "local_excludes cwd local fs" and ?p = "config_path cwd local"
  obtain ex where ex: "existing_object ?fs ?p = JObj ex" "json_wf (JObj ex)" using existing_object_wf[of ?fs ?p] by metis
  obtain st where st: "admin_stripDetectorKeys (admin_hookSection (existing_object ?fs ?p)) = JObj st" "json_wf (JObj st)"
    "\<forall>k \<in> set DETECTOR_CONFIG_KEYS. map_of st k = None" using strip_wf by blast
  let ?new = "set_prop (JObj ex) ''hook'' (spread (JObj st) (JObj hc))"
  have "json_wf ?new" by (intro wf_set_prop wf_spread ex st assms(2))
  moreover have "write_config msg ?p ?new ?fs = (Inr t, fs')"
    using assms(1) st(1) by (simp add: writeHookConfig_def Let_def ex(1))
  ultimately have r: "hook_readJson fs' q = (if q = ?p then ?new else hook_readJson ?fs q)" for q
    by (intro write_config_reads)
  show ?thesis
  proof (rule that[OF ex(1)])
    show "map_of st k = None" if "k \<in> set DETECTOR_CONFIG_KEYS" for k using st(3) that by blast
  qed (use r in simp_all)
qed

lemma merged_hook_config:
  obtains hc where "set_prop (mergeHookConfig (readRawHookConfig fs cwd)) ''enabled'' (JBool b) = JObj hc" "json_wf (JObj hc)"
    "map_of hc ''enabled'' = Some (JBool b)" "\<And>k. k \<notin> {''enabled'', ''limits''} \<Longrightarrow> map_of hc k = None"
    "distinct (map fst hc)"
proof -
  let ?base = "readRawHookConfig fs cwd"
  let ?b = "if truthy ?base \<and> typeof_object ?base then ?base else JObj []"
  let ?l = "\<lambda>k d. if is_finite_number (get_prop (get_prop ?b ''limits'') k) then get_prop (get_prop ?b ''limits'') k else d"
  have fin: "json_wf v" if "is_finite_number v" "v = JUndef \<or> json_wf v" for v using that by auto
  have "json_wf ?base"
  proof -
    have "json_wf (hook_readJson fs (getConfigPath cwd))" by (rule read_wf)
    then show ?thesis using wf_get[of "hook_readJson fs (getConfigPath cwd)" "''hook''"]
      by (auto simp: readRawHookConfig_def rf_raw_read admin_hookSection_def plain_object_def)
  qed
  then have "json_wf ?b" by simp
  then have "get_prop ?b ''limits'' = JUndef \<or> json_wf (get_prop ?b ''limits'')" by (rule wf_get)
  then have l: "json_wf (?l k d)" if "json_wf d" for k d
  proof (cases "is_finite_number (get_prop (get_prop ?b ''limits'') k)")
    case True
    have "get_prop (get_prop ?b ''limits'') k = JUndef \<or> json_wf (get_prop (get_prop ?b ''limits'') k)"
      using \<open>get_prop ?b ''limits'' = JUndef \<or> json_wf (get_prop ?b ''limits'')\<close> wf_get by fastforce
    then show ?thesis using True fin by (simp only: if_True)
  next
    case False
    then show ?thesis using that by (simp only: if_False)
  qed
  define hc where "hc = [(''enabled'', JBool b), (''limits'', JObj [(''maxFindings'', ?l ''maxFindings'' (JInt 5)),
      (''maxChars'', ?l ''maxChars'' (JInt 8000))])]"
  have "set_prop (mergeHookConfig ?base) ''enabled'' (JBool b) = JObj hc"
    by (simp add: hc_def mergeHookConfig_def set_prop_def Let_def cloneDefaultConfig_def)
  moreover have "json_wf (JObj hc)" using l[of "JInt 5"] l[of "JInt 8000"] by (simp add: hc_def)
  ultimately show ?thesis by (rule that) (simp_all add: hc_def)
qed

lemma spread_get:
  assumes "distinct (map fst hc)"
  shows "get_prop (spread (JObj st) (JObj hc)) k =
    (case map_of hc k of Some v \<Rightarrow> v | None \<Rightarrow> get_prop (JObj st) k)"
  proof -
  have "map_of (rev hc) = map_of hc" using assms by (subst map_of_inject_set) (simp_all add: rev_map[symmetric])
  then show ?thesis by (simp add: prop_spread)
qed

lemma spread_obj: "\<exists>kvs. spread a b = JObj kvs"
  by (simp add: spread_def)

lemma get_has_own: "get_prop v k \<noteq> JUndef \<Longrightarrow> \<exists>kvs. v = JObj kvs \<Longrightarrow> has_own v k"
  by (auto simp: has_own_def split: option.splits)

lemma setEnabled_off:
  assumes "setEnabled msg cwd False fs = (Inr out, fs1)"
  obtains ex st hc where "hook_readJson fs1 (getConfigPath cwd) = set_prop (JObj ex) ''hook'' (spread (JObj st) (JObj hc))"
    "existing_object fs (getConfigPath cwd) = JObj ex" "map_of hc ''enabled'' = Some (JBool False)"
    "\<And>k. k \<notin> {''enabled'', ''limits''} \<Longrightarrow> map_of hc k = None" "distinct (map fst hc)"
    "\<And>k. k \<in> set DETECTOR_CONFIG_KEYS \<Longrightarrow> map_of st k = None"
    "\<And>q. q \<noteq> getConfigPath cwd \<Longrightarrow> hook_readJson fs1 q = hook_readJson fs q"
proof -
  obtain hc where hc: "set_prop (mergeHookConfig (readRawHookConfig fs cwd)) ''enabled'' (JBool False) = JObj hc"
    "json_wf (JObj hc)" "map_of hc ''enabled'' = Some (JBool False)"
    "\<And>k. k \<notin> {''enabled'', ''limits''} \<Longrightarrow> map_of hc k = None" "distinct (map fst hc)"
    by (rule merged_hook_config[of fs cwd False]) blast
  obtain t where w: "writeHookConfig msg cwd (JObj hc) False fs = (Inr t, fs1)"
    using assms hc(1) by (auto simp: setEnabled_def split: prod.splits sum.splits)
  obtain ex st where e: "existing_object (local_excludes cwd False fs) (config_path cwd False) = JObj ex"
    "hook_readJson fs1 (config_path cwd False) = set_prop (JObj ex) ''hook'' (spread (JObj st) (JObj hc))"
    "\<And>k. k \<in> set DETECTOR_CONFIG_KEYS \<Longrightarrow> map_of st k = None"
    "\<And>q. q \<noteq> config_path cwd False \<Longrightarrow> hook_readJson fs1 q = hook_readJson (local_excludes cwd False fs) q"
    using w hc(2) by (rule writeHook_reads) blast
  show ?thesis
    by (rule that[of ex st hc]) (use e hc in \<open>simp_all add: config_path_def local_excludes_def\<close>)
qed

lemma enabled_after_source:
  "hc_enabled (applyConfigSource raw c) =
     (if truthy raw \<and> typeof_object raw \<and> has_own raw ''enabled'' then get_prop raw ''enabled'' \<noteq> JBool False else hc_enabled c)"
  "hc_enabled (applyDetectorConfigSource raw c) = hc_enabled c"
  by (simp_all add: applyConfigSource_def applyDetectorConfigSource_def Let_def)

lemma hookSection_set: "hookSection (set_prop (JObj ex) ''hook'' (spread a b)) = spread a b"
  using spread_obj[of a b] by (auto simp: hookSection_def) (simp_all add: set_prop_def)


text \<open>C38: Switching the hook off (or on) loses the filters of an old configuration, which keeps them in the
  \<open>hook\<close> section: the rewritten section has no detector key any more, and the \<open>detector\<close> section is
  left as it was instead of taking them over, as every \<open>ignore-\<close> action has it do.\<close>

theorem off_drops_old_filters:
  assumes "setEnabled msg cwd False fs = (Inr out, fs1)" "k \<in> set DETECTOR_CONFIG_KEYS"
  shows "get_prop (hookSection (hook_readJson fs1 (getConfigPath cwd))) k = JUndef \<and>
    get_prop (hook_readJson fs1 (getConfigPath cwd)) ''detector'' = get_prop (existing_object fs (getConfigPath cwd)) ''detector''"
proof -
  obtain ex st hc where e: "hook_readJson fs1 (getConfigPath cwd) = set_prop (JObj ex) ''hook'' (spread (JObj st) (JObj hc))"
    "existing_object fs (getConfigPath cwd) = JObj ex" "\<And>k. k \<notin> {''enabled'', ''limits''} \<Longrightarrow> map_of hc k = None"
    "distinct (map fst hc)" "\<And>k. k \<in> set DETECTOR_CONFIG_KEYS \<Longrightarrow> map_of st k = None"
    using assms(1) by (rule setEnabled_off) blast
  have "k \<notin> {''enabled'', ''limits''}" using assms(2) by (auto simp: DETECTOR_CONFIG_KEYS_def)
  then have "get_prop (spread (JObj st) (JObj hc)) k = JUndef"
    using e(3,4) e(5)[OF assms(2)] by (simp add: spread_get)
  then show ?thesis unfolding e(1,2) hookSection_set by simp
qed

section \<open>Ignored rules\<close>

text \<open>The strings a section lists under a key.\<close>

definition listed_in :: "string \<Rightarrow> jsval \<Rightarrow> string set" where
  "listed_in k sec = to_str ` set (arr_of (get_prop sec k))"

lemma arr_not_array: "\<not> is_array v \<Longrightarrow> arr_of v = []"
  by (cases v) (simp_all add: arr_of_def)

lemma arr_not_object: "\<not> typeof_object v \<Longrightarrow> k \<noteq> ''length'' \<Longrightarrow> arr_of (get_prop v k) = []"
  by (cases v) (simp_all add: arr_of_def)

lemma falsy_get: "\<not> truthy v \<Longrightarrow> k \<noteq> ''length'' \<Longrightarrow> arr_of (get_prop v k) = []"
  by (cases v) (simp_all add: arr_of_def)

lemma source_lists:
  "set (dc_ignoreRules (applyDetectionConfigSource raw c)) = set (dc_ignoreRules c) \<union> listed_in ''ignoreRules'' raw"
  "set (dc_ignoreFiles (applyDetectionConfigSource raw c)) = set (dc_ignoreFiles c) \<union> listed_in ''ignoreFiles'' raw"
  by (auto simp: applyDetectionConfigSource_def Let_def listed_in_def set_uniqueStrings arr_not_array arr_not_object
      falsy_get image_image image_Un)

lemma file_lists:
  "set (dc_ignoreRules (hc_detection (apply_config_file raw c))) =
     set (dc_ignoreRules (hc_detection c)) \<union> listed_in ''ignoreRules'' (hookSection raw) \<union> listed_in ''ignoreRules'' (detectorSection raw)"
  "set (dc_ignoreFiles (hc_detection (apply_config_file raw c))) =
     set (dc_ignoreFiles (hc_detection c)) \<union> listed_in ''ignoreFiles'' (hookSection raw) \<union> listed_in ''ignoreFiles'' (detectorSection raw)"
  by (auto simp: apply_config_file_def applyDetectorConfigSource_def applyConfigSource_def Let_def source_lists
      listed_in_def arr_not_object falsy_get)

lemma admin_sections: "admin_hookSection u = hookSection u" "admin_detectorSection u = detectorSection u"
proof -
  have n: "\<not> plain_object u \<Longrightarrow> \<not> plain_object (get_prop u k)" for k
    by (cases u) (auto simp: plain_object_def)
  show "admin_hookSection u = hookSection u" "admin_detectorSection u = detectorSection u"
    using n by (auto simp: admin_hookSection_def hookSection_def admin_detectorSection_def detectorSection_def plain_object_def)
qed

lemma merged_lists:
  "set (do_rules (mergeDetectorConfig v seed)) = set (do_rules (seed_out seed)) \<union> listed_in ''ignoreRules'' v"
  "set (do_files (mergeDetectorConfig v seed)) = set (do_files (seed_out seed)) \<union> listed_in ''ignoreFiles'' v"
  by (auto simp: mergeDetectorConfig_def Let_def listed_in_def arr_not_array arr_not_object falsy_get)

lemma seed_lists [simp]:
  "do_rules (seed_out None) = []" "do_files (seed_out None) = []"
  "do_rules (seed_out (Some s)) = do_rules s" "do_files (seed_out (Some s)) = do_files s"
  by (simp_all add: seed_out_def empty_out_def)

lemma json_lists [simp]:
  "listed_in ''ignoreRules'' (detector_json c) = set (do_rules c)"
  "listed_in ''ignoreFiles'' (detector_json c) = set (do_files c)"
  by (simp_all add: detector_json_def listed_in_def arr_of_def image_image)

text \<open>What is written is JSON.\<close>

lemma normalized_wf: "list_all json_wf (normalizeIgnoreValueEntries v)"
proof -
  have "json_wf w" if "normalize_entry e = Some w" for e w
  proof -
    note n = that
    obtain a b F R C where w: "w = JObj ([(''rule'', JStr a), (''value'', JStr b)] @ F @ R @ C)"
      "F = [] \<or> (\<exists>fs. F = [(''files'', JArr (map JStr fs))])" "R = [] \<or> (\<exists>r. R = [(''reason'', JStr r)])"
      "C = [] \<or> (\<exists>c. C = [(''createdAt'', JStr c)])"
    proof atomize_elim
      have g: "(if a then None else if b then None else Some x) = Some w \<Longrightarrow> w = x" for a b and x w :: jsval
        by (auto split: if_splits)
      show "\<exists>a b F R C. w = JObj ([(''rule'', JStr a), (''value'', JStr b)] @ F @ R @ C) \<and>
          (F = [] \<or> (\<exists>fs. F = [(''files'', JArr (map JStr fs))])) \<and> (R = [] \<or> (\<exists>r. R = [(''reason'', JStr r)])) \<and>
          (C = [] \<or> (\<exists>c. C = [(''createdAt'', JStr c)]))"
        by (rule exI, rule exI, rule exI, rule exI, rule exI, rule conjI, rule g[OF n[unfolded normalize_entry_def Let_def]])
          (simp, blast)
    qed
    show ?thesis unfolding w(1) using w(2-4) by (elim disjE exE) (simp_all add: list_all_iff)
  qed
  then show ?thesis by (auto simp: list_all_iff normalizeIgnoreValueEntries_def set_map_filter)
qed

lemma fold_key_values: "snd ` set (fold (\<lambda>e m. fields_set (k e) e m) es m) \<subseteq> snd ` set m \<union> set es"
proof (induction es arbitrary: m)
  case (Cons e es)
  have "snd ` set (fold (\<lambda>e m. fields_set (k e) e m) es (fields_set (k e) e m)) \<subseteq>
      snd ` set (fields_set (k e) e m) \<union> set es" by (rule Cons.IH)
  then show ?case using fields_set_values[of "k e" e m] by (simp add: subset_iff) blast
qed simp

lemma merge_entries_wf: "list_all json_wf (mergeIgnoreValueEntries xs v)"
proof -
  let ?es = "normalizeIgnoreValueEntries (JArr xs) @ normalizeIgnoreValueEntries v"
  have "list_all json_wf ?es" by (simp add: normalized_wf)
  moreover have "set (mergeIgnoreValueEntries xs v) \<subseteq> set ?es"
    using fold_key_values[of ignoreValueEntryKey ?es "[]"] by (simp add: mergeIgnoreValueEntries_def)
  ultimately show ?thesis unfolding list_all_iff by blast
qed

definition out_wf :: "detector_out \<Rightarrow> bool" where
  "out_wf c \<longleftrightarrow> list_all json_wf (do_values c) \<and> (\<forall>v. do_design c = Some v \<longrightarrow> (\<exists>kvs. v = JObj kvs) \<and> json_wf v)"

lemma detector_json_wf: "out_wf c \<Longrightarrow> json_wf (detector_json c)"
  by (auto simp: out_wf_def detector_json_def list_all_iff split: option.splits)

lemma seed_wf: "(\<And>s. seed = Some s \<Longrightarrow> out_wf s) \<Longrightarrow> out_wf (seed_out seed)"
  using normalized_wf by (auto simp: seed_out_def out_wf_def empty_out_def split: option.splits)

lemma merged_wf:
  assumes "\<And>s. seed = Some s \<Longrightarrow> out_wf s"
  shows "out_wf (mergeDetectorConfig v seed)"
proof -
  have s: "out_wf (seed_out seed)" by (rule seed_wf) (rule assms)
  have d: "(\<exists>kvs. w = JObj kvs) \<and> json_wf w"
    if "w = set_prop (case do_design (seed_out seed) of Some v \<Rightarrow> v | None \<Rightarrow> JObj []) ''enabled'' (JBool b)" for w b
  proof -
    obtain kvs where "(case do_design (seed_out seed) of Some v \<Rightarrow> v | None \<Rightarrow> JObj []) = JObj kvs" "json_wf (JObj kvs)"
      using s by (cases "do_design (seed_out seed)") (auto simp: out_wf_def)
    then show ?thesis using wf_set_prop[of kvs "JBool b" "''enabled''"] that by (simp add: set_prop_def)
  qed
  show ?thesis
    using s d merge_entries_wf unfolding mergeDetectorConfig_def Let_def out_wf_def by auto
qed

lemma writeDetector_reads:
  assumes "writeDetectorConfig msg cwd c False fs = (Inr t, fs')"
  shows "listed_in ''ignoreRules'' (hookSection (hook_readJson fs' (getConfigPath cwd))) = {}"
    "listed_in ''ignoreFiles'' (hookSection (hook_readJson fs' (getConfigPath cwd))) = {}"
    "listed_in ''ignoreRules'' (detectorSection (hook_readJson fs' (getConfigPath cwd))) =
       listed_in ''ignoreRules'' (detectorSection (hook_readJson fs (getConfigPath cwd))) \<union> set (do_rules c)"
    "listed_in ''ignoreFiles'' (detectorSection (hook_readJson fs' (getConfigPath cwd))) =
       listed_in ''ignoreFiles'' (detectorSection (hook_readJson fs (getConfigPath cwd))) \<union> set (do_files c)"
    "q \<noteq> getConfigPath cwd \<Longrightarrow> hook_readJson fs' q = hook_readJson fs q"
proof -
  let ?p = "getConfigPath cwd"
  obtain ex where ex: "existing_object fs ?p = JObj ex" "json_wf (JObj ex)" using existing_object_wf[of fs ?p] by metis
  obtain st where st: "admin_stripDetectorKeys (admin_hookSection (JObj ex)) = JObj st" "json_wf (JObj st)"
    "\<forall>k \<in> set DETECTOR_CONFIG_KEYS. map_of st k = None" using strip_wf[of fs ?p] unfolding ex by blast
  let ?E = "mergeDetectorConfig (admin_detectorSection (JObj ex)) None"
  let ?M = "mergeDetectorConfig (detector_json c) (Some ?E)"
  define new where "new = next_detector (JObj ex) c"
  have new: "new = (if st \<noteq> [] then set_prop (set_prop (JObj ex) ''detector'' (detector_json ?M)) ''hook'' (JObj st)
      else delete_prop (set_prop (JObj ex) ''detector'' (detector_json ?M)) ''hook'')"
    by (simp add: new_def next_detector_def st(1) Let_def)
  have "json_wf (detector_json ?M)" by (intro detector_json_wf merged_wf) (auto intro: merged_wf)
  then have s1: "json_wf (set_prop (JObj ex) ''detector'' (detector_json ?M))" by (intro wf_set_prop ex)
  obtain e1 where e1: "set_prop (JObj ex) ''detector'' (detector_json ?M) = JObj e1" by (simp add: set_prop_def)
  have w: "json_wf new" using s1 st(2) wf_set_prop wf_delete_prop unfolding new e1 by auto
  have "write_config msg ?p new fs = (Inr t, fs')"
    using assms by (simp add: writeDetectorConfig_def Let_def config_path_def local_excludes_def ex(1) new_def)
  note r = write_config_reads[OF this w]
  show "q \<noteq> ?p \<Longrightarrow> hook_readJson fs' q = hook_readJson fs q" using r by simp
  have hook: "hookSection new = (if st = [] then JNull else JObj st)"
    unfolding new using st(1) by (simp add: hookSection_def plain_object_def[of JUndef]) (simp add: set_prop_def)
  have "\<exists>kvs. detector_json ?M = JObj kvs" by (simp add: detector_json_def)
  then have det: "detectorSection new = detector_json ?M"
    unfolding new by (auto simp: detectorSection_def e1[symmetric]) (simp_all add: set_prop_def delete_prop_def)
  have none: "arr_of (get_prop (hookSection new) k) = []" if "k \<in> set DETECTOR_CONFIG_KEYS" for k
    using st(3) that unfolding hook by (auto simp: arr_of_def)
  show "listed_in ''ignoreRules'' (hookSection (hook_readJson fs' ?p)) = {}"
    "listed_in ''ignoreFiles'' (hookSection (hook_readJson fs' ?p)) = {}"
    unfolding listed_in_def by (simp_all add: r none DETECTOR_CONFIG_KEYS_def)
  have old: "detectorSection (JObj ex) = detectorSection (hook_readJson fs ?p)"
  proof (cases "plain_object (hook_readJson fs ?p)")
    case True
    then show ?thesis using ex(1) by (simp add: existing_object_def rf_raw_read Let_def)
  next
    case False
    then have "get_prop (hook_readJson fs ?p) ''detector'' = JUndef" by (rule not_plain_get) simp
    then show ?thesis using ex(1) False by (auto simp: existing_object_def rf_raw_read Let_def section_none)
  qed
  show "listed_in ''ignoreRules'' (detectorSection (hook_readJson fs' ?p)) =
       listed_in ''ignoreRules'' (detectorSection (hook_readJson fs ?p)) \<union> set (do_rules c)"
    "listed_in ''ignoreFiles'' (detectorSection (hook_readJson fs' ?p)) =
       listed_in ''ignoreFiles'' (detectorSection (hook_readJson fs ?p)) \<union> set (do_files c)"
    by (simp_all add: r det merged_lists admin_sections old)
qed

lemma current_lists:
  "set (do_rules (current_config fs cwd False)) =
     listed_in ''ignoreRules'' (hookSection (hook_readJson fs (getConfigPath cwd))) \<union>
     listed_in ''ignoreRules'' (detectorSection (hook_readJson fs (getConfigPath cwd)))"
  "set (do_files (current_config fs cwd False)) =
     listed_in ''ignoreFiles'' (hookSection (hook_readJson fs (getConfigPath cwd))) \<union>
     listed_in ''ignoreFiles'' (detectorSection (hook_readJson fs (getConfigPath cwd)))"
  by (simp_all add: current_config_def readRawDetectorConfig_def Let_def merged_lists rf_raw_read config_path_def admin_sections)

lemma config_lists:
  "set (dc_ignoreRules (hc_detection (readConfig fs cwd))) =
     listed_in ''ignoreRules'' (hookSection (hook_readJson fs (getConfigPath cwd))) \<union>
     listed_in ''ignoreRules'' (detectorSection (hook_readJson fs (getConfigPath cwd))) \<union>
     listed_in ''ignoreRules'' (hookSection (hook_readJson fs (getLocalConfigPath cwd))) \<union>
     listed_in ''ignoreRules'' (detectorSection (hook_readJson fs (getLocalConfigPath cwd)))"
  "set (dc_ignoreFiles (hc_detection (readConfig fs cwd))) =
     listed_in ''ignoreFiles'' (hookSection (hook_readJson fs (getConfigPath cwd))) \<union>
     listed_in ''ignoreFiles'' (detectorSection (hook_readJson fs (getConfigPath cwd))) \<union>
     listed_in ''ignoreFiles'' (hookSection (hook_readJson fs (getLocalConfigPath cwd))) \<union>
     listed_in ''ignoreFiles'' (detectorSection (hook_readJson fs (getLocalConfigPath cwd)))"
  by (simp_all add: readConfig_def file_lists cloneDefaultConfig_def cloneDetectionConfig_def)

lemma writing_lists:
  assumes "writeDetectorConfig msg cwd c False fs = (Inr t, fs')"
    and "set (do_rules (current_config fs cwd False)) \<subseteq> set (do_rules c)"
    and "set (do_files (current_config fs cwd False)) \<subseteq> set (do_files c)"
  shows "set (dc_ignoreRules (hc_detection (readConfig fs' cwd))) = set (dc_ignoreRules (hc_detection (readConfig fs cwd))) \<union> set (do_rules c)"
    "set (dc_ignoreFiles (hc_detection (readConfig fs' cwd))) = set (dc_ignoreFiles (hc_detection (readConfig fs cwd))) \<union> set (do_files c)"
proof -
  have l: "hook_readJson fs' (getLocalConfigPath cwd) = hook_readJson fs (getLocalConfigPath cwd)"
    using writeDetector_reads(5)[OF assms(1)] paths_differ(1)[of cwd] by metis
  show "set (dc_ignoreRules (hc_detection (readConfig fs' cwd))) = set (dc_ignoreRules (hc_detection (readConfig fs cwd))) \<union> set (do_rules c)"
    "set (dc_ignoreFiles (hc_detection (readConfig fs' cwd))) = set (dc_ignoreFiles (hc_detection (readConfig fs cwd))) \<union> set (do_files c)"
    using assms(2,3) unfolding config_lists l writeDetector_reads(1-4)[OF assms(1)] current_lists by auto
qed

lemma lower_space: "is_space (to_lower_char c) = is_space c" "to_lower_char (to_lower_char c) = to_lower_char c"
  by (auto simp: to_lower_char_def is_space_def is_upper_def code_def of_char_of)

lemma trim_lower: "trim (to_lower s) = to_lower (trim s)"
  by (simp add: trim_def trim_start_def trim_end_def to_lower_def dropWhile_map comp_def lower_space rev_map[symmetric])
    (simp add: rev_map dropWhile_map comp_def lower_space)

lemma trim_trim: "trim (trim s) = trim s"
proof (cases "trim s")
  case (Cons c cs)
  have e: "dropWhile P (rev (dropWhile P (rev xs))) = rev (dropWhile P (rev xs))"
    if "xs = [] \<or> \<not> P (hd xs)" for P and xs :: string
  proof (cases xs)
    case (Cons x ys)
    then have "\<not> P x" using that by simp
    then have "rev (dropWhile P (rev xs)) = x # rev (dropWhile P (rev ys))"
      unfolding Cons by (simp add: dropWhile_append)
    then show ?thesis using \<open>\<not> P x\<close> by simp
  qed simp
  let ?d = "dropWhile is_space s"
  have "?d = [] \<or> \<not> is_space (hd ?d)" by (metis hd_dropWhile)
  then have "dropWhile is_space (rev (dropWhile is_space (rev ?d))) = rev (dropWhile is_space (rev ?d))" by (rule e)
  then show ?thesis by (simp add: trim_def trim_start_def trim_end_def dropWhile_idem)
qed simp

lemma normalize_rule_id: "normalizeIgnoreRule (JStr (normalizeRuleId s)) = normalizeRuleId s"
proof -
  have "to_lower (to_lower t) = to_lower t" for t by (simp add: to_lower_def comp_def lower_space)
  then show ?thesis by (auto simp: normalizeIgnoreRule_def str_or_empty_def js_or_def normalizeRuleId_def trim_lower trim_trim)
    (simp add: to_lower_def)
qed

text \<open>C10: \<open>ignore-rule\<close> does what it says and no more: after it succeeds the rules the hook ignores are
  those it ignored before and the given one, the ignored files are the same, and no finding of that
  rule is ever reported again (filters kept in an old \<open>hook\<close> section are carried along).\<close>

theorem ignored_rule_stays_ignored:
  assumes "addIgnoreRule msg cwd args fs = (Inr out, fs1)" "parseIgnoreRuleArgs args = Inr (rule, allValues)"
  shows "set (dc_ignoreRules (hc_detection (readConfig fs1 cwd))) =
      insert rule (set (dc_ignoreRules (hc_detection (readConfig fs cwd)))) \<and>
    set (dc_ignoreFiles (hc_detection (readConfig fs1 cwd))) = set (dc_ignoreFiles (hc_detection (readConfig fs cwd))) \<and>
    (\<forall>x \<in> set (filterDetectionFindings found (hc_detection (readConfig fs1 cwd))). finding_rule x \<noteq> rule)"
proof -
  let ?c = "current_config fs cwd False"
  let ?c' = "?c\<lparr>do_rules := add_once rule (do_rules ?c)\<rparr>"
  obtain t where w: "writeDetectorConfig msg cwd ?c' False fs = (Inr t, fs1)"
    using assms by (auto simp: addIgnoreRule_def Let_def split: if_splits sum.splits prod.splits)
  have a: "set (add_once rule xs) = insert rule (set xs)" for xs by (auto simp: add_once_def)
  have "set (do_rules ?c) \<subseteq> set (dc_ignoreRules (hc_detection (readConfig fs cwd)))"
    "set (do_files ?c) \<subseteq> set (dc_ignoreFiles (hc_detection (readConfig fs cwd)))"
    unfolding current_lists config_lists by auto
  moreover note writing_lists[OF w]
  ultimately have r: "set (dc_ignoreRules (hc_detection (readConfig fs1 cwd))) =
      insert rule (set (dc_ignoreRules (hc_detection (readConfig fs cwd))))"
    "set (dc_ignoreFiles (hc_detection (readConfig fs1 cwd))) = set (dc_ignoreFiles (hc_detection (readConfig fs cwd)))"
    using a by auto
  obtain s where "rule = normalizeRuleId s"
    using assms(2) by (auto simp: parseIgnoreRuleArgs_def split: sum.splits prod.splits)
  then have "normalizeIgnoreRule (JStr rule) = rule" by (simp add: normalize_rule_id)
  then have "rule \<in> (\<lambda>r. normalizeIgnoreRule (JStr r)) ` set (dc_ignoreRules (hc_detection (readConfig fs1 cwd)))"
    unfolding r(1) by force
  then show ?thesis using r by (auto simp: filterDetectionFindings_def Let_def finding_kept_def)
qed

section \<open>Concrete runs\<close>

text \<open>A project whose configuration is from before the split in two sections.\<close>

definition old_config :: jsval where
  "old_config = JObj [(''hook'', JObj [(''enabled'', JBool True), (''ignoreRules'', JArr [JStr ''side-tab''])])]"

definition old_project :: fs where
  "old_project = write_json 2 (getConfigPath ''/p'') old_config Map.empty"

lemma old_project_read:
  "hook_readJson old_project p = (if p = getConfigPath ''/p'' then old_config else JNull)"
proof -
  have "json_wf old_config" by (simp add: old_config_def)
  moreover have "hook_readJson Map.empty p = JNull" by (simp add: hook_readJson_def readFileSync_def)
  ultimately show ?thesis unfolding old_project_def by (simp only: read_written)
qed

lemma old_project_off: "\<exists>out fs1. setEnabled m ''/p'' False old_project = (Inr out, fs1)"
proof -
  have "old_project (getConfigPath ''/p'') \<noteq> Some Dir"
    by (simp add: old_project_def write_json_def writeFileSync_def)
  then show ?thesis
    by (simp add: setEnabled_def writeHookConfig_def write_config_def Let_def config_path_def local_excludes_def)
qed

lemma old_project_local: "\<not> has_own (hookSection (hook_readJson old_project (getLocalConfigPath ''/p''))) ''enabled''"
  using paths_differ(1)[of "''/p''"] by (simp add: old_project_read hookSection_def has_own_def)


theorem off_drops_old_filters_witness:
  "\<exists>out fs1. setEnabled ''EISDIR'' ''/p'' False old_project = (Inr out, fs1) \<and>
     get_prop (hookSection (hook_readJson old_project (getConfigPath ''/p''))) ''ignoreRules'' = JArr [JStr ''side-tab''] \<and>
     get_prop (hookSection (hook_readJson fs1 (getConfigPath ''/p''))) ''ignoreRules'' = JUndef"
proof -
  have "''ignoreRules'' \<in> set DETECTOR_CONFIG_KEYS" by (simp add: DETECTOR_CONFIG_KEYS_def)
  moreover have "get_prop (hookSection (hook_readJson old_project (getConfigPath ''/p''))) ''ignoreRules'' = JArr [JStr ''side-tab'']"
    by (simp add: old_project_read hookSection_def old_config_def plain_object_def)
  ultimately show ?thesis
    using old_project_off[of "''EISDIR''"] off_drops_old_filters[of "''EISDIR''" "''/p''" old_project] by metis
qed

theorem ignored_rule_stays_ignored_witness:
  "\<exists>out fs1. addIgnoreRule ''EISDIR'' ''/p'' [''Gradient-Text''] old_project = (Inr out, fs1) \<and>
     set (dc_ignoreRules (hc_detection (readConfig fs1 ''/p''))) =
       insert ''gradient-text'' (set (dc_ignoreRules (hc_detection (readConfig old_project ''/p''))))"
proof -
  have a: "parseIgnoreRuleArgs [''Gradient-Text''] = Inr (''gradient-text'', False)" by code_simp
  have "old_project (getConfigPath ''/p'') \<noteq> Some Dir"
    by (simp add: old_project_def write_json_def writeFileSync_def)
  then have "\<exists>out fs1. addIgnoreRule ''EISDIR'' ''/p'' [''Gradient-Text''] old_project = (Inr out, fs1)"
    by (simp add: addIgnoreRule_def a writeDetectorConfig_def write_config_def Let_def config_path_def local_excludes_def)
  then show ?thesis using ignored_rule_stays_ignored[OF _ a] by blast
qed

end

