(* ===== verification/Spec2Isabelle.thy ===== *)
theory Spec2Isabelle
  imports LiveServer HookAdmin
begin

text \<open>
  A model of the scripts of the design skill \<open>.agents/skills/impeccable/scripts\<close>, the JavaScript part
  of the repository that carries state and decisions of its own. (The web client under \<open>frontend\<close> and
  the scanning rules of the detector are listed at the end.) Two systems are modelled.

  The live server. A browser page under design posts events (\<open>POST /events\<close>), a coding agent takes
  them with long polls and answers with replies (\<open>GET\<close> and \<open>POST /poll\<close>). Every event of a session is
  journalled before it is acknowledged, so that a restarted server can rebuild each session and queue
  what is still to be done.

  The design hook. A coding agent calls a hook after it has edited files (\<open>hook.mjs\<close>) or before it
  writes one (\<open>hook-before-edit.mjs\<close>). The hook runs the detector on the files and answers with a
  message or refuses the write; it keeps a cache of what the agent was told. A command
  (\<open>hook-admin.mjs\<close>) edits the configuration and installs the hook in the agents' manifests.

  The theories, lower ones first, with the code they model:

  \<^item> Prelude: strings, lists, regular decompositions, the collections of facts. JsValue: JavaScript
    values and operators. JsRegex: the backtracking matcher. JsFloat: finite double arithmetic. JsJson:
    \<open>JSON.parse\<close> and \<open>JSON.stringify\<close> with their round trip. Paths and Files: \<open>node:path\<close> and \<open>node:fs\<close>.
  \<^item> SessionStore (\<open>live/session-store.mjs\<close>): the record \<open>store\<close> has the two journal directories and
    the cached snapshots; \<open>applyEvent\<close> is the reducer, one definition per event kind,
    \<open>rebuildSnapshotFromJournal\<close> the replay, \<open>appendEvent\<close>, \<open>getSnapshot\<close>, \<open>listActiveSessions\<close> the
    operations. An abstract store (journals only) is refined by it.
  \<^item> EventValidation (\<open>live/event-validation.mjs\<close>, \<open>live/vocabulary.mjs\<close>): the checks of browser events.
  \<^item> EventQueue (\<open>live-server.mjs\<close>): the record \<open>srv\<close> is the module state, with pending events, leases,
    parked polls and the lease timer; the handlers of the queue are its steps, what they send is its
    outbox.
  \<^item> LiveServer (\<open>live-server.mjs\<close>, \<open>live/completion.mjs\<close>): the two POST handlers over the queue and
    the store.
  \<^item> IgnoreColor, Globs, IgnoreConfig (\<open>lib/impeccable-config.mjs\<close>): waivers for detector findings, by
    rule, file pattern and value, their files, and the filter. \<open>hook-lib.mjs\<close> repeats these functions.
  \<^item> HookConfig, HookCache, HookRender, HookEvents (\<open>hook-lib.mjs\<close>): settings, memory, messages, and
    the events of the three kinds of agents. DesignHook (\<open>hook-lib.mjs\<close>, \<open>hook.mjs\<close>): a run.
    HookPromises: what a run promises.
  \<^item> WriteGate (\<open>hook-before-edit.mjs\<close>): the gate before a write: which file and which text a tool call
    or a shell command is going to write, and whether it is refused.
  \<^item> HookManifests, HookAdmin (\<open>hook-admin.mjs\<close>): the manifests of the agents and the command's actions.

  What the groups of lemmas show. Session store: the cache always is what replaying the journal gives,
  appends are durable and touch one journal, finished sessions stay finished. Queue: no two queued
  events agree in id and type, an event stays until it is acknowledged, expired leases wake parked
  polls. Handlers: an accepted event is on disk before it is acknowledged and survives a restart, a
  reply settles its session, and which request bodies crash the server. Waivers: a compiled glob
  accepts exactly the language of the glob, more configuration never waives less, what is written is
  read back. Hook: it always ends normally with nothing or one valid answer, reports exactly the
  findings that are new and not waived, each once, within the limit; it writes two files at most. Gate:
  the text it checks is the text the edit will produce, it refuses for findings only, and it gives up
  refusing after six times. Command: \<open>off\<close>, \<open>reset\<close> and \<open>ignore-rule\<close> have their effect on the next run
  of the hook, a merge keeps the entries of others, a repair is stable.

  Interfaces. The locale of the session store is what the handlers use of it, that of the queue what
  start-up, event and reply handler rely on, \<open>finding_memory\<close> what the hook relies on in its cache;
  each is interpreted on the definitions of the model, and the properties rest on those facts.

  Bounds and fuel. The matcher takes the number of characters ahead as the fuel of a repetition and of
  the successive matches: an iteration that consumes nothing is rejected, so no more can succeed. The
  JSON reader has fuel twice the length of the text: every second call passes a character. All other
  loops are structural or have a measure. Numbers are integers, decimal fractions, infinities and NaN;
  arithmetic that rounds (colours) is in JsFloat. A character is one of the first 256 code units; the
  two typographic characters of the hook's messages have a place among them (theory HookRender). Time
  is an argument and stands still during one operation. Files are a map from absolute paths; making
  the directory of a file never fails.

  Not modelled. \<^emph>\<open>In the two systems\<close>: the routes of the live server for static files, annotations,
  server-sent events and stopping, and the application of manual edits (\<open>live/manual-apply.mjs\<close>,
  \<open>live-commit-manual-edits.mjs\<close> and what they use), start-up and shutdown; loading the detector, reading
  the standard input. \<^emph>\<open>Beside them\<close>: the detector (\<open>detector/\<close>) is a parameter here, as it is a package
  of its own that the scripts load by name; its rules are thresholds on computed styles of a browser or
  of a CSS parser that is not part of the repository. The browser part of the live mode
  (\<open>live-browser.js\<close>) and \<open>detect-antipatterns-browser.js\<close>, a generated bundle, work on the DOM. The
  scripts that edit sources (\<open>live-wrap\<close>, \<open>live-accept\<close>, \<open>live-inject\<close>, \<open>live-insert\<close> and the framework
  adapters) and those that collect context for a prompt (\<open>context\<close>, \<open>design-parser\<close>, \<open>palette\<close>) are
  left for later. The React client (\<open>frontend/\<close>) renders pages over a remote API; the service behind it
  is written in Python.
\<close>

end
